(* ===== verification/Prelude.thy ===== *)
theory Prelude
  imports Main "HOL-Library.Word"
begin

text \<open>
  What the components share: machine words and bytes, the big-endian conversions of the Rust
  standard library (\<^verbatim>\<open>to_be_bytes\<close>, \<^verbatim>\<open>from_be_bytes\<close>), the result type of the \<^verbatim>\<open>nom\<close> parsers
  and the \<^verbatim>\<open>?\<close> operator on it, checked \<^verbatim>\<open>usize\<close> arithmetic, and the interface to the two
  third-party crates the wire code is written on.

  The crates \<^verbatim>\<open>nom\<close> (streaming number readers and \<^verbatim>\<open>take\<close>) and \<^verbatim>\<open>bytes\<close> (the \<^verbatim>\<open>BufMut\<close> writers)
  are not part of the repository, so every parser and writer of the model takes them as an
  argument: a record \<open>codec\<close> of functions. What the code relies on is the locale
  \<open>codec_laws\<close>: a streaming reader either has enough bytes and returns the rest and the
  big-endian value, or answers \<open>Incomplete\<close> (nothing is assumed of the amount it asks
  for); a writer appends. \<open>ref_codec\<close> is a concrete codec that satisfies the laws; witnesses
  evaluate the model on it.
\<close>

unbundle bit_operations_syntax

named_theorems wire_simps \<open>layout of what the writers append\<close>

type_synonym u8 = "8 word"
type_synonym u16 = "16 word"
type_synonym u32 = "32 word"
type_synonym u64 = "64 word"
type_synonym u128 = "128 word"
type_synonym bytes = "u8 list"

section \<open>Big-endian conversions\<close>

text \<open>\<open>to_be n w\<close> is the big-endian list of the low \<open>n\<close> bytes of \<open>w\<close>; \<open>from_be\<close> reads such
  a list back.\<close>

primrec to_be :: "nat \<Rightarrow> 'a::len word \<Rightarrow> bytes" where
  "to_be 0 w = []"
| "to_be (Suc n) w = ucast (drop_bit (8 * n) w) # to_be n w"

definition from_be :: "bytes \<Rightarrow> 'a::len word" where
  "from_be bs = foldl (\<lambda>a b. push_bit 8 a OR ucast b) 0 bs"

lemma to_be_numeral [simp]:
  "to_be (numeral k) w = ucast (drop_bit (8 * pred_numeral k) w) # to_be (pred_numeral k) w"
  by (simp add: numeral_eq_Suc)

lemma length_to_be [simp]: "length (to_be n w) = n"
  by (induction n) auto

lemma foldl_to_be:
  "foldl (\<lambda>a b. push_bit 8 a OR ucast b) a (to_be n w) = push_bit (8 * n) a OR take_bit (8 * n) w"
proof (induction n arbitrary: a)
  case (Suc n)
  have "push_bit (8 * n) (push_bit 8 a OR ucast (ucast (drop_bit (8 * n) w) :: u8)) OR
      take_bit (8 * n) w = push_bit (8 * Suc n) a OR take_bit (8 * Suc n) w"
    by (rule bit_word_eqI) (auto simp: bit_simps ac_simps)
  then show ?case using Suc by simp
qed simp

lemma from_be_to_be: "from_be (to_be n w) = take_bit (8 * n) w"
  by (simp add: from_be_def foldl_to_be)

lemma from_be_to_be_full:
  fixes w :: "'a::len word"
  shows "LENGTH('a) \<le> 8 * n \<Longrightarrow> from_be (to_be n w) = w"
  by (simp add: from_be_to_be take_bit_word_eq_self)

lemma to_be_Suc_snoc: "to_be (Suc n) w = to_be n (drop_bit 8 w) @ [ucast w]"
  by (induction n) (auto simp: algebra_simps)

lemma to_be_take_bit: "8 * n \<le> m \<Longrightarrow> to_be n (take_bit m w) = to_be n w"
proof (induction n)
  case (Suc n)
  have "(ucast (drop_bit (8 * n) (take_bit m w)) :: u8) = ucast (drop_bit (8 * n) w)"
    using Suc.prems by (auto intro!: bit_word_eqI simp: bit_simps)
  then show ?case using Suc by simp
qed simp

lemma to_be_from_be: "8 * length bs \<le> LENGTH('a::len) \<Longrightarrow> to_be (length bs) (from_be bs :: 'a word) = bs"
proof (induction bs rule: rev_induct)
  case (snoc b bs)
  let ?f = "from_be bs :: 'a word"
  have "\<not> bit b (8 + n)" for n
    using bit_imp_le_length [of b "8 + n"] by auto
  then have "drop_bit 8 (push_bit 8 ?f OR ucast b) = take_bit (LENGTH('a) - 8) ?f"
    using snoc.prems by (auto intro!: bit_word_eqI simp: bit_simps less_diff_conv ac_simps)
  moreover have "ucast (push_bit 8 ?f OR ucast b :: 'a word) = b"
    using snoc.prems by (auto intro!: bit_word_eqI simp: bit_simps)
  moreover have "from_be (bs @ [b]) = push_bit 8 ?f OR ucast b"
    by (simp add: from_be_def)
  moreover have "to_be (Suc (length bs)) (push_bit 8 ?f OR ucast b) =
      to_be (length bs) (drop_bit 8 (push_bit 8 ?f OR ucast b)) @ [ucast (push_bit 8 ?f OR ucast b)]"
    by (rule to_be_Suc_snoc)
  moreover have "to_be (length bs) (take_bit (LENGTH('a) - 8) ?f) = bs"
    using snoc by (simp add: to_be_take_bit)
  ultimately show ?case by (simp del: to_be.simps drop_bit_or)
qed simp

section \<open>Checked arithmetic on usize\<close>

text \<open>\<^verbatim>\<open>usize\<close> is 64 bits wide on the supported targets; a size is a \<open>nat\<close> below \<open>2 ^ 64\<close>.\<close>

definition checked_mul :: "nat \<Rightarrow> nat \<Rightarrow> nat option" where
  "checked_mul a b = (if a * b < 2 ^ 64 then Some (a * b) else None)"

definition checked_add :: "nat \<Rightarrow> nat \<Rightarrow> nat option" where
  "checked_add a b = (if a + b < 2 ^ 64 then Some (a + b) else None)"

section \<open>Parser results\<close>

text \<open>
  \<^verbatim>\<open>nom::IResult\<close>: an error or the remaining input with a value. An \<^verbatim>\<open>Error\<close> or \<^verbatim>\<open>Failure\<close> carries
  the input it points at. A slice of the input is the list of its bytes.
\<close>

datatype error_kind = Verify | Alt | Eof | TooLarge | LengthValue

datatype nom_err =
  Incomplete nat
| NomError bytes error_kind
| NomFailure bytes error_kind
| OutOfFuel \<comment> \<open>the model only: a recursion of the source was cut off; shown never to happen\<close>

type_synonym 'a ires = "nom_err + bytes \<times> 'a"

text \<open>Rust's \<^verbatim>\<open>?\<close> on a parser result, followed by the rest of the function.\<close>

fun andthen :: "'a ires \<Rightarrow> (bytes \<Rightarrow> 'a \<Rightarrow> nom_err + 'b) \<Rightarrow> nom_err + 'b" where
  "andthen (Inl e) f = Inl e"
| "andthen (Inr (r, v)) f = f r v"

lemma andthen_eq_Inr:
  "andthen p f = Inr y \<longleftrightarrow> (\<exists>r v. p = Inr (r, v) \<and> f r v = Inr y)"
  by (cases p) auto

lemma andthen_eq_Inl:
  "andthen p f = Inl e \<longleftrightarrow> p = Inl e \<or> (\<exists>r v. p = Inr (r, v) \<and> f r v = Inl e)"
  by (cases p) auto

lemma andthen_no_fuel:
  "p \<noteq> Inl OutOfFuel \<Longrightarrow> (\<And>r v. p = Inr (r, v) \<Longrightarrow> f r v \<noteq> Inl OutOfFuel) \<Longrightarrow> andthen p f \<noteq> Inl OutOfFuel"
  by (cases p) auto

definition is_incomplete :: "nom_err + 'b \<Rightarrow> bool" where
  "is_incomplete p \<longleftrightarrow> (case p of Inl (Incomplete n) \<Rightarrow> True | _ \<Rightarrow> False)"

lemma is_incomplete_simps [simp]:
  "is_incomplete (Inl (Incomplete n))" "\<not> is_incomplete (Inr y)"
  "\<not> is_incomplete (Inl (NomError i k))" "\<not> is_incomplete (Inl (NomFailure i k))"
  "\<not> is_incomplete (Inl OutOfFuel)"
  by (simp_all add: is_incomplete_def)

lemma is_incomplete_iff: "is_incomplete p \<longleftrightarrow> (\<exists>n. p = Inl (Incomplete n))"
  by (auto simp: is_incomplete_def split: sum.splits nom_err.splits)

text \<open>\<^verbatim>\<open>for _ in 0..count\<close> around a parser, with \<^verbatim>\<open>?\<close> on every round.\<close>

fun parse_count :: "(bytes \<Rightarrow> 'a ires) \<Rightarrow> nat \<Rightarrow> bytes \<Rightarrow> 'a list ires" where
  "parse_count p 0 input = Inr (input, [])"
| "parse_count p (Suc n) input =
     andthen (p input) (\<lambda>rest x. andthen (parse_count p n rest) (\<lambda>rest xs. Inr (rest, x # xs)))"

text \<open>
  A wire format: what the writer appends for an admissible value, the reader returns, and it
  leaves the bytes after it alone. Formats compose; \<open>enc_inj\<close> says that no encoding is a prefix
  of another one, \<open>dec_many\<close> that a counted sequence is read back.
\<close>

locale wire_format =
  fixes enc :: "'a \<Rightarrow> bytes" and dec :: "bytes \<Rightarrow> 'a ires" and ok :: "'a \<Rightarrow> bool"
  assumes dec_enc: "ok x \<Longrightarrow> dec (enc x @ r) = Inr (r, x)"
begin

lemma enc_inj: "ok x \<Longrightarrow> ok y \<Longrightarrow> enc x @ r = enc y @ s \<Longrightarrow> x = y \<and> r = s"
  by (metis Inr_inject dec_enc prod.inject)

lemma dec_many:
  "list_all ok xs \<Longrightarrow> parse_count dec (length xs) (concat (map enc xs) @ r) = Inr (r, xs)"
  by (induction xs) (simp_all add: dec_enc)

end

section \<open>The nom and bytes crates as parameters\<close>

record codec =
  nom_be_u8 :: "bytes \<Rightarrow> u8 ires"
  nom_be_u16 :: "bytes \<Rightarrow> u16 ires"
  nom_be_u32 :: "bytes \<Rightarrow> u32 ires"
  nom_be_u128 :: "bytes \<Rightarrow> u128 ires"
  nom_take :: "nat \<Rightarrow> bytes \<Rightarrow> bytes ires"
  buf_advance :: "nat \<Rightarrow> bytes \<Rightarrow> bytes"
  buf_put_u8 :: "bytes \<Rightarrow> u8 \<Rightarrow> bytes"
  buf_put_u16 :: "bytes \<Rightarrow> u16 \<Rightarrow> bytes"
  buf_put_u32 :: "bytes \<Rightarrow> u32 \<Rightarrow> bytes"
  buf_put_u64 :: "bytes \<Rightarrow> u64 \<Rightarrow> bytes"
  buf_put_u128 :: "bytes \<Rightarrow> u128 \<Rightarrow> bytes"
  buf_put_slice :: "bytes \<Rightarrow> bytes \<Rightarrow> bytes"

locale codec_laws =
  fixes C :: codec
  assumes be_u8_enough: "nom_be_u8 C (b # r) = Inr (r, b)"
    and be_u8_short: "is_incomplete (nom_be_u8 C [])"
    and be_u16_enough: "length h = 2 \<Longrightarrow> nom_be_u16 C (h @ r) = Inr (r, from_be h)"
    and be_u16_short: "length i < 2 \<Longrightarrow> is_incomplete (nom_be_u16 C i)"
    and be_u32_enough: "length h = 4 \<Longrightarrow> nom_be_u32 C (h @ r) = Inr (r, from_be h)"
    and be_u32_short: "length i < 4 \<Longrightarrow> is_incomplete (nom_be_u32 C i)"
    and be_u128_enough: "length h = 16 \<Longrightarrow> nom_be_u128 C (h @ r) = Inr (r, from_be h)"
    and be_u128_short: "length i < 16 \<Longrightarrow> is_incomplete (nom_be_u128 C i)"
    and take_enough: "length h = n \<Longrightarrow> nom_take C n (h @ r) = Inr (r, h)"
    and take_short: "length i < n \<Longrightarrow> is_incomplete (nom_take C n i)"
    and advance: "n \<le> length i \<Longrightarrow> buf_advance C n i = drop n i"
    and put_u8: "buf_put_u8 C buf b = buf @ [b]"
    and put_u16: "buf_put_u16 C buf w16 = buf @ to_be 2 w16"
    and put_u32: "buf_put_u32 C buf w32 = buf @ to_be 4 w32"
    and put_u64: "buf_put_u64 C buf w64 = buf @ to_be 8 w64"
    and put_u128: "buf_put_u128 C buf w128 = buf @ to_be 16 w128"
    and put_slice: "buf_put_slice C buf bs = buf @ bs"
begin

lemmas put_laws = put_u8 put_u16 put_u32 put_u64 put_u128 put_slice

text \<open>What a reader returns on what the matching writer appended.\<close>

lemma read_u16: "nom_be_u16 C (to_be 2 w @ r) = Inr (r, w)"
  using be_u16_enough [of "to_be 2 w" r] by (simp add: from_be_to_be_full del: to_be_numeral)

lemma read_u32: "nom_be_u32 C (to_be 4 w @ r) = Inr (r, w)"
  using be_u32_enough [of "to_be 4 w" r] by (simp add: from_be_to_be_full del: to_be_numeral)

lemma read_u128: "nom_be_u128 C (to_be 16 w @ r) = Inr (r, w)"
  using be_u128_enough [of "to_be 16 w" r] by (simp add: from_be_to_be_full del: to_be_numeral)

lemma read_take: "nom_take C (length h) (h @ r) = Inr (r, h)"
  by (rule take_enough) simp

lemmas read_laws = be_u8_enough read_u16 read_u32 read_u128 read_take

text \<open>Inversion: what is known when a reader succeeded.\<close>

lemma be_u8_iff: "nom_be_u8 C i = Inr (r, v) \<longleftrightarrow> i = v # r"
  using be_u8_short by (cases i) (auto simp: be_u8_enough is_incomplete_iff)

lemma be_u16_iff: "nom_be_u16 C i = Inr (r, v) \<longleftrightarrow> i = to_be 2 v @ r"
proof
  assume ok: "nom_be_u16 C i = Inr (r, v)"
  then have "\<not> length i < 2" using be_u16_short [of i] by auto
  then have "i = take 2 i @ drop 2 i \<and> length (take 2 i) = 2" by simp
  then obtain h t where i: "i = h @ t" "length h = 2" by metis
  with ok be_u16_enough [of h t] have "t = r" "v = from_be h" by auto
  with i to_be_from_be [of h, where 'a = 16] show "i = to_be 2 v @ r"
    by (simp del: to_be_numeral)
qed (simp add: read_u16 del: to_be_numeral)

lemma be_u32_iff: "nom_be_u32 C i = Inr (r, v) \<longleftrightarrow> i = to_be 4 v @ r"
proof
  assume ok: "nom_be_u32 C i = Inr (r, v)"
  then have "\<not> length i < 4" using be_u32_short [of i] by auto
  then have "i = take 4 i @ drop 4 i \<and> length (take 4 i) = 4" by simp
  then obtain h t where i: "i = h @ t" "length h = 4" by metis
  with ok be_u32_enough [of h t] have "t = r" "v = from_be h" by auto
  with i to_be_from_be [of h, where 'a = 32] show "i = to_be 4 v @ r"
    by (simp del: to_be_numeral)
qed (simp add: read_u32 del: to_be_numeral)

lemma be_u128_iff: "nom_be_u128 C i = Inr (r, v) \<longleftrightarrow> i = to_be 16 v @ r"
proof
  assume ok: "nom_be_u128 C i = Inr (r, v)"
  then have "\<not> length i < 16" using be_u128_short [of i] by auto
  then have "i = take 16 i @ drop 16 i \<and> length (take 16 i) = 16" by simp
  then obtain h t where i: "i = h @ t" "length h = 16" by metis
  with ok be_u128_enough [of h t] have "t = r" "v = from_be h" by auto
  with i to_be_from_be [of h, where 'a = 128] show "i = to_be 16 v @ r"
    by (simp del: to_be_numeral)
qed (simp add: read_u128 del: to_be_numeral)

lemma take_iff: "nom_take C n i = Inr (r, h) \<longleftrightarrow> i = h @ r \<and> length h = n"
proof
  assume ok: "nom_take C n i = Inr (r, h)"
  then have "\<not> length i < n" using take_short [of i n] by auto
  then have "i = take n i @ drop n i \<and> length (take n i) = n" by simp
  then obtain g t where i: "i = g @ t" "length g = n" by metis
  with ok take_enough [of g n t] show "i = h @ r \<and> length h = n" by auto
qed (auto simp: read_take)

lemmas read_iffs = be_u8_iff be_u16_iff be_u32_iff be_u128_iff take_iff

text \<open>The only error of a reader is \<open>Incomplete\<close>.\<close>

lemma be_u8_err: "nom_be_u8 C i = Inl e \<Longrightarrow> is_incomplete (Inl e :: nom_err + unit)"
  using be_u8_short by (cases i) (auto simp: be_u8_enough is_incomplete_def)

lemma be_u16_err: "nom_be_u16 C i = Inl e \<Longrightarrow> is_incomplete (Inl e :: nom_err + unit)"
  using be_u16_short [of i] be_u16_enough [of "take 2 i" "drop 2 i"]
  by (cases "length i < 2") (auto simp: is_incomplete_def)

lemma be_u32_err: "nom_be_u32 C i = Inl e \<Longrightarrow> is_incomplete (Inl e :: nom_err + unit)"
  using be_u32_short [of i] be_u32_enough [of "take 4 i" "drop 4 i"]
  by (cases "length i < 4") (auto simp: is_incomplete_def)

lemma be_u128_err: "nom_be_u128 C i = Inl e \<Longrightarrow> is_incomplete (Inl e :: nom_err + unit)"
  using be_u128_short [of i] be_u128_enough [of "take 16 i" "drop 16 i"]
  by (cases "length i < 16") (auto simp: is_incomplete_def)

lemma take_err: "nom_take C n i = Inl e \<Longrightarrow> is_incomplete (Inl e :: nom_err + unit)"
  using take_short [of i n] take_enough [of "take n i" n "drop n i"]
  by (cases "length i < n") (auto simp: is_incomplete_def)

lemma read_no_fuel [simp]:
  "nom_be_u8 C i \<noteq> Inl OutOfFuel" "nom_be_u16 C i \<noteq> Inl OutOfFuel" "nom_be_u32 C i \<noteq> Inl OutOfFuel"
  "nom_be_u128 C i \<noteq> Inl OutOfFuel" "nom_take C n i \<noteq> Inl OutOfFuel"
  using be_u8_err be_u16_err be_u32_err be_u128_err take_err by fastforce+

lemmas read_errs = be_u8_err be_u16_err be_u32_err be_u128_err take_err

end

section \<open>A concrete codec\<close>

definition ref_take :: "nat \<Rightarrow> bytes \<Rightarrow> bytes ires" where
  "ref_take n i = (if length i < n then Inl (Incomplete (n - length i)) else Inr (drop n i, take n i))"

definition ref_uint :: "nat \<Rightarrow> bytes \<Rightarrow> 'a::len word ires" where
  "ref_uint n i = andthen (ref_take n i) (\<lambda>r h. Inr (r, from_be h))"

definition ref_codec :: codec where
  "ref_codec = \<lparr>nom_be_u8 = (\<lambda>i. case i of [] \<Rightarrow> Inl (Incomplete 1) | b # r \<Rightarrow> Inr (r, b)),
     nom_be_u16 = ref_uint 2, nom_be_u32 = ref_uint 4, nom_be_u128 = ref_uint 16,
     nom_take = ref_take, buf_advance = drop,
     buf_put_u8 = (\<lambda>buf b. buf @ [b]), buf_put_u16 = (\<lambda>buf w. buf @ to_be 2 w),
     buf_put_u32 = (\<lambda>buf w. buf @ to_be 4 w), buf_put_u64 = (\<lambda>buf w. buf @ to_be 8 w),
     buf_put_u128 = (\<lambda>buf w. buf @ to_be 16 w), buf_put_slice = (@)\<rparr>"

lemmas ref_codec_simps = ref_codec_def ref_uint_def ref_take_def from_be_def

interpretation refc: codec_laws ref_codec
  by unfold_locales (auto simp: ref_codec_def ref_uint_def ref_take_def)

end
