(* ===== verification/RustStr.thy ===== *)
theory RustStr
  imports Prelude
begin

text \<open>
  The string functions of the Rust standard library that the source calls. A \<^verbatim>\<open>&str\<close> or
  \<^verbatim>\<open>String\<close> is the list of its UTF-8 bytes; \<open>str\<close> writes a literal. \<^verbatim>\<open>from_utf8\<close> and
  \<^verbatim>\<open>from_utf8_lossy\<close> are modelled with the library's own case split on lead and continuation
  bytes, so ill-formed input is replaced exactly as the program replaces it.
\<close>

type_synonym rstr = bytes

definition str :: "string \<Rightarrow> rstr" where
  "str s = map of_char s"

abbreviation dot :: u8 where "dot \<equiv> 46"

abbreviation colon :: u8 where "colon \<equiv> 58"

section \<open>Prefixes, suffixes, splitting and joining\<close>

definition strip_prefix :: "rstr \<Rightarrow> rstr \<Rightarrow> rstr option" where
  "strip_prefix p s = (if take (length p) s = p then Some (drop (length p) s) else None)"

definition strip_suffix :: "rstr \<Rightarrow> rstr \<Rightarrow> rstr option" where
  "strip_suffix p s = map_option rev (strip_prefix (rev p) (rev s))"

definition starts_with :: "rstr \<Rightarrow> rstr \<Rightarrow> bool" where
  "starts_with p s \<longleftrightarrow> strip_prefix p s \<noteq> None"

definition ends_with :: "rstr \<Rightarrow> rstr \<Rightarrow> bool" where
  "ends_with p s \<longleftrightarrow> strip_suffix p s \<noteq> None"

definition trim_end_matches :: "u8 \<Rightarrow> rstr \<Rightarrow> rstr" where
  "trim_end_matches c s = rev (dropWhile (\<lambda>x. x = c) (rev s))"

definition trim_matches :: "u8 \<Rightarrow> rstr \<Rightarrow> rstr" where
  "trim_matches c s = trim_end_matches c (dropWhile (\<lambda>x. x = c) s)"

fun split_on :: "u8 \<Rightarrow> rstr \<Rightarrow> rstr list" where
  "split_on c [] = [[]]"
| "split_on c (x # xs) =
     (if x = c then [] # split_on c xs
      else (case split_on c xs of [] \<Rightarrow> [[x]] | p # ps \<Rightarrow> (x # p) # ps))"

fun join_with :: "rstr \<Rightarrow> rstr list \<Rightarrow> rstr" where
  "join_with sep [] = []"
| "join_with sep [x] = x"
| "join_with sep (x # y # ys) = x @ sep @ join_with sep (y # ys)"

definition split_once :: "u8 \<Rightarrow> rstr \<Rightarrow> (rstr \<times> rstr) option" where
  "split_once c s =
     (if c \<in> set s then Some (takeWhile (\<lambda>x. x \<noteq> c) s, tl (dropWhile (\<lambda>x. x \<noteq> c) s)) else None)"

definition rsplit_once :: "u8 \<Rightarrow> rstr \<Rightarrow> (rstr \<times> rstr) option" where
  "rsplit_once c s = map_option (\<lambda>(a, b). (rev b, rev a)) (split_once c (rev s))"

definition contains :: "rstr \<Rightarrow> rstr \<Rightarrow> bool" where
  "contains s p \<longleftrightarrow> list_ex (\<lambda>i. take (length p) (drop i s) = p) [0..<Suc (length s)]"

lemma strip_prefix_Some: "strip_prefix p s = Some r \<longleftrightarrow> s = p @ r"
  by (auto simp: strip_prefix_def) (metis append_take_drop_id)

lemma strip_prefix_append [simp]: "strip_prefix p (p @ r) = Some r"
  by (simp add: strip_prefix_Some)

lemma strip_suffix_Some: "strip_suffix p s = Some r \<longleftrightarrow> s = r @ p"
proof -
  have "strip_suffix p s = Some r \<longleftrightarrow> rev s = rev p @ rev r"
    by (auto simp: strip_suffix_def strip_prefix_Some)
  also have "\<dots> \<longleftrightarrow> s = r @ p"
    by (metis rev_append rev_rev_ident)
  finally show ?thesis .
qed

lemma strip_suffix_append [simp]: "strip_suffix p (r @ p) = Some r"
  by (simp add: strip_suffix_Some)

lemma ends_with_iff: "ends_with p s \<longleftrightarrow> (\<exists>r. s = r @ p)"
  by (simp add: ends_with_def strip_suffix_Some)

lemma starts_with_iff: "starts_with p s \<longleftrightarrow> (\<exists>r. s = p @ r)"
  by (simp add: starts_with_def strip_prefix_Some)

lemma split_on_not_Nil [simp]: "split_on c s \<noteq> []"
  by (induction c s rule: split_on.induct) (auto split: list.splits)

lemma split_on_no_sep: "p \<in> set (split_on c s) \<Longrightarrow> c \<notin> set p"
  by (induction c s arbitrary: p rule: split_on.induct) (auto split: list.splits if_splits)

lemma join_split_on: "join_with [c] (split_on c s) = s"
proof (induction c s rule: split_on.induct)
  case (2 c x xs)
  obtain p ps where eq: "split_on c xs = p # ps"
    by (cases "split_on c xs") auto
  show ?case using 2 eq by (cases ps) auto
qed simp

lemma split_on_append:
  "c \<notin> set l \<Longrightarrow> split_on c (l @ c # s) = l # split_on c s"
  by (induction l) auto

lemma split_on_single: "c \<notin> set l \<Longrightarrow> split_on c l = [l]"
  by (induction l) auto

lemma split_join:
  "ls \<noteq> [] \<Longrightarrow> \<forall>l \<in> set ls. c \<notin> set l \<Longrightarrow> split_on c (join_with [c] ls) = ls"
  by (induction "[c]" ls rule: join_with.induct) (auto simp: split_on_append split_on_single)

lemma rsplit_once_Some: "rsplit_once c s = Some (a, b) \<longleftrightarrow> s = a @ c # b \<and> c \<notin> set b"
proof
  assume *: "rsplit_once c s = Some (a, b)"
  then have in_s: "c \<in> set (rev s)" and a: "rev a = tl (dropWhile (\<lambda>x. x \<noteq> c) (rev s))"
    and b: "rev b = takeWhile (\<lambda>x. x \<noteq> c) (rev s)"
    by (auto simp: rsplit_once_def split_once_def split: if_splits)
  have ne: "dropWhile (\<lambda>x. x \<noteq> c) (rev s) \<noteq> []" using in_s by (simp add: dropWhile_eq_Nil_conv)
  have "hd (dropWhile (\<lambda>x. x \<noteq> c) (rev s)) = c"
    using hd_dropWhile [OF ne] by simp
  with ne a have "dropWhile (\<lambda>x. x \<noteq> c) (rev s) = c # rev a"
    by (cases "dropWhile (\<lambda>x. x \<noteq> c) (rev s)") auto
  then have "rev s = rev b @ c # rev a"
    using takeWhile_dropWhile_id [of "\<lambda>x. x \<noteq> c" "rev s"] b by simp
  then have "rev (rev s) = a @ c # b" by simp
  moreover have "c \<notin> set (rev b)" unfolding b by (auto dest: set_takeWhileD)
  ultimately show "s = a @ c # b \<and> c \<notin> set b" by simp
next
  assume *: "s = a @ c # b \<and> c \<notin> set b"
  then have "takeWhile (\<lambda>x. x \<noteq> c) (rev b @ c # rev a) = rev b"
    "dropWhile (\<lambda>x. x \<noteq> c) (rev b @ c # rev a) = c # rev a"
    by (auto simp: takeWhile_append dropWhile_append)
  with * show "rsplit_once c s = Some (a, b)"
    by (simp add: rsplit_once_def split_once_def)
qed

lemma rsplit_once_None: "rsplit_once c s = None \<longleftrightarrow> c \<notin> set s"
  by (auto simp: rsplit_once_def split_once_def)

section \<open>ASCII\<close>

definition is_ascii_digit :: "u8 \<Rightarrow> bool" where
  "is_ascii_digit b \<longleftrightarrow> 48 \<le> b \<and> b \<le> 57"

definition is_ascii_alphanumeric :: "u8 \<Rightarrow> bool" where
  "is_ascii_alphanumeric b \<longleftrightarrow> is_ascii_digit b \<or> (65 \<le> b \<and> b \<le> 90) \<or> (97 \<le> b \<and> b \<le> 122)"

definition ascii_lower :: "u8 \<Rightarrow> u8" where
  "ascii_lower b = (if 65 \<le> b \<and> b \<le> 90 then b + 32 else b)"

definition to_ascii_lowercase :: "rstr \<Rightarrow> rstr" where
  "to_ascii_lowercase s = map ascii_lower s"

definition eq_ignore_ascii_case :: "rstr \<Rightarrow> rstr \<Rightarrow> bool" where
  "eq_ignore_ascii_case a b \<longleftrightarrow> to_ascii_lowercase a = to_ascii_lowercase b"

lemma ascii_lower_idem [simp]: "ascii_lower (ascii_lower b) = ascii_lower b"
proof (cases "65 \<le> b \<and> b \<le> 90")
  case True
  then have "65 \<le> unat b" "unat b \<le> 90" by (simp_all add: word_le_nat_alt)
  then have "\<not> b + 32 \<le> 90"
    by (simp add: word_le_nat_alt unat_word_ariths)
  with True show ?thesis by (simp add: ascii_lower_def)
qed (auto simp: ascii_lower_def)

lemma to_ascii_lowercase_idem [simp]:
  "to_ascii_lowercase (to_ascii_lowercase s) = to_ascii_lowercase s"
  by (simp add: to_ascii_lowercase_def)

section \<open>Decimal numbers\<close>

text \<open>\<^verbatim>\<open>str::parse::<u64>\<close>: an optional \<^verbatim>\<open>+\<close>, then at least one digit, no overflow.\<close>

definition digits_value :: "rstr \<Rightarrow> nat" where
  "digits_value ds = foldl (\<lambda>a d. 10 * a + unat (d - 48)) 0 ds"

definition parse_u64 :: "rstr \<Rightarrow> u64 option" where
  "parse_u64 s =
     (let ds = (if s \<noteq> [] \<and> hd s = 43 then tl s else s)
      in if ds = [] \<or> \<not> list_all is_ascii_digit ds then None
         else if digits_value ds < 2 ^ 64 then Some (of_nat (digits_value ds)) else None)"

fun dec_digits :: "nat \<Rightarrow> rstr" where
  "dec_digits n = (if n < 10 then [48 + of_nat n] else dec_digits (n div 10) @ [48 + of_nat (n mod 10)])"

declare dec_digits.simps [simp del]

text \<open>\<^verbatim>\<open>Display\<close> for an unsigned integer.\<close>

definition display_u64 :: "u64 \<Rightarrow> rstr" where
  "display_u64 n = dec_digits (unat n)"

text \<open>\<^verbatim>\<open>LowerHex\<close> and \<^verbatim>\<open>UpperHex\<close> for an unsigned integer.\<close>

definition hex_char :: "nat \<Rightarrow> u8" where
  "hex_char n = (if n < 10 then 48 + of_nat n else 87 + of_nat n)"

fun hex_digits :: "nat \<Rightarrow> rstr" where
  "hex_digits n = (if n < 16 then [hex_char n] else hex_digits (n div 16) @ [hex_char (n mod 16)])"

declare hex_digits.simps [simp del]

definition ascii_upper :: "u8 \<Rightarrow> u8" where
  "ascii_upper b = (if 97 \<le> b \<and> b \<le> 122 then b - 32 else b)"

definition upper_hex_digits :: "nat \<Rightarrow> rstr" where
  "upper_hex_digits n = map ascii_upper (hex_digits n)"

lemma digit_byte:
  assumes "d < 10"
  shows "is_ascii_digit (48 + of_nat d)" "unat (48 + of_nat d - 48 :: u8) = d"
proof -
  have d: "unat (of_nat d :: u8) = d" using assms by (simp add: unat_of_nat)
  then have "unat (48 + of_nat d :: u8) = 48 + d" using assms by (simp add: unat_word_ariths)
  then show "is_ascii_digit (48 + of_nat d)" using assms
    by (simp add: is_ascii_digit_def word_le_nat_alt)
  show "unat (48 + of_nat d - 48 :: u8) = d" using d by simp
qed

lemma dec_digits_props:
  "dec_digits n \<noteq> [] \<and> list_all is_ascii_digit (dec_digits n) \<and> digits_value (dec_digits n) = n"
proof (induction n rule: dec_digits.induct)
  case (1 n)
  show ?case
  proof (cases "n < 10")
    case True
    then show ?thesis using digit_byte [of n] dec_digits.simps [of n]
      by (simp add: digits_value_def)
  next
    case False
    moreover have "n mod 10 < 10" by simp
    ultimately show ?thesis using 1 digit_byte [of "n mod 10"] dec_digits.simps [of n]
      by (simp add: digits_value_def)
  qed
qed

lemma parse_display_u64: "parse_u64 (display_u64 n) = Some n"
proof -
  let ?d = "dec_digits (unat n)"
  have p: "?d \<noteq> []" "list_all is_ascii_digit ?d" "digits_value ?d = unat n"
    using dec_digits_props by auto
  then have "hd ?d \<noteq> 43"
    by (cases ?d) (auto simp: is_ascii_digit_def)
  moreover have "unat n < 2 ^ LENGTH(64)" by (rule unsigned_less)
  ultimately show ?thesis using p
    by (simp add: parse_u64_def display_u64_def)
qed

section \<open>Trimming\<close>

text \<open>\<^verbatim>\<open>str::trim\<close>: the encodings of the characters with the Unicode property White_Space.\<close>

definition white_space :: "rstr list" where
  "white_space = [[9], [10], [11], [12], [13], [32], [0xC2, 0x85], [0xC2, 0xA0], [0xE1, 0x9A, 0x80],
     [0xE2, 0x80, 0x80], [0xE2, 0x80, 0x81], [0xE2, 0x80, 0x82], [0xE2, 0x80, 0x83], [0xE2, 0x80, 0x84], [0xE2, 0x80, 0x85],
     [0xE2, 0x80, 0x86], [0xE2, 0x80, 0x87], [0xE2, 0x80, 0x88], [0xE2, 0x80, 0x89], [0xE2, 0x80, 0x8A],
     [0xE2, 0x80, 0xA8], [0xE2, 0x80, 0xA9], [0xE2, 0x80, 0xAF], [0xE2, 0x81, 0x9F], [0xE3, 0x80, 0x80]]"

fun find_map :: "('a \<Rightarrow> 'b option) \<Rightarrow> 'a list \<Rightarrow> 'b option" where
  "find_map f [] = None"
| "find_map f (x # xs) = (case f x of Some y \<Rightarrow> Some y | None \<Rightarrow> find_map f xs)"

lemma find_map_Some: "find_map f xs = Some y \<Longrightarrow> \<exists>x \<in> set xs. f x = Some y"
  by (induction xs) (auto split: option.splits)

function strip_all :: "rstr list \<Rightarrow> rstr \<Rightarrow> rstr" where
  "strip_all ps s = (case find_map (\<lambda>p. if p = [] then None else strip_prefix p s) ps of Some r \<Rightarrow> strip_all ps r | None \<Rightarrow> s)"
  by pat_completeness auto
termination
  by (relation "measure (\<lambda>(_, s). length s)")
    (auto simp: strip_prefix_Some dest!: find_map_Some split: if_splits)

declare strip_all.simps [simp del]

definition str_trim :: "rstr \<Rightarrow> rstr" where
  "str_trim s = rev (strip_all (map rev white_space) (rev (strip_all white_space s)))"

section \<open>UTF-8\<close>

definition safe_get :: "bytes \<Rightarrow> nat \<Rightarrow> u8" where
  "safe_get xs i = (if i < length xs then xs ! i else 0)"

definition utf8_cont :: "u8 \<Rightarrow> bool" where
  "utf8_cont b \<longleftrightarrow> b AND 192 = 128"

definition utf8_second3 :: "u8 \<Rightarrow> u8 \<Rightarrow> bool" where
  "utf8_second3 b c \<longleftrightarrow>
     (b = 0xE0 \<and> 0xA0 \<le> c \<and> c \<le> 0xBF) \<or> (0xE1 \<le> b \<and> b \<le> 0xEC \<and> 0x80 \<le> c \<and> c \<le> 0xBF) \<or>
     (b = 0xED \<and> 0x80 \<le> c \<and> c \<le> 0x9F) \<or> (0xEE \<le> b \<and> b \<le> 0xEF \<and> 0x80 \<le> c \<and> c \<le> 0xBF)"

definition utf8_second4 :: "u8 \<Rightarrow> u8 \<Rightarrow> bool" where
  "utf8_second4 b c \<longleftrightarrow>
     (b = 0xF0 \<and> 0x90 \<le> c \<and> c \<le> 0xBF) \<or> (0xF1 \<le> b \<and> b \<le> 0xF3 \<and> 0x80 \<le> c \<and> c \<le> 0xBF) \<or>
     (b = 0xF4 \<and> 0x80 \<le> c \<and> c \<le> 0x8F)"

text \<open>The next chunk: whether it is one well-formed character, and its length; an ill-formed
  chunk is the longest prefix of a character.\<close>

definition utf8_head :: "u8 \<Rightarrow> bytes \<Rightarrow> bool \<times> nat" where
  "utf8_head b r =
     (if b < 0x80 then (True, 1)
      else if 0xC2 \<le> b \<and> b \<le> 0xDF then
        (if utf8_cont (safe_get r 0) then (True, 2) else (False, 1))
      else if 0xE0 \<le> b \<and> b \<le> 0xEF then
        (if \<not> utf8_second3 b (safe_get r 0) then (False, 1)
         else if utf8_cont (safe_get r 1) then (True, 3) else (False, 2))
      else if 0xF0 \<le> b \<and> b \<le> 0xF4 then
        (if \<not> utf8_second4 b (safe_get r 0) then (False, 1)
         else if \<not> utf8_cont (safe_get r 1) then (False, 2)
         else if utf8_cont (safe_get r 2) then (True, 4) else (False, 3))
      else (False, 1))"

lemma utf8_head_pos: "0 < snd (utf8_head b r)"
  by (simp add: utf8_head_def)

function from_utf8_lossy :: "bytes \<Rightarrow> rstr" where
  "from_utf8_lossy [] = []"
| "from_utf8_lossy (b # r) =
     (if fst (utf8_head b r) then take (snd (utf8_head b r)) (b # r) else [0xEF, 0xBF, 0xBD]) @
     from_utf8_lossy (drop (snd (utf8_head b r)) (b # r))"
  by pat_completeness auto
termination
  by (relation "measure length") (auto simp: utf8_head_pos drop_Cons' )

function valid_utf8 :: "bytes \<Rightarrow> bool" where
  "valid_utf8 [] \<longleftrightarrow> True"
| "valid_utf8 (b # r) \<longleftrightarrow>
     fst (utf8_head b r) \<and> valid_utf8 (drop (snd (utf8_head b r)) (b # r))"
  by pat_completeness auto
termination
  by (relation "measure length") (auto simp: utf8_head_pos drop_Cons')

declare from_utf8_lossy.simps(2) [simp del] valid_utf8.simps(2) [simp del]

lemma from_utf8_lossy_valid: "valid_utf8 s \<Longrightarrow> from_utf8_lossy s = s"
proof (induction s rule: valid_utf8.induct)
  case (2 b r)
  then show ?case
    by (simp only: valid_utf8.simps(2) from_utf8_lossy.simps(2) if_True append_take_drop_id)
qed simp

lemma valid_utf8_ascii: "list_all (\<lambda>b. b < 0x80) s \<Longrightarrow> valid_utf8 s"
  by (induction s) (auto simp: valid_utf8.simps(2) utf8_head_def)

end
