(* ===== verification/Varint.thy ===== *)
theory Varint
  imports RustStr "HOL-Library.Monad_Syntax"
begin

text \<open>
  QUIC variable-length integers (\<^verbatim>\<open>src/core/parser/varint.rs\<close>): construction with the range
  check, the encoded size, the writer \<open>put_varint\<close> and the reader \<open>be_varint\<close>. A panic
  (\<^verbatim>\<open>unreachable!\<close>) is \<open>None\<close>; the lemmas show that it is unreachable for values the
  constructors accept.
\<close>

datatype VarInt = VarInt u64

datatype Overflow = Overflow u128

definition VARINT_MAX :: u64 where
  "VARINT_MAX = 0x3fffffffffffffff"

definition from_u32 :: "u32 \<Rightarrow> VarInt" where
  "from_u32 x = VarInt (ucast x)"

definition from_u64 :: "u64 \<Rightarrow> Overflow + VarInt" where
  "from_u64 v = (if v \<le> VARINT_MAX then Inr (VarInt v) else Inl (Overflow (ucast v)))"

definition from_u128 :: "u128 \<Rightarrow> Overflow + VarInt" where
  "from_u128 v = (if v \<le> ucast VARINT_MAX then Inr (VarInt (ucast v)) else Inl (Overflow v))"

fun into_inner :: "VarInt \<Rightarrow> u64" where
  "into_inner (VarInt x) = x"

fun encoding_size :: "VarInt \<Rightarrow> nat option" where
  "encoding_size (VarInt x) =
     (if x < push_bit 6 1 then Some 1 else if x < push_bit 14 1 then Some 2
      else if x < push_bit 30 1 then Some 4 else if x < push_bit 62 1 then Some 8 else None)"

definition be_varint :: "codec \<Rightarrow> bytes \<Rightarrow> VarInt ires" where
  "be_varint C input = andthen (nom_be_u8 C input) (\<lambda>remain first_byte.
     let len = 2 ^ unat (drop_bit 6 first_byte) in
     if length remain + 1 < len then Inl (Incomplete (len - (length remain + 1)))
     else let buf = (first_byte AND 0x3f) # take (len - 1) remain @ replicate (8 - len) 0;
              v = drop_bit (8 * (8 - len)) (from_be buf :: u64)
          in Inr (drop (len - 1) remain, VarInt v))"

fun put_varint :: "codec \<Rightarrow> bytes \<Rightarrow> VarInt \<Rightarrow> bytes option" where
  "put_varint C buf (VarInt x) =
     (if x < push_bit 6 1 then Some (buf_put_u8 C buf (ucast x))
      else if x < push_bit 14 1 then Some (buf_put_u16 C buf (push_bit 14 1 OR ucast x))
      else if x < push_bit 30 1 then Some (buf_put_u32 C buf (push_bit 30 2 OR ucast x))
      else if x < push_bit 62 1 then Some (buf_put_u64 C buf (push_bit 62 3 OR x))
      else None)"

section \<open>Conversions\<close>

datatype EncodeBytes = One | Two | Four | Eight

fun encode_bytes :: "EncodeBytes \<Rightarrow> nat" where
  "encode_bytes One = 1"
| "encode_bytes Two = 2"
| "encode_bytes Four = 4"
| "encode_bytes Eight = 8"

definition VarInt_MAX :: VarInt where "VarInt_MAX = VarInt VARINT_MAX"
definition VarInt_MAX_SIZE :: nat where "VarInt_MAX_SIZE = 8"

text \<open>The value has to be in range; this is the caller's obligation.\<close>

definition from_u64_unchecked :: "u64 \<Rightarrow> VarInt" where
  "from_u64_unchecked x = VarInt x"

definition varint_into_u64 :: "VarInt \<Rightarrow> u64" where
  "varint_into_u64 v = into_inner v"

definition varint_of_u8 :: "u8 \<Rightarrow> VarInt" where
  "varint_of_u8 x = VarInt (ucast x)"

definition varint_of_u16 :: "u16 \<Rightarrow> VarInt" where
  "varint_of_u16 x = VarInt (ucast x)"

definition varint_of_u32 :: "u32 \<Rightarrow> VarInt" where
  "varint_of_u32 x = VarInt (ucast x)"

definition varint_try_from_u128 :: "u128 \<Rightarrow> Overflow + VarInt" where
  "varint_try_from_u128 x = from_u128 x"

definition varint_try_from_u64 :: "u64 \<Rightarrow> Overflow + VarInt" where
  "varint_try_from_u64 x = from_u64 x"

text \<open>\<open>usize\<close> has 64 bits here.\<close>

definition varint_try_from_usize :: "u64 \<Rightarrow> Overflow + VarInt" where
  "varint_try_from_usize x = varint_try_from_u64 x"

definition varint_eq_u64 :: "VarInt \<Rightarrow> u64 \<Rightarrow> bool" where
  "varint_eq_u64 v x \<longleftrightarrow> into_inner v = x"

datatype Ordering = Less | Equal | Greater

definition varint_partial_cmp :: "VarInt \<Rightarrow> u64 \<Rightarrow> Ordering option" where
  "varint_partial_cmp v x = Some (if into_inner v < x then Less else if into_inner v = x then Equal else Greater)"

definition varint_display :: "VarInt \<Rightarrow> rstr" where
  "varint_display v = dec_digits (unat (into_inner v))"

definition varint_lower_hex :: "VarInt \<Rightarrow> rstr" where
  "varint_lower_hex v = hex_digits (unat (into_inner v))"

definition varint_upper_hex :: "VarInt \<Rightarrow> rstr" where
  "varint_upper_hex v = upper_hex_digits (unat (into_inner v))"

fun overflow_display :: "Overflow \<Rightarrow> rstr" where
  "overflow_display (Overflow v) = str ''Value('' @ dec_digits (unat v) @ str '') too large for varint encoding''"

definition varint_from_u64 :: "u64 \<Rightarrow> VarInt ires" where
  "varint_from_u64 v = (case from_u64 v of Inr v \<Rightarrow> Inr ([], v) | Inl _ \<Rightarrow> Inl (NomError [] error_kind.TooLarge))"

section \<open>The tagged encoding\<close>

text \<open>
  The encoding with length exponent \<open>k\<close>: \<open>2 ^ k\<close> bytes, the top two bits of the first holding
  \<open>k\<close>. \<open>varint_exp\<close> is the least exponent that fits.
\<close>

definition varint_tag :: "nat \<Rightarrow> u64 \<Rightarrow> bytes" where
  "varint_tag k x = to_be (2 ^ k) (push_bit (8 * 2 ^ k - 2) (of_nat k) OR x)"

definition varint_exp :: "u64 \<Rightarrow> nat" where
  "varint_exp x = (if x < 2 ^ 6 then 0 else if x < 2 ^ 14 then 1 else if x < 2 ^ 30 then 2 else 3)"

definition varint_bytes :: "u64 \<Rightarrow> bytes" where
  "varint_bytes x = varint_tag (varint_exp x) x"

lemma length_varint_bytes: "length (varint_bytes x) = 2 ^ varint_exp x"
  by (simp add: varint_bytes_def varint_tag_def)

lemma to_be_ucast:
  fixes w :: "'a::len word"
  shows "8 * n \<le> LENGTH('b::len) \<Longrightarrow> to_be n (ucast w :: 'b word) = to_be n w"
proof (induction n)
  case (Suc n)
  have "(ucast (drop_bit (8 * n) (ucast w :: 'b word)) :: u8) = ucast (drop_bit (8 * n) w)"
    using Suc.prems by (auto intro!: bit_word_eqI simp: bit_simps)
  then show ?case using Suc by simp
qed simp

lemma foldl_zeros:
  fixes a :: "'a::len word"
  shows "foldl (\<lambda>a b. push_bit 8 a OR ucast b) a (replicate m (0::u8)) = push_bit (8 * m) a"
  by (induction m arbitrary: a) (auto simp: ac_simps)

lemma from_be_zeros: "from_be (to_be n w @ replicate m 0) = push_bit (8 * m) (take_bit (8 * n) w)"
  by (simp add: from_be_def foldl_to_be foldl_zeros)

lemma small_bit: "(x :: 'a::len word) < 2 ^ n \<Longrightarrow> bit x i \<Longrightarrow> i < n"
proof -
  assume "x < 2 ^ n" and b: "bit x i"
  then have "take_bit n x = x" by (simp add: take_bit_eq_mask less_mask_eq)
  with b show "i < n" by (metis bit_take_bit_iff)
qed

lemma and_3f: "b AND 0x3f = take_bit 6 (b :: u8)"
  by (simp add: take_bit_eq_mask mask_eq_exp_minus_1)

lemma VARINT_MAX_mask: "VARINT_MAX = mask 62"
  by (simp add: VARINT_MAX_def mask_eq_exp_minus_1)

lemma foldl_from_be:
  fixes a :: "'a::len word"
  shows "foldl (\<lambda>a b. push_bit 8 a OR ucast b) a bs = push_bit (8 * length bs) a OR from_be bs"
proof (induction bs rule: rev_induct)
  case (snoc b bs)
  then show ?case by (simp add: from_be_def push_bit_or ac_simps)
qed (simp add: from_be_def)

lemma bit_from_be: "bit (from_be bs :: 'a::len word) n \<Longrightarrow> n < 8 * length bs"
proof (induction bs arbitrary: n rule: rev_induct)
  case (snoc b bs)
  have "from_be (bs @ [b]) = push_bit 8 (from_be bs :: 'a word) OR ucast b" by (simp add: from_be_def)
  with snoc.prems have "8 \<le> n \<and> bit (from_be bs :: 'a word) (n - 8) \<or> bit b n"
    by (auto simp: bit_simps)
  then show ?case using snoc.IH [of "n - 8"] bit_imp_le_length [of b n] by auto
qed (simp add: from_be_def)

lemma varint_head:
  fixes x :: u64
  assumes "k < 4" and p: "2 ^ k = Suc p" and x: "x < 2 ^ (6 + 8 * p)"
  defines "w \<equiv> push_bit (6 + 8 * p) (of_nat k) OR x"
  shows "unat (drop_bit 6 (ucast (drop_bit (8 * p) w) :: u8)) = k"
    and "(ucast (drop_bit (8 * p) w) :: u8) AND 0x3f = ucast (drop_bit (8 * p) x)"
    and "to_be p w = to_be p x"
proof -
  have "k = 0 \<or> k = 1 \<or> k = 2 \<or> k = 3" using assms(1) by auto
  then have "p \<le> 7" using p by auto
  have kb: "bit k n \<Longrightarrow> n < 2" for n
    using assms(1) take_bit_nat_eq_self [of k 2] by (metis bit_take_bit_iff power2_eq_square mult_2 numeral_Bit0)
  note xb = small_bit [OF x]
  have "drop_bit 6 (ucast (drop_bit (8 * p) w) :: u8) = of_nat k"
    using \<open>p \<le> 7\<close> unfolding w_def
    by (intro bit_word_eqI) (auto simp: bit_simps dest: xb kb)
  then show "unat (drop_bit 6 (ucast (drop_bit (8 * p) w) :: u8)) = k"
    using assms(1) by (simp add: unat_of_nat)
  show "(ucast (drop_bit (8 * p) w) :: u8) AND 0x3f = ucast (drop_bit (8 * p) x)"
    unfolding w_def and_3f by (intro bit_word_eqI) (auto simp: bit_simps dest: xb)
  have "take_bit (8 * p) w = take_bit (8 * p) x"
    unfolding w_def by (intro bit_word_eqI) (auto simp: bit_simps)
  then show "to_be p w = to_be p x" by (metis to_be_take_bit order_refl)
qed

lemma varint_exp_bound:
  assumes "x \<le> VARINT_MAX"
  shows "varint_exp x < 4" "x < 2 ^ (8 * 2 ^ varint_exp x - 2)"
  using assms by (auto simp: varint_exp_def VARINT_MAX_def word_le_nat_alt word_less_nat_alt)

lemma to_be_or_ucast:
  fixes t x :: "'a::len word"
  assumes "8 * n \<le> LENGTH('b::len)"
  shows "to_be n (ucast t OR ucast x :: 'b word) = to_be n (t OR x)"
proof -
  have "(ucast t OR ucast x :: 'b word) = ucast (t OR x)"
    by (intro bit_word_eqI) (auto simp: bit_simps)
  then show ?thesis using assms by (simp add: to_be_ucast)
qed

context codec_laws
begin

lemma be_varint_tag:
  assumes "k < 4" and x: "x < 2 ^ (8 * 2 ^ k - 2)"
  shows "be_varint C (varint_tag k x @ r) = Inr (r, VarInt x)"
proof -
  obtain p where p: "2 ^ k = Suc p" by (metis not0_implies_Suc power_not_zero zero_neq_numeral)
  have "k = 0 \<or> k = 1 \<or> k = 2 \<or> k = 3" using assms(1) by auto
  then have p7: "p \<le> 7" using p by auto
  have "8 * Suc p - 2 = 6 + 8 * p" by simp
  with x p have x': "x < 2 ^ (6 + 8 * p)" by metis
  note h = varint_head [OF assms(1) p x']
  let ?w = "push_bit (6 + 8 * p) (of_nat k) OR x"
  have tag: "varint_tag k x = ucast (drop_bit (8 * p) ?w) # to_be p x"
    unfolding varint_tag_def p to_be.simps using h(3) by simp
  have "from_be (to_be (Suc p) x @ replicate (7 - p) 0) = push_bit (8 * (7 - p)) (take_bit (8 * Suc p) x)"
    by (rule from_be_zeros)
  moreover have "drop_bit (8 * (7 - p)) (push_bit (8 * (7 - p)) (take_bit (8 * Suc p) x)) = x"
    using p7 small_bit [OF x'] by (intro bit_word_eqI) (auto simp: bit_simps, fastforce+)
  ultimately have "drop_bit (8 * (7 - p)) (from_be (ucast (drop_bit (8 * p) x) # to_be p x @ replicate (7 - p) 0)) = x"
    by simp
  then show ?thesis
    unfolding tag be_varint_def append_Cons be_u8_enough andthen.simps Let_def h(1) h(2) p
    by simp
qed

lemma put_varint_bytes:
  assumes "x \<le> VARINT_MAX"
  shows "put_varint C buf (VarInt x) = Some (buf @ varint_bytes x)"
proof -
  note t2 = to_be_or_ucast [of 2 "0x4000 :: u64" x, where 'b = 16]
    and t4 = to_be_or_ucast [of 4 "0x80000000 :: u64" x, where 'b = 32]
  have "x < 0x4000000000000000"
    using assms by (simp add: word_le_nat_alt word_less_nat_alt VARINT_MAX_def)
  then show ?thesis
    using t2 t4
    by (auto simp: put_laws varint_bytes_def varint_tag_def varint_exp_def simp del: to_be_numeral)
qed

lemma be_varint_bytes: "x \<le> VARINT_MAX \<Longrightarrow> be_varint C (varint_bytes x @ r) = Inr (r, VarInt x)"
  unfolding varint_bytes_def by (rule be_varint_tag) (auto intro: varint_exp_bound)

lemma be_varint_shape:
  assumes "be_varint C i = Inr (r, v)"
  shows "\<exists>k < 4. \<exists>h. i = h @ r \<and> length h = 2 ^ k" "into_inner v \<le> VARINT_MAX"
proof -
  from assms obtain b t where i: "i = b # t"
    and dec: "(let len = 2 ^ unat (drop_bit 6 b) in
       if length t + 1 < len then Inl (Incomplete (len - (length t + 1)))
       else let buf = (b AND 0x3f) # take (len - 1) t @ replicate (8 - len) 0;
                v = drop_bit (8 * (8 - len)) (from_be buf :: u64)
            in Inr (drop (len - 1) t, VarInt v)) = Inr (r, v)"
    by (auto simp: be_varint_def andthen_eq_Inr be_u8_iff)
  define k where "k = unat (drop_bit 6 b)"
  have "unat b < 2 ^ LENGTH(8)" by (rule unsigned_less)
  then have "k < 4" unfolding k_def by (simp add: drop_bit_eq_div unat_div)
  obtain p where p: "2 ^ k = Suc p" by (metis not0_implies_Suc power_not_zero zero_neq_numeral)
  have "k = 0 \<or> k = 1 \<or> k = 2 \<or> k = 3" using \<open>k < 4\<close> by auto
  then have p7: "p \<le> 7" using p by auto
  from dec have len: "p \<le> length t" and r: "r = drop p t"
    and v: "v = VarInt (drop_bit (8 * (7 - p)) (from_be ((b AND 0x3f) # take p t @ replicate (7 - p) 0)))"
    by (auto simp: k_def [symmetric] p Let_def split: if_splits)
  have "i = (b # take p t) @ r \<and> length (b # take p t) = 2 ^ k"
    using i r len p by simp
  with \<open>k < 4\<close> show "\<exists>k < 4. \<exists>h. i = h @ r \<and> length h = 2 ^ k" by blast
  let ?bs = "take p t @ replicate (7 - p) 0" and ?b = "take_bit 6 b"
  have "length ?bs = 7" using len p7 by simp
  then have f: "(from_be (?b # ?bs) :: u64) = push_bit 56 (ucast ?b) OR from_be ?bs"
    using foldl_from_be [of "ucast ?b :: u64" ?bs] by (simp add: from_be_def)
  have "m < 62" if "bit (from_be (?b # ?bs) :: u64) m" for m
    using that bit_from_be [of ?bs m, where 'a = 64] \<open>length ?bs = 7\<close>
    unfolding f by (auto simp: bit_simps)
  then have "take_bit 62 (into_inner v) = into_inner v"
    unfolding v and_3f into_inner.simps by (intro bit_word_eqI) (auto simp: bit_simps, fastforce)
  then show "into_inner v \<le> VARINT_MAX"
    by (metis VARINT_MAX_mask take_bit_eq_mask word_and_le1)
qed

end

sublocale codec_laws \<subseteq> vi: wire_format "\<lambda>v. varint_bytes (into_inner v)" "be_varint C"
  "\<lambda>v. into_inner v \<le> VARINT_MAX"
  by unfold_locales (metis VarInt.exhaust be_varint_bytes into_inner.simps)

section \<open>Properties\<close>

lemma from_u64_Inr: "from_u64 v = Inr x \<longleftrightarrow> x = VarInt v \<and> v \<le> VARINT_MAX"
  by (auto simp: from_u64_def)

lemma encoding_size_varint_bytes:
  "x \<le> VARINT_MAX \<Longrightarrow> encoding_size (VarInt x) = Some (length (varint_bytes x))"
  by (auto simp: length_varint_bytes varint_exp_def VARINT_MAX_def word_le_nat_alt word_less_nat_alt)

text \<open>Every conversion gives an integer in range with the value it was made from, and those that can fail do so
  exactly from \<open>2 ^ 62\<close> on.\<close>

lemma varint_conversions:
  "into_inner (varint_of_u8 a) = ucast a \<and> into_inner (varint_of_u8 a) \<le> VARINT_MAX"
  "into_inner (varint_of_u16 b) = ucast b \<and> into_inner (varint_of_u16 b) \<le> VARINT_MAX"
  "into_inner (varint_of_u32 c) = ucast c \<and> into_inner (varint_of_u32 c) \<le> VARINT_MAX"
  "varint_try_from_usize x = Inr v \<longleftrightarrow> unat x < 2 ^ 62 \<and> varint_eq_u64 v x"
  "varint_try_from_u128 y = Inr v \<longleftrightarrow> unat y < 2 ^ 62 \<and> unat (varint_into_u64 v) = unat y"
  "varint_from_u64 x = Inr (r, v) \<longleftrightarrow> r = [] \<and> varint_try_from_u64 x = Inr v"
proof -
  have max: "w \<le> VARINT_MAX \<longleftrightarrow> unat w < 2 ^ 62" for w :: u64
    by (simp add: word_le_nat_alt VARINT_MAX_def less_eq_Suc_le [symmetric] less_Suc_eq_le [symmetric])
  have up: "unat (ucast w :: u64) = unat w" if "LENGTH('a) \<le> 64" for w :: "'a::len word"
  proof -
    have "unat w < 2 ^ LENGTH('a)" by (rule unsigned_less)
    also have "(2 :: nat) ^ LENGTH('a) \<le> 2 ^ 64" using that by (intro power_increasing) simp_all
    finally show ?thesis by (simp add: unsigned_ucast_eq take_bit_nat_eq_self_iff)
  qed
  show "into_inner (varint_of_u8 a) = ucast a \<and> into_inner (varint_of_u8 a) \<le> VARINT_MAX"
    using unsigned_less [of a, where 'a = nat] by (simp add: varint_of_u8_def max up)
  show "into_inner (varint_of_u16 b) = ucast b \<and> into_inner (varint_of_u16 b) \<le> VARINT_MAX"
    using unsigned_less [of b, where 'a = nat] by (simp add: varint_of_u16_def max up)
  show "into_inner (varint_of_u32 c) = ucast c \<and> into_inner (varint_of_u32 c) \<le> VARINT_MAX"
    using unsigned_less [of c, where 'a = nat] by (simp add: varint_of_u32_def max up)
  show "varint_try_from_usize x = Inr v \<longleftrightarrow> unat x < 2 ^ 62 \<and> varint_eq_u64 v x"
    by (cases v) (auto simp: varint_try_from_usize_def varint_try_from_u64_def from_u64_Inr varint_eq_u64_def max)
  have down: "unat (ucast y :: u64) = unat y" if "unat y < 2 ^ 62"
    using that by (simp add: unsigned_ucast_eq take_bit_nat_eq_self_iff)
  show "varint_try_from_u128 y = Inr v \<longleftrightarrow> unat y < 2 ^ 62 \<and> unat (varint_into_u64 v) = unat y"
    using down by (cases v) (auto simp: varint_try_from_u128_def from_u128_def varint_into_u64_def VARINT_MAX_def word_le_nat_alt word_unat_eq_iff)
  show "varint_from_u64 x = Inr (r, v) \<longleftrightarrow> r = [] \<and> varint_try_from_u64 x = Inr v"
    by (auto simp: varint_from_u64_def varint_try_from_u64_def split: sum.splits)
qed

text \<open>Every integer that \<open>from_u64\<close> accepts is written without panicking, in exactly
  \<open>encoding_size\<close> bytes, and reading those bytes back gives the integer and leaves whatever
  follows them.\<close>

theorem varint_roundtrip:
  assumes "codec_laws C" and "from_u64 v = Inr x"
  shows "\<exists>enc. put_varint C buf x = Some (buf @ enc) \<and> encoding_size x = Some (length enc) \<and>
    (\<forall>r. be_varint C (enc @ r) = Inr (r, x))"
proof -
  from assms(2) have "x = VarInt v" and v: "v \<le> VARINT_MAX" by (auto simp: from_u64_Inr)
  then show ?thesis
    using codec_laws.put_varint_bytes [OF assms(1) v] codec_laws.be_varint_bytes [OF assms(1) v]
      encoding_size_varint_bytes [OF v] by blast
qed

theorem varint_roundtrip_witness:
  "from_u64 16384 = Inr (VarInt 16384) \<and>
   (\<exists>enc. put_varint ref_codec [] (VarInt 16384) = Some ([] @ enc) \<and>
     encoding_size (VarInt 16384) = Some (length enc) \<and>
     (\<forall>r. be_varint ref_codec (enc @ r) = Inr (r, VarInt 16384)))"
proof
  show a: "from_u64 16384 = Inr (VarInt 16384)" by (simp add: from_u64_def VARINT_MAX_def)
  show "\<exists>enc. put_varint ref_codec [] (VarInt 16384) = Some ([] @ enc) \<and>
     encoding_size (VarInt 16384) = Some (length enc) \<and>
     (\<forall>r. be_varint ref_codec (enc @ r) = Inr (r, VarInt 16384))"
    by (rule varint_roundtrip [OF refc.codec_laws_axioms a])
qed

text \<open>Whatever bytes come in, an integer that \<open>be_varint\<close> returns is below \<open>2 ^ 62\<close> (so a
  later \<open>put_varint\<close> or \<open>encoding_size\<close> of it cannot panic) and it consumed 1, 2, 4 or 8 bytes.\<close>

theorem be_varint_range:
  assumes "codec_laws C" and "be_varint C i = Inr (r, x)"
  shows "into_inner x \<le> VARINT_MAX \<and> put_varint C buf x \<noteq> None \<and> encoding_size x \<noteq> None \<and>
    (\<exists>h. i = h @ r \<and> length h \<in> {1, 2, 4, 8})"
proof -
  have le: "into_inner x \<le> VARINT_MAX" by (rule codec_laws.be_varint_shape(2) [OF assms])
  moreover from le have "put_varint C buf x \<noteq> None" "encoding_size x \<noteq> None"
    using codec_laws.put_varint_bytes [OF assms(1)] encoding_size_varint_bytes
    by (cases x; simp del: put_varint.simps encoding_size.simps)+
  moreover obtain k h where "k < 4" "i = h @ r" "length h = 2 ^ k"
    using codec_laws.be_varint_shape(1) [OF assms] by blast
  moreover have "k = 0 \<or> k = 1 \<or> k = 2 \<or> k = 3" using \<open>k < 4\<close> by auto
  ultimately show ?thesis by auto
qed

theorem be_varint_range_witness:
  "be_varint ref_codec [0x40, 0x40, 9] = Inr ([9], VarInt 64) \<and>
   into_inner (VarInt 64) \<le> VARINT_MAX \<and> put_varint ref_codec [] (VarInt 64) \<noteq> None \<and>
   encoding_size (VarInt 64) \<noteq> None \<and>
   (\<exists>h. [0x40, 0x40, 9 :: u8] = h @ [9] \<and> length h \<in> {1, 2, 4, 8})"
proof
  show a: "be_varint ref_codec [0x40, 0x40, 9] = Inr ([9], VarInt 64)"
    by (simp add: be_varint_def ref_codec_simps foldl_zeros [of _ 6, simplified])
  show "into_inner (VarInt 64) \<le> VARINT_MAX \<and> put_varint ref_codec [] (VarInt 64) \<noteq> None \<and>
   encoding_size (VarInt 64) \<noteq> None \<and>
   (\<exists>h. [0x40, 0x40, 9 :: u8] = h @ [9] \<and> length h \<in> {1, 2, 4, 8})"
    by (rule be_varint_range [OF refc.codec_laws_axioms a])
qed

end
