(* ===== verification/Names.thy ===== *)
theory Names
  imports Varint
begin

text \<open>
  Domain names on the wire (\<^verbatim>\<open>src/core/parser/name.rs\<close>): the writer \<open>put_name\<close> with the
  compression context of RFC 1035 4.1.4 and the reader \<open>be_name\<close>, which follows compression
  pointers and rejects loops. The reader's loop and its recursion into pointers are one
  function with fuel; \<open>be_name\<close> chooses the fuel from the input and \<open>be_name_labels_enough\<close>
  shows that it is never used up. \<open>wire_name\<close> says declaratively that a name stands at an
  offset of a message; the writer establishes it and the reader inverts it.
\<close>

type_synonym name = rstr

record NameCompression =
  suffix_offsets :: "rstr \<rightharpoonup> u16"

definition NameCompression_new :: NameCompression where
  "NameCompression_new = \<lparr>suffix_offsets = Map.empty\<rparr>"

definition get_suffix_offset :: "NameCompression \<Rightarrow> rstr \<Rightarrow> u16 option" where
  "get_suffix_offset ctx suffix = suffix_offsets ctx suffix"

definition remember_suffix :: "NameCompression \<Rightarrow> rstr \<Rightarrow> u16 \<Rightarrow> NameCompression" where
  "remember_suffix ctx suffix offset =
     (case suffix_offsets ctx suffix of
        Some _ \<Rightarrow> ctx
      | None \<Rightarrow> ctx\<lparr>suffix_offsets := (suffix_offsets ctx)(suffix \<mapsto> offset)\<rparr>)"

section \<open>Writing\<close>

text \<open>The labels of a name: one trailing dot is dropped, empty labels are skipped.\<close>

definition name_labels :: "name \<Rightarrow> rstr list" where
  "name_labels name =
     (if name = [dot] then []
      else let trimmed = (case strip_suffix [dot] name of Some t \<Rightarrow> t | None \<Rightarrow> name)
           in if trimmed = [] then [] else filter (\<lambda>part. part \<noteq> []) (split_on dot trimmed))"

text \<open>The loop that builds the suffixes, over the labels from the last to the first.\<close>

fun build_suffixes :: "rstr \<Rightarrow> rstr list \<Rightarrow> rstr list" where
  "build_suffixes current [] = []"
| "build_suffixes current (label # labels) =
     (let current = (if current = [] then label else label @ [dot] @ current)
      in current # build_suffixes current labels)"

fun put_labels :: "codec \<Rightarrow> bytes \<Rightarrow> NameCompression \<Rightarrow> (rstr \<times> rstr) list \<Rightarrow> bytes \<times> NameCompression" where
  "put_labels C buf ctx [] = (buf_put_u8 C buf 0, ctx)"
| "put_labels C buf ctx ((suffix, label) # rest) =
     (case get_suffix_offset ctx suffix of
        Some offset \<Rightarrow> (buf_put_u16 C buf (0xC000 OR (offset AND 0x3FFF)), ctx)
      | None \<Rightarrow>
          let ctx = (if length buf \<le> 0x3FFF then remember_suffix ctx suffix (of_nat (length buf)) else ctx);
              buf = buf_put_u8 C buf (of_nat (length label));
              buf = buf_put_slice C buf label
          in put_labels C buf ctx rest)"

definition put_name :: "codec \<Rightarrow> bytes \<Rightarrow> name \<Rightarrow> NameCompression \<Rightarrow> bytes \<times> NameCompression" where
  "put_name C buf name ctx =
     (let labels = name_labels name in
      if labels = [] then (buf_put_u8 C buf 0, ctx)
      else let suffixes = rev (build_suffixes [] (rev labels))
           in put_labels C buf ctx (zip suffixes labels))"

section \<open>Reading\<close>

fun be_name_labels ::
  "codec \<Rightarrow> nat \<Rightarrow> bytes \<Rightarrow> bytes \<Rightarrow> nat list \<Rightarrow> rstr list \<Rightarrow> rstr list ires" where
  "be_name_labels C 0 input origin visited labels = Inl OutOfFuel"
| "be_name_labels C (Suc n) input origin visited labels =
     andthen (nom_be_u8 C input) (\<lambda>remain len.
       if len = 0 then Inr (remain, labels)
       else if len AND 0xC0 = 0xC0 then
         andthen (nom_be_u8 C remain) (\<lambda>remain offset_byte.
           let offset = unat (push_bit 8 (ucast (len AND 0x3F)) OR ucast offset_byte :: u16) in
           if length origin \<le> offset \<or> offset \<in> set visited then Inl (NomError input Verify)
           else andthen (be_name_labels C n (drop offset origin) origin (visited @ [offset]) [])
             (\<lambda>_ suffix. Inr (remain, labels @ suffix)))
       else if 63 < len then Inl (NomError input Verify)
       else andthen (nom_take C (unat len) remain) (\<lambda>remain label_bytes.
         be_name_labels C n remain origin visited (labels @ [from_utf8_lossy label_bytes])))"

definition name_fuel :: "bytes \<Rightarrow> bytes \<Rightarrow> nat" where
  "name_fuel input origin = length origin * Suc (length origin) + Suc (length input)"

definition be_name_inner :: "codec \<Rightarrow> bytes \<Rightarrow> bytes \<Rightarrow> nat list \<Rightarrow> name ires" where
  "be_name_inner C input origin visited =
     andthen (be_name_labels C (name_fuel input origin) input origin visited []) (\<lambda>remain labels.
       if labels = [] then Inr (remain, [dot]) else Inr (remain, join_with [dot] labels))"

definition be_name :: "codec \<Rightarrow> bytes \<Rightarrow> bytes \<Rightarrow> name ires" where
  "be_name C input origin = be_name_inner C input origin []"

section \<open>The fuel is enough\<close>

lemma andthen_stable:
  "(\<And>r v. p = Inr (r, v) \<Longrightarrow> f r v = Inl OutOfFuel \<or> g r v = f r v) \<Longrightarrow>
   andthen p f = Inl OutOfFuel \<or> andthen p g = andthen p f"
  by (cases p) auto

lemma if_stable:
  "(b \<Longrightarrow> x = q \<or> x' = x) \<Longrightarrow> (\<not> b \<Longrightarrow> y = q \<or> y' = y) \<Longrightarrow>
   (if b then x else y) = q \<or> (if b then x' else y') = (if b then x else y)"
  by simp

definition unvisited :: "bytes \<Rightarrow> nat list \<Rightarrow> nat" where
  "unvisited origin visited = card ({..<length origin} - set visited)"

lemma unvisited_push:
  assumes "off < length origin" "off \<notin> set visited"
  shows "Suc (unvisited origin (visited @ [off])) = unvisited origin visited"
proof -
  have "{..<length origin} - set (visited @ [off]) = ({..<length origin} - set visited) - {off}"
    by auto
  moreover have "Suc (card (({..<length origin} - set visited) - {off})) = card ({..<length origin} - set visited)"
    by (rule card_Suc_Diff1) (use assms in auto)
  ultimately show ?thesis by (simp only: unvisited_def)
qed

context codec_laws
begin

lemma be_name_labels_enough:
  "unvisited origin visited * Suc (length origin) + Suc (length input) \<le> n \<Longrightarrow>
   be_name_labels C n input origin visited labels \<noteq> Inl OutOfFuel"
proof (induction n arbitrary: input visited labels)
  case (Suc n)
  have rec: "be_name_labels C n remain origin visited ls \<noteq> Inl OutOfFuel"
    if "length remain < length input" for remain ls
    using Suc.IH [of visited remain ls] Suc.prems that by simp
  have jump: "be_name_labels C n (drop off origin) origin (visited @ [off]) [] \<noteq> Inl OutOfFuel"
    if "off < length origin" "off \<notin> set visited" "0 < length input" for off
  proof (rule Suc.IH)
    let ?u = "unvisited origin (visited @ [off])"
    have "unvisited origin visited = Suc ?u" using unvisited_push [OF that(1,2)] by simp
    with Suc.prems that(3) show "?u * Suc (length origin) + Suc (length (drop off origin)) \<le> n"
      by simp
  qed
  show ?case
    using rec jump
    by (auto simp: andthen_eq_Inl read_iffs Let_def not_le dest!: be_u8_err take_err split: if_splits)
qed simp

lemma be_name_labels_mono:
  "be_name_labels C n input origin visited labels = r \<Longrightarrow> r \<noteq> Inl OutOfFuel \<Longrightarrow> n \<le> m \<Longrightarrow>
   be_name_labels C m input origin visited labels = r"
proof (induction n arbitrary: m input visited labels r)
  case (Suc n)
  obtain k where m: "m = Suc k" "n \<le> k" using Suc.prems(3) by (cases m) auto
  have IH: "be_name_labels C n i origin v l = Inl OutOfFuel \<or>
      be_name_labels C k i origin v l = be_name_labels C n i origin v l" for i v l
    using Suc.IH [OF refl _ m(2)] by blast
  have jump: "andthen (be_name_labels C n i origin v l) f = Inl OutOfFuel \<or>
      andthen (be_name_labels C k i origin v l) f = andthen (be_name_labels C n i origin v l) f"
    for i v l and f :: "bytes \<Rightarrow> rstr list \<Rightarrow> nom_err + bytes \<times> rstr list"
    using IH [of i v l] by auto
  have "be_name_labels C (Suc n) input origin visited labels = Inl OutOfFuel \<or>
      be_name_labels C (Suc k) input origin visited labels = be_name_labels C (Suc n) input origin visited labels"
    unfolding be_name_labels.simps Let_def
    by (intro andthen_stable if_stable disjI2 refl jump IH)
  with Suc.prems m show ?case by blast
qed simp

lemma be_name_labels_fuel:
  assumes "be_name_labels C n input origin [] labels = Inr y"
  shows "be_name_labels C (name_fuel input origin) input origin [] labels = Inr y"
proof -
  let ?f = "name_fuel input origin"
  have "unvisited origin [] = length origin" by (simp add: unvisited_def)
  then have "be_name_labels C ?f input origin [] labels \<noteq> Inl OutOfFuel"
    by (intro be_name_labels_enough) (simp add: name_fuel_def)
  then have "be_name_labels C (max n ?f) input origin [] labels = be_name_labels C ?f input origin [] labels"
    by (intro be_name_labels_mono [OF refl]) simp_all
  moreover have "be_name_labels C (max n ?f) input origin [] labels = Inr y"
    by (intro be_name_labels_mono [OF assms]) simp_all
  ultimately show ?thesis by simp
qed

end

section \<open>A name in a message\<close>

text \<open>
  \<open>wire_name m s h ls\<close>: the bytes \<open>h\<close> encode the labels \<open>ls\<close>, where a compression pointer leads
  to an offset of the message \<open>m\<close> before \<open>s\<close> at which the rest of the labels is encoded in
  the same way, with pointers leading strictly further back.
\<close>

definition label_ok :: "rstr \<Rightarrow> bool" where
  "label_ok l \<longleftrightarrow> l \<noteq> [] \<and> length l \<le> 63 \<and> dot \<notin> set l \<and> valid_utf8 l"

inductive wire_name :: "bytes \<Rightarrow> nat \<Rightarrow> bytes \<Rightarrow> rstr list \<Rightarrow> bool" for m :: bytes where
  wire_root: "wire_name m s [0] []"
| wire_label: "label_ok l \<Longrightarrow> wire_name m s h ls \<Longrightarrow> wire_name m s (of_nat (length l) # l @ h) (l # ls)"
| wire_ptr: "unat w < s \<Longrightarrow> unat w < 0x4000 \<Longrightarrow> drop (unat w) m = h @ t \<Longrightarrow>
    wire_name m (unat w) h ls \<Longrightarrow> wire_name m s (to_be 2 (0xC000 OR w :: u16)) ls"

lemma wire_name_not_Nil: "wire_name m s h ls \<Longrightarrow> h \<noteq> []"
  by (induction rule: wire_name.induct) auto

lemma wire_name_labels: "wire_name m s h ls \<Longrightarrow> list_all label_ok ls"
  by (induction rule: wire_name.induct) auto

lemma wire_name_append: "wire_name m s h ls \<Longrightarrow> wire_name (m @ u) s h ls"
proof (induction rule: wire_name.induct)
  case (wire_ptr w s h t ls)
  have "unat w < length m"
    using wire_ptr.hyps(3) wire_name_not_Nil [OF wire_ptr.hyps(4)] by (metis append_is_Nil_conv drop_all not_le)
  then have "drop (unat w) (m @ u) = h @ (t @ u)" using wire_ptr.hyps(3) by simp
  with wire_ptr show ?case by (blast intro: wire_name.wire_ptr)
qed (auto intro: wire_name.intros)

lemma wire_name_segment: "wire_name m s h ls \<Longrightarrow> s \<le> s' \<Longrightarrow> wire_name m s' h ls"
proof (induction rule: wire_name.induct)
  case (wire_ptr w s h t ls)
  then have "unat w < s'" by simp
  with wire_ptr.hyps show ?case by (blast intro: wire_name.wire_ptr)
qed (auto intro: wire_name.intros)

text \<open>The two bytes of a pointer, as the reader takes them apart.\<close>

lemma bit_3: "bit (3 :: 'a::len word) n \<longleftrightarrow> n < 2 \<and> n < LENGTH('a)"
  using bit_mask_iff [of 2 n, where 'a = "'a word"] by (auto simp: mask_eq_exp_minus_1)

lemma pointer_split:
  assumes "unat w < 0x4000"
  shows "(ucast (drop_bit 8 (0xC000 OR w :: u16)) :: u8) = 0xC0 OR ucast (drop_bit 8 w)"
    and "(ucast (0xC000 OR w :: u16) :: u8) = ucast w"
  and "(0xC0 OR ucast (drop_bit 8 w) :: u8) AND 0xC0 = 0xC0"
    and "push_bit 8 (ucast ((0xC0 OR ucast (drop_bit 8 w) :: u8) AND 0x3F)) OR ucast (ucast w :: u8) = w"
proof -
  have C000: "(0xC000 :: u16) = push_bit 14 3" and C0: "(0xC0 :: u8) = push_bit 6 3" by simp_all
  have w: "w < 2 ^ 14" using assms by (simp add: word_less_nat_alt)
  note wb = small_bit [OF w]
  show "(ucast (drop_bit 8 (0xC000 OR w :: u16)) :: u8) = 0xC0 OR ucast (drop_bit 8 w)"
    by (intro bit_word_eqI) (simp only: C000 C0 bit_simps comp_def bit_3, auto)
  show "(ucast (0xC000 OR w :: u16) :: u8) = ucast w"
    by (intro bit_word_eqI) (simp only: C000 bit_simps comp_def bit_3, auto)
  show "(0xC0 OR ucast (drop_bit 8 w) :: u8) AND 0xC0 = 0xC0"
    by (intro bit_word_eqI) (simp only: C0 bit_simps comp_def bit_3, auto)
  have "bit (push_bit 8 (ucast (take_bit 6 (0xC0 OR ucast (drop_bit 8 w) :: u8))) OR ucast (ucast w :: u8) :: u16) n = bit w n"
    if "n < 16" for n
  proof (cases "n < 8")
    case True
    then show ?thesis using that by (simp add: bit_simps)
  next
    case False
    then have "n < 14 \<or> \<not> bit w n" using wb by blast
    then show ?thesis using False that unfolding C0 by (auto simp: bit_simps bit_3)
  qed
  then show "push_bit 8 (ucast ((0xC0 OR ucast (drop_bit 8 w) :: u8) AND 0x3F)) OR ucast (ucast w :: u8) = w"
    unfolding and_3f by (intro bit_word_eqI) simp
qed

lemma pointer_not_root:
  assumes "x AND 0xC0 = (0xC0 :: u8)"
  shows "x \<noteq> 0"
  using assms by auto

lemma pointer_bytes:
  assumes "unat w < 0x4000"
  shows "to_be 2 (0xC000 OR w :: u16) = [0xC0 OR ucast (drop_bit 8 w), ucast w]"
proof -
  have "to_be 2 v = [ucast (drop_bit 8 v), ucast v]" for v :: u16 by simp
  then show ?thesis by (simp only: pointer_split [OF assms])
qed

lemma short_label_byte:
  assumes "label_ok l"
  shows "unat (of_nat (length l) :: u8) = length l" "(of_nat (length l) :: u8) \<noteq> 0"
    "(of_nat (length l) :: u8) AND 0xC0 \<noteq> 0xC0" "\<not> 63 < (of_nat (length l) :: u8)"
proof -
  have l: "length l \<le> 63" "length l \<noteq> 0" using assms by (auto simp: label_ok_def)
  then show u: "unat (of_nat (length l) :: u8) = length l" by (simp add: unat_of_nat)
  with l show "(of_nat (length l) :: u8) \<noteq> 0" by (metis unat_0)
  from u l have le: "(of_nat (length l) :: u8) \<le> 63" by (simp add: word_le_nat_alt)
  then show "\<not> 63 < (of_nat (length l) :: u8)" by simp
  have "(of_nat (length l) :: u8) AND 0xC0 \<le> of_nat (length l)" by (rule word_and_le2)
  with le show "(of_nat (length l) :: u8) AND 0xC0 \<noteq> 0xC0" by (auto dest: order_trans)
qed

context codec_laws
begin

lemma be_name_labels_wire:
  "wire_name m s h ls \<Longrightarrow> \<forall>v \<in> set vis. s \<le> v \<Longrightarrow>
   \<exists>n. be_name_labels C n (h @ rest) m vis acc = Inr (rest, acc @ ls)"
proof (induction arbitrary: vis acc rest rule: wire_name.induct)
  case (wire_root s)
  have "be_name_labels C (Suc 0) ([0] @ rest) m vis acc = Inr (rest, acc @ [])"
    by (simp add: be_u8_enough)
  then show ?case by blast
next
  case (wire_label l s h ls)
  obtain n where n: "be_name_labels C n (h @ rest) m vis (acc @ [l]) = Inr (rest, (acc @ [l]) @ ls)"
    using wire_label.IH [OF wire_label.prems] by blast
  have "from_utf8_lossy l = l" using wire_label.hyps(1) by (simp add: label_ok_def from_utf8_lossy_valid)
  then have "be_name_labels C (Suc n) ((of_nat (length l) # l @ h) @ rest) m vis acc = Inr (rest, acc @ l # ls)"
    using short_label_byte [OF wire_label.hyps(1)] n by (simp add: be_u8_enough read_take)
  then show ?case by blast
next
  case (wire_ptr w s h t ls)
  have "unat w < length m"
    using wire_ptr.hyps(3) wire_name_not_Nil [OF wire_ptr.hyps(4)] by (metis append_is_Nil_conv drop_all not_le)
  moreover have "unat w \<notin> set vis" using wire_ptr.prems wire_ptr.hyps(1) by auto
  moreover have "\<forall>v \<in> set (vis @ [unat w]). unat w \<le> v" using wire_ptr.prems wire_ptr.hyps(1) by fastforce
  then obtain n where "be_name_labels C n (h @ t) m (vis @ [unat w]) [] = Inr (t, [] @ ls)"
    using wire_ptr.IH by blast
  ultimately have "be_name_labels C (Suc n) (to_be 2 (0xC000 OR w :: u16) @ rest) m vis acc = Inr (rest, acc @ ls)"
    using pointer_split(3,4) [OF wire_ptr.hyps(2)] wire_ptr.hyps(3)
      pointer_not_root [OF pointer_split(3) [OF wire_ptr.hyps(2)]]
    unfolding pointer_bytes [OF wire_ptr.hyps(2)]
    by (simp add: be_u8_enough Let_def del: to_be_numeral)
  then show ?case by blast
qed

lemma be_name_wire:
  assumes "wire_name m s h ls"
  shows "be_name C (h @ rest) m = Inr (rest, if ls = [] then [dot] else join_with [dot] ls)"
proof -
  obtain n where "be_name_labels C n (h @ rest) m [] [] = Inr (rest, [] @ ls)"
    using be_name_labels_wire [OF assms] by (metis empty_iff empty_set)
  from be_name_labels_fuel [OF this] show ?thesis by (simp add: be_name_def be_name_inner_def)
qed

end

section \<open>What the writer establishes\<close>

fun suffixes_of :: "rstr list \<Rightarrow> rstr list" where
  "suffixes_of [] = []"
| "suffixes_of (l # ls) = join_with [dot] (l # ls) # suffixes_of ls"

lemma join_with_Nil: "[] \<notin> set ls \<Longrightarrow> join_with sep ls = [] \<longleftrightarrow> ls = []"
  by (induction sep ls rule: join_with.induct) auto

lemma build_suffixes_join:
  "[] \<notin> set (ks @ ls) \<Longrightarrow>
   rev (build_suffixes (join_with [dot] ls) (rev ks)) @ suffixes_of ls = suffixes_of (ks @ ls)"
proof (induction ks arbitrary: ls rule: rev_induct)
  case (snoc k ks)
  have "(if join_with [dot] ls = [] then k else k @ [dot] @ join_with [dot] ls) = join_with [dot] (k # ls)"
    using snoc.prems by (cases ls) (auto simp: join_with_Nil)
  then show ?case using snoc.IH [of "k # ls"] snoc.prems by (simp add: Let_def)
qed simp

lemma put_name_suffixes:
  "[] \<notin> set ls \<Longrightarrow> rev (build_suffixes [] (rev ls)) = suffixes_of ls"
  using build_suffixes_join [of ls "[]"] by simp

lemma join_shorter: "l \<noteq> [] \<Longrightarrow> length (join_with [dot] ls) < length (join_with [dot] (l # ls))"
  by (cases ls) auto

lemma join_inj:
  assumes "ls \<noteq> []" "ks \<noteq> []" "list_all label_ok ls" "list_all label_ok ks"
    and eq: "join_with [dot] ls = join_with [dot] ks"
  shows "ls = ks"
proof -
  have "ls = split_on dot (join_with [dot] ls)"
    using split_join [OF assms(1), of dot] assms(3) by (simp add: list_all_iff label_ok_def)
  also have "\<dots> = ks" unfolding eq
    using split_join [OF assms(2), of dot] assms(4) by (simp add: list_all_iff label_ok_def)
  finally show ?thesis .
qed

text \<open>
  An entry of the compression context is sound when its offset is that of a name that reads
  as the entry's suffix.
\<close>

definition entry_ok :: "bytes \<Rightarrow> rstr \<Rightarrow> u16 \<Rightarrow> bool" where
  "entry_ok buf t off \<longleftrightarrow> unat off < 0x4000 \<and>
     (\<exists>ls h r. ls \<noteq> [] \<and> t = join_with [dot] ls \<and> drop (unat off) buf = h @ r \<and> wire_name buf (unat off) h ls)"

definition ctx_ok :: "bytes \<Rightarrow> NameCompression \<Rightarrow> bool" where
  "ctx_ok buf ctx \<longleftrightarrow> (\<forall>t off. suffix_offsets ctx t = Some off \<longrightarrow> entry_ok buf t off)"


lemma entry_okI:
  "unat off < 0x4000 \<Longrightarrow> ls \<noteq> [] \<Longrightarrow> t = join_with [dot] ls \<Longrightarrow> drop (unat off) buf = h @ r \<Longrightarrow>
   wire_name buf (unat off) h ls \<Longrightarrow> entry_ok buf t off"
  unfolding entry_ok_def by blast

lemma entry_ok_append: "entry_ok buf t off \<Longrightarrow> entry_ok (buf @ u) t off"
proof -
  assume "entry_ok buf t off"
  then obtain ls h r where e: "unat off < 0x4000" "ls \<noteq> []" "t = join_with [dot] ls"
    "drop (unat off) buf = h @ r" "wire_name buf (unat off) h ls"
    unfolding entry_ok_def by blast
  then have "unat off < length buf"
    by (metis append_is_Nil_conv drop_all not_le wire_name_not_Nil)
  with e have "drop (unat off) (buf @ u) = h @ (r @ u)" by simp
  from entry_okI [OF e(1,2,3) this wire_name_append [OF e(5)]] show ?thesis .
qed

lemma ctx_ok_append: "ctx_ok buf ctx \<Longrightarrow> ctx_ok (buf @ u) ctx"
  by (auto simp: ctx_ok_def intro: entry_ok_append)

lemma ctx_ok_new [simp]: "ctx_ok buf NameCompression_new"
  by (simp add: ctx_ok_def NameCompression_new_def)

lemma remember_suffix_lookup:
  "suffix_offsets (remember_suffix ctx t off) u = Some q \<Longrightarrow> suffix_offsets ctx u = Some q \<or> u = t \<and> q = off"
  by (auto simp: remember_suffix_def split: option.splits if_splits)

lemma entry_ok_here:
  assumes "wire_name (buf @ h) s h ls" "s \<le> length buf" "length buf \<le> 0x3FFF" "ls \<noteq> []"
  shows "entry_ok (buf @ h) (join_with [dot] ls) (of_nat (length buf))"
proof -
  have "unat (of_nat (length buf) :: u16) = length buf" using assms(3) by (simp add: unat_of_nat)
  moreover have "drop (length buf) (buf @ h) = h @ []" by simp
  ultimately show ?thesis
    using assms(4) wire_name_segment [OF assms(1,2)]
    by (intro entry_okI [where h = h and r = "[]" and ls = ls]) (use assms(3) in simp_all)
qed

context codec_laws
begin

lemma put_labels_pointer:
  assumes "entry_ok buf (join_with [dot] ls) off" "unat off < s" "ls \<noteq> []" "list_all label_ok ls"
  shows "wire_name (buf @ u) s (to_be 2 (0xC000 OR (off AND 0x3FFF))) ls"
proof -
  from assms(1) obtain ks h r where e: "unat off < 0x4000" "ks \<noteq> []"
    "join_with [dot] ls = join_with [dot] ks" "drop (unat off) buf = h @ r" "wire_name buf (unat off) h ks"
    unfolding entry_ok_def by blast
  have "ls = ks" using join_inj [OF assms(3) e(2) assms(4) _ e(3)] wire_name_labels [OF e(5)] by blast
  moreover have "off AND 0x3FFF = off"
    using e(1) less_mask_eq [of off 14] by (simp add: word_less_nat_alt mask_eq_exp_minus_1)
  ultimately show ?thesis
    using wire_name_append [OF wire_name.wire_ptr [OF assms(2) e(1) e(4) e(5)]] by simp
qed

lemma put_labels_spec:
  assumes "put_labels C buf ctx (zip (suffixes_of ls) ls) = (buf', ctx')"
    "list_all label_ok ls" "s \<le> length buf"
    "\<forall>t off. suffix_offsets ctx t = Some off \<longrightarrow>
       (entry_ok buf t off \<and> unat off < s) \<or> length (join_with [dot] ls) < length t"
  shows "\<exists>h. buf' = buf @ h \<and> wire_name buf' s h ls \<and>
    (\<forall>t off. suffix_offsets ctx' t = Some off \<longrightarrow> suffix_offsets ctx t = Some off \<or> entry_ok buf' t off)"
  using assms
proof (induction ls arbitrary: buf ctx)
  case Nil
  then show ?case by (auto simp: put_laws intro: wire_name.wire_root)
next
  case (Cons l ls)
  let ?t = "join_with [dot] (l # ls)"
  show ?case
  proof (cases "suffix_offsets ctx ?t")
    case (Some off)
    then have e: "entry_ok buf ?t off" "unat off < s" using Cons.prems(4) by auto
    have buf': "buf' = buf @ to_be 2 (0xC000 OR (off AND 0x3FFF))" and [simp]: "ctx' = ctx"
      using Cons.prems(1) Some by (auto simp: get_suffix_offset_def put_laws simp del: to_be_numeral)
    have "wire_name buf' s (to_be 2 (0xC000 OR (off AND 0x3FFF))) (l # ls)"
      unfolding buf' by (rule put_labels_pointer [OF e]) (use Cons.prems(2) in simp_all)
    with buf' show ?thesis by (auto simp del: to_be_numeral)
  next
    case None
    define b1 where "b1 = buf @ of_nat (length l) # l"
    define c1 where "c1 = (if length buf \<le> 0x3FFF then remember_suffix ctx ?t (of_nat (length buf)) else ctx)"
    have c1: "suffix_offsets c1 t = Some q \<Longrightarrow>
        suffix_offsets ctx t = Some q \<or> t = ?t \<and> q = of_nat (length buf) \<and> length buf \<le> 0x3FFF" for t q
      unfolding c1_def by (auto split: if_splits dest: remember_suffix_lookup)
    have l: "l \<noteq> []" "label_ok l" using Cons.prems(2) by (auto simp: label_ok_def)
    have "put_labels C b1 c1 (zip (suffixes_of ls) ls) = (buf', ctx')"
      using Cons.prems(1) None by (simp add: get_suffix_offset_def put_laws b1_def c1_def)
    moreover have "\<forall>t off. suffix_offsets c1 t = Some off \<longrightarrow>
        (entry_ok b1 t off \<and> unat off < s) \<or> length (join_with [dot] ls) < length t"
    proof (intro allI impI)
      fix t off assume "suffix_offsets c1 t = Some off"
      then consider "suffix_offsets ctx t = Some off" | "t = ?t" using c1 by blast
      then show "(entry_ok b1 t off \<and> unat off < s) \<or> length (join_with [dot] ls) < length t"
        using Cons.prems(4) entry_ok_append [of buf t off] join_shorter [OF l(1), of ls]
        unfolding b1_def by cases (fastforce, simp)
    qed
    ultimately obtain h where h: "buf' = b1 @ h" "wire_name buf' s h ls"
      and entries: "\<forall>t off. suffix_offsets ctx' t = Some off \<longrightarrow> suffix_offsets c1 t = Some off \<or> entry_ok buf' t off"
      using Cons.IH [of b1 c1] Cons.prems(2,3) by (auto simp: b1_def)
    let ?h = "of_nat (length l) # l @ h"
    have buf': "buf' = buf @ ?h" using h(1) by (simp add: b1_def)
    have name: "wire_name buf' s ?h (l # ls)" by (rule wire_name.wire_label [OF l(2) h(2)])
    then have "length buf \<le> 0x3FFF \<Longrightarrow> entry_ok buf' ?t (of_nat (length buf))"
      unfolding buf' by (rule entry_ok_here) (use Cons.prems(3) in simp_all)
    with entries c1 name buf' show ?thesis by blast
  qed
qed

lemma put_labels_uniform: "\<exists>h c. \<forall>buf. length buf = n \<longrightarrow> put_labels C buf ctx xs = (buf @ h, c)"
proof (induction xs arbitrary: n ctx)
  case (Cons x xs)
  obtain t l where x: "x = (t, l)" by (cases x)
  show ?case
  proof (cases "suffix_offsets ctx t")
    case None
    define c1 where "c1 = (if n \<le> 0x3FFF then remember_suffix ctx t (of_nat n) else ctx)"
    obtain h c where "\<forall>buf. length buf = n + Suc (length l) \<longrightarrow> put_labels C buf c1 xs = (buf @ h, c)"
      using Cons.IH by blast
    then have "put_labels C buf ctx (x # xs) = (buf @ (of_nat (length l) # l @ h), c)" if "length buf = n" for buf
      using None that unfolding x by (auto simp: get_suffix_offset_def put_laws c1_def)
    then show ?thesis by blast
  qed (auto simp: x get_suffix_offset_def put_laws simp del: to_be_numeral)
qed (auto simp: put_laws)

text \<open>What \<open>put_name\<close> appends depends on the buffer only through its length, so a field written
  before it may be patched afterwards.\<close>

lemma put_name_uniform: "\<exists>h c. \<forall>buf. length buf = n \<longrightarrow> put_name C buf name ctx = (buf @ h, c)"
  using put_labels_uniform [of n ctx] unfolding put_name_def Let_def
  by (cases "name_labels name = []") (auto simp: put_laws)

end

lemma name_labels_nonempty: "[] \<notin> set (name_labels name)"
  by (auto simp: name_labels_def Let_def)

definition name_ok :: "name \<Rightarrow> bool" where
  "name_ok name \<longleftrightarrow> list_all label_ok (name_labels name)"

text \<open>The form in which the reader returns a name: no trailing dot, no empty label.\<close>

definition canonical_name :: "name \<Rightarrow> name" where
  "canonical_name name = (if name_labels name = [] then [dot] else join_with [dot] (name_labels name))"

lemma strip_trailing_dot:
  assumes "ls \<noteq> []" "list_all label_ok ls"
  shows "strip_suffix [dot] (join_with [dot] ls) = None"
proof -
  have "last (join_with [dot] ls) \<noteq> dot" if "ls \<noteq> []" "list_all label_ok ls" for ls
    using that
    by (induction "[dot]" ls rule: join_with.induct) (auto simp: label_ok_def join_with_Nil list_all_iff dest: last_in_set)
  then have "join_with [dot] ls \<noteq> r @ [dot]" for r using assms by (metis last_snoc)
  then show ?thesis by (metis not_None_eq strip_suffix_Some)
qed

lemma name_labels_join:
  assumes "ls \<noteq> []" "list_all label_ok ls"
  shows "name_labels (join_with [dot] ls) = ls"
proof -
  have ne: "[] \<notin> set ls" and nd: "\<forall>l \<in> set ls. dot \<notin> set l" using assms(2) by (auto simp: label_ok_def list_all_iff)
  have "join_with [dot] ls \<noteq> [dot]" using strip_trailing_dot [OF assms] by (auto simp: strip_suffix_def strip_prefix_def)
  moreover have "filter (\<lambda>p. p \<noteq> []) ls = ls" using ne by (auto intro: filter_True)
  moreover have "join_with [dot] ls \<noteq> []" using assms(1) join_with_Nil [OF ne] by simp
  ultimately show ?thesis
    using strip_trailing_dot [OF assms] split_join [OF assms(1) nd] by (simp add: name_labels_def)
qed

lemma canonical_name_idem: "name_ok name \<Longrightarrow> canonical_name (canonical_name name) = canonical_name name"
  by (auto simp: canonical_name_def name_labels_join name_ok_def) (simp add: name_labels_def)

context codec_laws
begin

lemma put_name_spec:
  assumes "put_name C buf name ctx = (buf', ctx')" "ctx_ok buf ctx" "name_ok name"
  shows "\<exists>h. buf' = buf @ h \<and> wire_name buf' (length buf) h (name_labels name) \<and> ctx_ok buf' ctx'"
proof -
  let ?ls = "name_labels name"
  have "put_labels C buf ctx (zip (suffixes_of ?ls) ?ls) = (buf', ctx')"
    using assms(1) put_name_suffixes [OF name_labels_nonempty, of name]
    by (auto simp: put_name_def Let_def split: if_splits)
  moreover have "\<forall>t off. suffix_offsets ctx t = Some off \<longrightarrow>
      (entry_ok buf t off \<and> unat off < length buf) \<or> length (join_with [dot] ?ls) < length t"
    using assms(2) unfolding ctx_ok_def entry_ok_def
    by (metis append_is_Nil_conv drop_all not_le wire_name_not_Nil)
  ultimately obtain h where h: "buf' = buf @ h" "wire_name buf' (length buf) h ?ls"
    and e: "\<forall>t off. suffix_offsets ctx' t = Some off \<longrightarrow> suffix_offsets ctx t = Some off \<or> entry_ok buf' t off"
    using put_labels_spec [of buf ctx ?ls buf' ctx' "length buf"] assms(3) by (auto simp: name_ok_def)
  have "ctx_ok buf' ctx'" using e assms(2) h(1) unfolding ctx_ok_def by (metis entry_ok_append)
  with h show ?thesis by blast
qed

lemma put_name_reads_back:
  assumes "put_name C buf name ctx = (buf', ctx')" "ctx_ok buf ctx" "name_ok name"
  shows "\<exists>h. buf' = buf @ h \<and> ctx_ok buf' ctx' \<and>
    (\<forall>u r. be_name C (h @ r) (buf' @ u) = Inr (r, canonical_name name))"
proof -
  obtain h where h: "buf' = buf @ h" "wire_name buf' (length buf) h (name_labels name)" "ctx_ok buf' ctx'"
    using put_name_spec [OF assms] by blast
  have "be_name C (h @ r) (buf' @ u) = Inr (r, canonical_name name)" for u r
    unfolding canonical_name_def by (rule be_name_wire [OF wire_name_append [OF h(2)]])
  with h show ?thesis by blast
qed

lemma be_name_consumes:
  "be_name_labels C n i m vis acc = Inr (r, ls) \<Longrightarrow> \<exists>h. i = h @ r \<and> h \<noteq> []"
proof (induction n arbitrary: i vis acc ls r)
  case (Suc n)
  from Suc.prems obtain len t where i: "i = len # t"
    by (auto simp: andthen_eq_Inr be_u8_iff)
  consider "r = t" | b where "t = b # r" | lb t' where "t = lb @ t'"
    "be_name_labels C n t' m vis (acc @ [from_utf8_lossy lb]) = Inr (r, ls)"
    using Suc.prems unfolding i
    by (auto simp: andthen_eq_Inr read_iffs Let_def split: if_splits)
  then show ?case
  proof cases
    case (3 lb t')
    then obtain h where "t' = h @ r" using Suc.IH by blast
    then have "i = (len # lb @ h) @ r" using 3 i by simp
    then show ?thesis by blast
  qed (auto simp: i)
qed simp

lemma be_name_no_fuel [simp]: "be_name C input origin \<noteq> Inl OutOfFuel"
proof -
  have "unvisited origin [] = length origin" by (simp add: unvisited_def)
  then have "be_name_labels C (name_fuel input origin) input origin [] [] \<noteq> Inl OutOfFuel"
    by (intro be_name_labels_enough) (simp add: name_fuel_def)
  then show ?thesis unfolding be_name_def be_name_inner_def by (intro andthen_no_fuel) auto
qed

lemma be_name_prefix: "be_name C input origin = Inr (r, n) \<Longrightarrow> \<exists>h. input = h @ r \<and> h \<noteq> []"
  using be_name_consumes by (auto simp: be_name_def be_name_inner_def andthen_eq_Inr split: if_splits)

end

section \<open>Properties\<close>

text \<open>C2: A name of labels of at most 63 bytes is read back from the message it was
  written into, whatever is appended to the message later and wherever the reader stops: with
  a sound compression context the bytes appended for the name decode to its canonical form (one
  trailing dot and empty labels dropped), and the context stays sound for the next name.\<close>

theorem name_roundtrip:
  assumes "codec_laws C" and "put_name C buf name ctx = (buf', ctx')" and "ctx_ok buf ctx" and "name_ok name"
  shows "\<exists>h. buf' = buf @ h \<and> ctx_ok buf' ctx' \<and>
    (\<forall>u r. be_name C (h @ r) (buf' @ u) = Inr (r, canonical_name name))"
  by (rule codec_laws.put_name_reads_back [OF assms])

lemma put_name_com:
  "put_name ref_codec [] (str ''com'') NameCompression_new =
   ([3, 99, 111, 109, 0], \<lparr>suffix_offsets = [str ''com'' \<mapsto> 0]\<rparr>)"
  by (simp add: put_name_def name_labels_def str_def strip_suffix_def strip_prefix_def Let_def ref_codec_def
      get_suffix_offset_def remember_suffix_def NameCompression_new_def)

theorem name_roundtrip_witness:
  "put_name ref_codec [] (str ''com'') NameCompression_new =
     ([3, 99, 111, 109, 0], \<lparr>suffix_offsets = [str ''com'' \<mapsto> 0]\<rparr>) \<and>
   ctx_ok [] NameCompression_new \<and> name_ok (str ''com'') \<and>
   (\<exists>h. [3, 99, 111, 109, 0] = [] @ h \<and> ctx_ok [3, 99, 111, 109, 0] \<lparr>suffix_offsets = [str ''com'' \<mapsto> 0]\<rparr> \<and>
     (\<forall>u r. be_name ref_codec (h @ r) ([3, 99, 111, 109, 0] @ u) = Inr (r, canonical_name (str ''com''))))"
proof (intro conjI)
  show ok: "name_ok (str ''com'')"
    by (simp add: name_ok_def name_labels_def str_def strip_suffix_def strip_prefix_def label_ok_def valid_utf8_ascii)
  show "\<exists>h. [3, 99, 111, 109, 0] = [] @ h \<and> ctx_ok [3, 99, 111, 109, 0] \<lparr>suffix_offsets = [str ''com'' \<mapsto> 0]\<rparr> \<and>
     (\<forall>u r. be_name ref_codec (h @ r) ([3, 99, 111, 109, 0] @ u) = Inr (r, canonical_name (str ''com'')))"
    by (rule name_roundtrip [OF refc.codec_laws_axioms put_name_com ctx_ok_new ok])
qed (rule put_name_com ctx_ok_new)+

text \<open>C21: Reading a name ends on every input, however its compression pointers are arranged:
  the fuel chosen by \<open>be_name\<close> is never used up. When it succeeds, it consumed a nonempty prefix
  of its input.\<close>

theorem be_name_total:
  assumes "codec_laws C"
  shows "case be_name C input origin of Inl e \<Rightarrow> e \<noteq> OutOfFuel
    | Inr (r, n) \<Rightarrow> \<exists>h. input = h @ r \<and> h \<noteq> []"
  using codec_laws.be_name_no_fuel [OF assms] codec_laws.be_name_prefix [OF assms]
  by (auto split: sum.splits)

theorem be_name_total_witness:
  "case be_name ref_codec [0xC0, 0] [0xC0, 0] of Inl e \<Rightarrow> e \<noteq> OutOfFuel
    | Inr (r, n) \<Rightarrow> \<exists>h. [0xC0, 0] = h @ r \<and> h \<noteq> []"
  by (rule be_name_total [OF refc.codec_laws_axioms])

end
