(* ===== verification/Certificate.thy ===== *)
theory Certificate
  imports Varint
begin

text \<open>
  Certificate chain keys (\<^verbatim>\<open>src/core/certificate.rs\<close>) and the interface to \<^verbatim>\<open>dhttp_home\<close>, whose
  types they are. A \<^verbatim>\<open>CertificateSequence\<close> is represented by the \<open>u32\<close> its \<^verbatim>\<open>get()\<close> returns; its
  fallible and infallible constructors and \<^verbatim>\<open>CertificateUsage::kind_flag\<close> are the record \<open>home\<close>,
  and the locale \<open>home_laws\<close> states what the code relies on.
\<close>

type_synonym CertificateSequence = u32

datatype CertificateUsage = ClientAndServer | ClientOnly

record CertificateChainKey =
  key_sequence :: CertificateSequence
  key_usage :: CertificateUsage

record home =
  seq_try_from_u64 :: "u64 \<Rightarrow> CertificateSequence option"
  seq_from_u8 :: "u8 \<Rightarrow> CertificateSequence"
  kind_flag :: "CertificateUsage \<Rightarrow> rstr"
  extract_chain_key :: "bytes list \<Rightarrow> CertificateChainKey option" \<comment> \<open>of the subject key identifier of a certificate chain\<close>

definition PRIMARY_KIND_FLAG :: rstr where "PRIMARY_KIND_FLAG = str ''0''"
definition SECONDARY_KIND_FLAG :: rstr where "SECONDARY_KIND_FLAG = str ''1''"

text \<open>\<^verbatim>\<open>unreachable!\<close> for any other flag is \<open>None\<close>.\<close>

definition chain_key :: "CertificateSequence \<Rightarrow> rstr \<Rightarrow> CertificateChainKey option" where
  "chain_key sequence flag =
     map_option (\<lambda>usage. \<lparr>key_sequence = sequence, key_usage = usage\<rparr>)
       (if flag = str ''0'' then Some ClientAndServer
        else if flag = str ''1'' then Some ClientOnly else None)"

definition primary_chain_key :: "CertificateSequence \<Rightarrow> CertificateChainKey" where
  "primary_chain_key sequence = the (chain_key sequence PRIMARY_KIND_FLAG)"

definition secondary_chain_key :: "CertificateSequence \<Rightarrow> CertificateChainKey" where
  "secondary_chain_key sequence = the (chain_key sequence SECONDARY_KIND_FLAG)"

definition is_primary_chain_key :: "home \<Rightarrow> CertificateChainKey \<Rightarrow> bool" where
  "is_primary_chain_key H key \<longleftrightarrow> kind_flag H (key_usage key) = PRIMARY_KIND_FLAG"

locale home_laws =
  fixes H :: home
  assumes seq_try_from_value: "seq_try_from_u64 H v = Some s \<Longrightarrow> ucast s = v"
    and seq_from_u8_value: "seq_from_u8 H b = ucast b"
    and seq_from_u8_valid: "seq_try_from_u64 H (ucast (seq_from_u8 H b)) = Some (seq_from_u8 H b)"
    and extract_valid: "extract_chain_key H certs = Some key \<Longrightarrow>
      seq_try_from_u64 H (ucast (key_sequence key)) = Some (key_sequence key)"
    and kind_flag_client_and_server: "kind_flag H ClientAndServer = str ''0''"
    and kind_flag_client_only: "kind_flag H ClientOnly = str ''1''"

text \<open>The two flags the code passes never reach the \<^verbatim>\<open>unreachable!\<close>.\<close>

lemma chain_key_flags:
  "chain_key s PRIMARY_KIND_FLAG = Some \<lparr>key_sequence = s, key_usage = ClientAndServer\<rparr>"
  "chain_key s SECONDARY_KIND_FLAG = Some \<lparr>key_sequence = s, key_usage = ClientOnly\<rparr>"
  by (simp_all add: chain_key_def PRIMARY_KIND_FLAG_def SECONDARY_KIND_FLAG_def str_def)

lemma chain_key_simps [simp]:
  "primary_chain_key s = \<lparr>key_sequence = s, key_usage = ClientAndServer\<rparr>"
  "secondary_chain_key s = \<lparr>key_sequence = s, key_usage = ClientOnly\<rparr>"
  by (simp_all add: primary_chain_key_def secondary_chain_key_def chain_key_flags)

context home_laws
begin

lemma is_primary_iff: "is_primary_chain_key H key \<longleftrightarrow> key_usage key = ClientAndServer"
  by (cases "key_usage key")
    (simp_all add: is_primary_chain_key_def kind_flag_client_and_server kind_flag_client_only
      PRIMARY_KIND_FLAG_def str_def)

end

text \<open>A concrete instance: sequences of at most 24 bits.\<close>

definition ref_home :: home where
  "ref_home = \<lparr>seq_try_from_u64 = (\<lambda>v. if v < 0x1000000 then Some (ucast v) else None),
     seq_from_u8 = ucast,
     kind_flag = (\<lambda>u. case u of ClientAndServer \<Rightarrow> str ''0'' | ClientOnly \<Rightarrow> str ''1''),
     extract_chain_key = (\<lambda>certs. case certs of (b # _) # _ \<Rightarrow> Some \<lparr>key_sequence = ucast b, key_usage = ClientAndServer\<rparr>
       | _ \<Rightarrow> None)\<rparr>"

lemma ref_home_try_from:
  assumes "v < (0x1000000 :: u64)"
  shows "ucast (ucast v :: u32) = v"
proof -
  have "v < 2 ^ 24" using assms by simp
  note small = small_bit [OF this]
  show ?thesis by (intro bit_word_eqI) (auto simp: bit_simps dest: small)
qed

lemma byte_sequence_small: "unat (ucast (ucast b :: u32) :: u64) < 256" for b :: u8
proof -
  have "(ucast (ucast b :: u32) :: u64) = ucast b"
    by (intro bit_word_eqI) (auto simp: bit_simps dest: bit_imp_le_length)
  moreover have "unat (ucast b :: u64) = take_bit 64 (unat b)" by (simp add: unsigned_ucast_eq)
  moreover have "take_bit 64 (unat b) < 2 ^ LENGTH(8)"
    by (rule le_less_trans [OF take_bit_nat_less_eq_self unsigned_less])
  ultimately show ?thesis by simp
qed

lemma ref_home_from_u8: "ucast (ucast b :: u32) < (0x1000000 :: u64)" "ucast (ucast (ucast b :: u32) :: u64) = (ucast b :: u32)"
  for b :: u8
proof -
  show "ucast (ucast b :: u32) < (0x1000000 :: u64)"
    using byte_sequence_small [of b] by (simp add: word_less_nat_alt)
  show "ucast (ucast (ucast b :: u32) :: u64) = (ucast b :: u32)"
    by (intro bit_word_eqI) (auto simp: bit_simps)
qed

interpretation refh: home_laws ref_home
proof
  show "seq_try_from_u64 ref_home v = Some s \<Longrightarrow> ucast s = v" for v s
    using ref_home_try_from by (auto simp: ref_home_def split: if_splits)
  show "seq_try_from_u64 ref_home (ucast (seq_from_u8 ref_home b)) = Some (seq_from_u8 ref_home b)" for b
    using ref_home_from_u8 [of b] by (simp add: ref_home_def)
  show "extract_chain_key ref_home certs = Some key \<Longrightarrow>
      seq_try_from_u64 ref_home (ucast (key_sequence key)) = Some (key_sequence key)" for certs key
    using ref_home_from_u8 by (auto simp: ref_home_def split: list.splits)
qed (simp_all add: ref_home_def)

end
