(* ===== verification/Sigin.thy ===== *)
theory Sigin
  imports RustStr
begin

text \<open>
  Signature schemes and their use (\<^verbatim>\<open>src/core/parser/sigin.rs\<close>), and the interface to the
  cryptographic crates. The repository does not contain \<^verbatim>\<open>rustls\<close>, \<^verbatim>\<open>ring\<close>, \<^verbatim>\<open>x509_parser\<close>, \<^verbatim>\<open>base64\<close>
  and \<^verbatim>\<open>qtls\<close>, so the operations the code calls are the record \<open>crypto\<close> (free functions) and the
  records \<open>signing_key\<close> and \<open>authority\<close> (objects), arguments of the definitions that use them. The
  names of the schemes, algorithms and object identifiers are those the source matches on;
  everything else is one further constructor.
\<close>

datatype SignatureScheme =
  ED25519 | ECDSA_NISTP256_SHA256 | ECDSA_NISTP384_SHA384
| RSA_PSS_SHA256 | RSA_PSS_SHA384 | RSA_PSS_SHA512
| RSA_PKCS1_SHA256 | RSA_PKCS1_SHA384 | RSA_PKCS1_SHA512
| Unknown u16 \<comment> \<open>every other scheme of rustls\<close>

datatype SignatureAlgorithm = AlgED25519 | AlgECDSA | AlgRSA | AlgOther

datatype oid =
  OID_SIG_ED25519 | OID_PKCS1_RSAENCRYPTION | OID_KEY_TYPE_EC_PUBLIC_KEY | OID_EC_P256
| OID_NIST_EC_P384 | OID_other nat

datatype ring_algorithm =
  RingED25519 | RingECDSA_P256_SHA256_ASN1 | RingECDSA_P384_SHA384_ASN1
| RingRSA_PSS_2048_8192_SHA256 | RingRSA_PSS_2048_8192_SHA384 | RingRSA_PSS_2048_8192_SHA512
| RingRSA_PKCS1_2048_8192_SHA256 | RingRSA_PKCS1_2048_8192_SHA384 | RingRSA_PKCS1_2048_8192_SHA512

text \<open>What \<^verbatim>\<open>x509_parser\<close> reports of a \<^verbatim>\<open>SubjectPublicKeyInfo\<close>.\<close>

record spki_info =
  algorithm :: oid
  parameters_oid :: "oid option"
  subject_public_key :: bytes

record crypto =
  scheme_code :: "SignatureScheme \<Rightarrow> u16"
  scheme_from_code :: "u16 \<Rightarrow> SignatureScheme"
  spki_from_der :: "bytes \<Rightarrow> spki_info option"
  ring_verify :: "ring_algorithm \<Rightarrow> bytes \<Rightarrow> bytes \<Rightarrow> bytes \<Rightarrow> bool"
  ring_sha256 :: "bytes \<Rightarrow> bytes"
  b64_encode :: "bytes \<Rightarrow> rstr"
  b64_decode :: "rstr \<Rightarrow> bytes option"
  x509_spki :: "bytes \<Rightarrow> bytes option"
  first_pem_cert :: "bytes \<Rightarrow> (unit + bytes) option"

datatype qtls_sign_error = SigningFailed | OtherSignError nat

record signing_key =
  key_algorithm :: SignatureAlgorithm
  choose_scheme :: "SignatureScheme list \<Rightarrow> (bytes \<Rightarrow> bytes option) option"

record authority =
  authority_name :: rstr
  certificates :: "bytes list"
  public_key :: bytes
  authority_sign :: "u16 \<Rightarrow> bytes \<Rightarrow> qtls_sign_error + bytes"

section \<open>Schemes and their names\<close>

definition SIGNATURE_SCHEME_PREFERENCE :: "SignatureScheme list" where
  "SIGNATURE_SCHEME_PREFERENCE =
     [ED25519, ECDSA_NISTP256_SHA256, ECDSA_NISTP384_SHA384, RSA_PSS_SHA256, RSA_PSS_SHA384,
      RSA_PSS_SHA512, RSA_PKCS1_SHA256, RSA_PKCS1_SHA384, RSA_PKCS1_SHA512]"

definition signature_schemes_for_algorithm :: "SignatureAlgorithm \<Rightarrow> SignatureScheme list" where
  "signature_schemes_for_algorithm alg = filter (\<lambda>scheme. case alg of
       AlgED25519 \<Rightarrow> scheme = ED25519
     | AlgECDSA \<Rightarrow> scheme \<in> {ECDSA_NISTP256_SHA256, ECDSA_NISTP384_SHA384}
     | AlgRSA \<Rightarrow> scheme \<in> {RSA_PSS_SHA256, RSA_PSS_SHA384, RSA_PSS_SHA512,
                            RSA_PKCS1_SHA256, RSA_PKCS1_SHA384, RSA_PKCS1_SHA512}
     | AlgOther \<Rightarrow> True) SIGNATURE_SCHEME_PREFERENCE"

fun alg_name_for_scheme :: "SignatureScheme \<Rightarrow> rstr option" where
  "alg_name_for_scheme ED25519 = Some (str ''ed25519'')"
| "alg_name_for_scheme ECDSA_NISTP256_SHA256 = Some (str ''ecdsa-p256-sha256'')"
| "alg_name_for_scheme ECDSA_NISTP384_SHA384 = Some (str ''ecdsa-p384-sha384'')"
| "alg_name_for_scheme RSA_PSS_SHA256 = Some (str ''rsa-pss-sha256'')"
| "alg_name_for_scheme RSA_PSS_SHA384 = Some (str ''rsa-pss-sha384'')"
| "alg_name_for_scheme RSA_PSS_SHA512 = Some (str ''rsa-pss-sha512'')"
| "alg_name_for_scheme RSA_PKCS1_SHA256 = Some (str ''rsa-v1_5-sha256'')"
| "alg_name_for_scheme RSA_PKCS1_SHA384 = Some (str ''rsa-v1_5-sha384'')"
| "alg_name_for_scheme RSA_PKCS1_SHA512 = Some (str ''rsa-v1_5-sha512'')"
| "alg_name_for_scheme (Unknown c) = None"

definition scheme_for_alg_name :: "rstr \<Rightarrow> SignatureScheme option" where
  "scheme_for_alg_name alg =
     (if alg = str ''ed25519'' then Some ED25519
      else if alg = str ''ecdsa-p256-sha256'' then Some ECDSA_NISTP256_SHA256
      else if alg = str ''ecdsa-p384-sha384'' then Some ECDSA_NISTP384_SHA384
      else if alg = str ''rsa-pss-sha256'' then Some RSA_PSS_SHA256
      else if alg = str ''rsa-pss-sha384'' then Some RSA_PSS_SHA384
      else if alg = str ''rsa-pss-sha512'' then Some RSA_PSS_SHA512
      else if alg = str ''rsa-v1_5-sha256'' then Some RSA_PKCS1_SHA256
      else if alg = str ''rsa-v1_5-sha384'' then Some RSA_PKCS1_SHA384
      else if alg = str ''rsa-v1_5-sha512'' then Some RSA_PKCS1_SHA512
      else None)"

definition canonical_scheme_for_spki :: "crypto \<Rightarrow> bytes \<Rightarrow> SignatureScheme option" where
  "canonical_scheme_for_spki K der =
     (case spki_from_der K der of None \<Rightarrow> None
      | Some spki \<Rightarrow>
          if algorithm spki = OID_SIG_ED25519 then Some ED25519
          else if algorithm spki = OID_PKCS1_RSAENCRYPTION then Some RSA_PSS_SHA512
          else if algorithm spki \<noteq> OID_KEY_TYPE_EC_PUBLIC_KEY then None
          else (case parameters_oid spki of None \<Rightarrow> None
            | Some curve \<Rightarrow>
                if curve = OID_EC_P256 then Some ECDSA_NISTP256_SHA256
                else if curve = OID_NIST_EC_P384 then Some ECDSA_NISTP384_SHA384
                else None))"

datatype SignatureSchemeError = UnsupportedKey

definition signature_scheme :: "crypto \<Rightarrow> bytes \<Rightarrow> SignatureSchemeError + SignatureScheme" where
  "signature_scheme K der =
     (case spki_from_der K der of None \<Rightarrow> Inl UnsupportedKey
      | Some spki \<Rightarrow>
          if algorithm spki = OID_SIG_ED25519 then Inr ED25519
          else if algorithm spki = OID_PKCS1_RSAENCRYPTION then Inr RSA_PSS_SHA512
          else if algorithm spki \<noteq> OID_KEY_TYPE_EC_PUBLIC_KEY then Inl UnsupportedKey
          else (case parameters_oid spki of None \<Rightarrow> Inl UnsupportedKey
            | Some curve \<Rightarrow>
                if curve = OID_EC_P256 then Inr ECDSA_NISTP256_SHA256
                else if curve = OID_NIST_EC_P384 then Inr ECDSA_NISTP384_SHA384
                else Inl UnsupportedKey))"

section \<open>Signing and verifying\<close>

datatype SignError = NoSupportedScheme | Identity qtls_sign_error

fun sign_first_scheme :: "signing_key \<Rightarrow> bytes \<Rightarrow> SignatureScheme list \<Rightarrow> SignError + bytes" where
  "sign_first_scheme key data [] = Inl NoSupportedScheme"
| "sign_first_scheme key data (scheme # schemes) =
     (case choose_scheme key [scheme] of
        Some signer \<Rightarrow> (case signer data of Some sig \<Rightarrow> Inr sig | None \<Rightarrow> Inl (Identity SigningFailed))
      | None \<Rightarrow> sign_first_scheme key data schemes)"

definition sign_with_key :: "signing_key \<Rightarrow> bytes \<Rightarrow> SignError + bytes" where
  "sign_with_key key data = sign_first_scheme key data (case key_algorithm key of
       AlgRSA \<Rightarrow> [RSA_PSS_SHA512]
     | AlgECDSA \<Rightarrow> [ECDSA_NISTP256_SHA256, ECDSA_NISTP384_SHA384]
     | AlgED25519 \<Rightarrow> [ED25519]
     | AlgOther \<Rightarrow> [])"

text \<open>The variants the code builds, without the texts and sources they carry.\<close>

datatype VerifyError =
  UnsupportedScheme SignatureScheme | InvalidCertificate | InvalidPem | InvalidBase64 | Io

fun verification_algorithm :: "SignatureScheme \<Rightarrow> ring_algorithm option" where
  "verification_algorithm ECDSA_NISTP384_SHA384 = Some RingECDSA_P384_SHA384_ASN1"
| "verification_algorithm ECDSA_NISTP256_SHA256 = Some RingECDSA_P256_SHA256_ASN1"
| "verification_algorithm ED25519 = Some RingED25519"
| "verification_algorithm RSA_PKCS1_SHA256 = Some RingRSA_PKCS1_2048_8192_SHA256"
| "verification_algorithm RSA_PKCS1_SHA384 = Some RingRSA_PKCS1_2048_8192_SHA384"
| "verification_algorithm RSA_PKCS1_SHA512 = Some RingRSA_PKCS1_2048_8192_SHA512"
| "verification_algorithm RSA_PSS_SHA256 = Some RingRSA_PSS_2048_8192_SHA256"
| "verification_algorithm RSA_PSS_SHA384 = Some RingRSA_PSS_2048_8192_SHA384"
| "verification_algorithm RSA_PSS_SHA512 = Some RingRSA_PSS_2048_8192_SHA512"
| "verification_algorithm (Unknown c) = None"

definition sigin_verify :: "crypto \<Rightarrow> bytes \<Rightarrow> SignatureScheme \<Rightarrow> bytes \<Rightarrow> bytes \<Rightarrow> VerifyError + bool" where
  "sigin_verify K spki scheme data sig =
     (case verification_algorithm scheme of None \<Rightarrow> Inl (UnsupportedScheme scheme)
      | Some alg \<Rightarrow>
          (case spki_from_der K spki of None \<Rightarrow> Inr False
           | Some info \<Rightarrow> Inr (ring_verify K alg (subject_public_key info) data sig)))"

section \<open>Lemmas\<close>

lemma verification_algorithm_None: "verification_algorithm s = None \<longleftrightarrow> alg_name_for_scheme s = None"
  by (cases s) auto

lemma signature_scheme_canonical:
  "signature_scheme K der = (case canonical_scheme_for_spki K der of Some s \<Rightarrow> Inr s | None \<Rightarrow> Inl UnsupportedKey)"
  by (auto simp: signature_scheme_def canonical_scheme_for_spki_def split: option.splits)

lemma canonical_scheme_named:
  "canonical_scheme_for_spki K der = Some s \<Longrightarrow> alg_name_for_scheme s \<noteq> None"
  by (auto simp: canonical_scheme_for_spki_def split: option.splits if_splits)

section \<open>Properties\<close>

text \<open>The two hand-written tables between signature schemes and their wire names are inverse
  to each other, and every scheme with a name can be verified: a name is decoded to a scheme
  exactly when that scheme is written with the name.\<close>

theorem scheme_names_inverse:
  "(scheme_for_alg_name n = Some s \<longleftrightarrow> alg_name_for_scheme s = Some n) \<and>
   (verification_algorithm s = None \<longleftrightarrow> alg_name_for_scheme s = None)"
proof
  show "scheme_for_alg_name n = Some s \<longleftrightarrow> alg_name_for_scheme s = Some n"
    by (cases s) (auto simp: scheme_for_alg_name_def str_def)
qed (rule verification_algorithm_None)

text \<open>Verification accepts only through the cryptographic primitive: a positive answer of
  \<open>sigin_verify\<close> means that the scheme is one of the nine supported ones, that the key parses, and
  that \<open>ring_verify\<close> accepted this signature over exactly this data under that key.\<close>

theorem sigin_verify_sound:
  assumes "sigin_verify K spki scheme data sig = Inr True"
  shows "\<exists>alg info. verification_algorithm scheme = Some alg \<and> spki_from_der K spki = Some info \<and>
    ring_verify K alg (subject_public_key info) data sig \<and> scheme \<in> set SIGNATURE_SCHEME_PREFERENCE"
  using assms
  by (cases scheme) (auto simp: sigin_verify_def SIGNATURE_SCHEME_PREFERENCE_def split: option.splits)

text \<open>A concrete instance: the code points of TLS, and a toy signature, the key followed by the data.\<close>

definition ref_scheme_code :: "SignatureScheme \<Rightarrow> u16" where
  "ref_scheme_code s = (case s of ED25519 \<Rightarrow> 0x0807 | ECDSA_NISTP256_SHA256 \<Rightarrow> 0x0403
     | ECDSA_NISTP384_SHA384 \<Rightarrow> 0x0503 | RSA_PSS_SHA256 \<Rightarrow> 0x0804 | RSA_PSS_SHA384 \<Rightarrow> 0x0805
     | RSA_PSS_SHA512 \<Rightarrow> 0x0806 | RSA_PKCS1_SHA256 \<Rightarrow> 0x0401 | RSA_PKCS1_SHA384 \<Rightarrow> 0x0501
     | RSA_PKCS1_SHA512 \<Rightarrow> 0x0601 | Unknown c \<Rightarrow> c)"

definition ref_b64_encode :: "bytes \<Rightarrow> rstr" where
  "ref_b64_encode d = concat (map (\<lambda>b. [65 + drop_bit 4 b, 65 + (b AND 15)]) d)"

fun ref_b64_decode :: "rstr \<Rightarrow> bytes option" where
  "ref_b64_decode [] = Some []"
| "ref_b64_decode [x] = None"
| "ref_b64_decode (x # y # r) = map_option ((#) (push_bit 4 (x - 65) OR (y - 65))) (ref_b64_decode r)"

definition ref_crypto :: crypto where
  "ref_crypto = \<lparr>scheme_code = ref_scheme_code,
     scheme_from_code = (\<lambda>c. case find (\<lambda>s. ref_scheme_code s = c) SIGNATURE_SCHEME_PREFERENCE of
       Some s \<Rightarrow> s | None \<Rightarrow> Unknown c),
     spki_from_der = (\<lambda>der. Some \<lparr>algorithm = OID_SIG_ED25519, parameters_oid = None, subject_public_key = der\<rparr>),
     ring_verify = (\<lambda>alg key data sig. sig = key @ data), ring_sha256 = (\<lambda>d. d), b64_encode = ref_b64_encode,
     b64_decode = ref_b64_decode, x509_spki = Some, first_pem_cert = (\<lambda>d. Some (Inr d))\<rparr>"

lemma nibble_less: "drop_bit 4 (b :: u8) < 16" "b AND 15 < 16"
proof -
  have "unat b < 2 ^ LENGTH(8)" by (rule unsigned_less)
  then have "unat b div 16 < 16" by (simp add: less_mult_imp_div_less)
  then show "drop_bit 4 b < 16" by (simp add: word_less_nat_alt drop_bit_eq_div unat_div)
  have "b AND 15 \<le> 15" by (rule word_and_le1)
  also have "(15 :: u8) < 16" by simp
  finally show "b AND 15 < 16" .
qed

lemma nibbles_join: "push_bit 4 (drop_bit 4 (b :: u8)) OR (b AND 15) = b"
proof -
  have "b AND 15 = take_bit 4 b" by (simp add: take_bit_eq_mask mask_eq_exp_minus_1)
  then show ?thesis by (auto intro!: bit_word_eqI simp: bit_simps)
qed

lemma ref_b64_roundtrip: "ref_b64_decode (ref_b64_encode d) = Some d"
proof (induction d)
  case (Cons b d)
  have "ref_b64_encode (b # d) = (65 + drop_bit 4 b) # (65 + (b AND 15)) # ref_b64_encode d"
    by (simp add: ref_b64_encode_def)
  then show ?case using Cons.IH nibbles_join [of b] by simp
qed (simp add: ref_b64_encode_def)

lemma nibble_char: "n < 16 \<Longrightarrow> (65 + n :: u8) < 0x80"
  by (simp add: word_less_nat_alt unat_word_ariths)

lemma ref_b64_ascii: "list_all (\<lambda>c. c < 0x80) (ref_b64_encode d)"
  by (auto simp: ref_b64_encode_def list_all_iff intro!: nibble_char nibble_less)

lemma ref_scheme_code_inverse:
  "alg_name_for_scheme s \<noteq> None \<Longrightarrow> scheme_from_code ref_crypto (scheme_code ref_crypto s) = s"
  by (cases s) (simp_all add: ref_crypto_def ref_scheme_code_def SIGNATURE_SCHEME_PREFERENCE_def)

theorem sigin_verify_sound_witness:
  "sigin_verify ref_crypto [1] ED25519 [2] [1, 2] = Inr True \<and>
   (\<exists>alg info. verification_algorithm ED25519 = Some alg \<and> spki_from_der ref_crypto [1] = Some info \<and>
     ring_verify ref_crypto alg (subject_public_key info) [2] [1, 2] \<and>
     ED25519 \<in> set SIGNATURE_SCHEME_PREFERENCE)"
proof
  show a: "sigin_verify ref_crypto [1] ED25519 [2] [1, 2] = Inr True"
    by (simp add: sigin_verify_def ref_crypto_def)
  show "\<exists>alg info. verification_algorithm ED25519 = Some alg \<and> spki_from_der ref_crypto [1] = Some info \<and>
     ring_verify ref_crypto alg (subject_public_key info) [2] [1, 2] \<and>
     ED25519 \<in> set SIGNATURE_SCHEME_PREFERENCE"
    by (rule sigin_verify_sound [OF a])
qed

end
