(* ===== verification/Endpoint.thy ===== *)
theory Endpoint
  imports Certificate Sigin
begin

text \<open>
  Endpoint address records (\<^verbatim>\<open>src/core/parser/record/endpoint.rs\<close>): the record with its flag
  byte and optional fields, constructors and setters, signing and verification, the writer, the
  modern reader and the reader that also accepts the legacy fixed-length layouts.

  An \<^verbatim>\<open>f32\<close> load is represented by its bits (the source compares and encodes it that way). A
  panic of \<open>put_varint\<close> or \<open>encoding_size\<close> is \<open>None\<close> and shown not to happen.
\<close>

type_synonym Ipv4Addr = u32
type_synonym Ipv6Addr = u128

datatype SocketAddrV4 = SocketAddrV4 (v4_ip: Ipv4Addr) (v4_port: u16)
datatype SocketAddrV6 = SocketAddrV6 (v6_ip: Ipv6Addr) (v6_port: u16) (v6_flowinfo: u32) (v6_scope_id: u32)
datatype SocketAddr = V4 SocketAddrV4 | V6 SocketAddrV6
datatype IpAddr = IpV4 Ipv4Addr | IpV6 Ipv6Addr

record EndpointSignature =
  sig_scheme :: u16
  sig_signature :: bytes

record EndpointAddr =
  ep_flags :: u8
  sequence :: "CertificateSequence option"
  load :: "u32 option"
  signature :: "EndpointSignature option"
  primary :: SocketAddr
  agent :: "SocketAddr option"

definition FLAG_FAMILY :: u8 where "FLAG_FAMILY = 0x80"
definition FLAG_MAIN :: u8 where "FLAG_MAIN = 0x40"
definition FLAG_CLUSTERED :: u8 where "FLAG_CLUSTERED = 0x20"
definition FLAG_NAT :: u8 where "FLAG_NAT = 0x10"
definition FLAG_LOAD :: u8 where "FLAG_LOAD = 0x08"
definition FLAG_SIGNED :: u8 where "FLAG_SIGNED = 0x01"

lemmas FLAG_defs = FLAG_FAMILY_def FLAG_MAIN_def FLAG_CLUSTERED_def FLAG_NAT_def FLAG_LOAD_def FLAG_SIGNED_def

section \<open>Construction and fields\<close>

definition direct_v4 :: "SocketAddrV4 \<Rightarrow> EndpointAddr" where
  "direct_v4 addr = \<lparr>ep_flags = 0, sequence = None, load = None, signature = None,
     primary = V4 addr, agent = None\<rparr>"

definition direct_v6 :: "SocketAddrV6 \<Rightarrow> EndpointAddr" where
  "direct_v6 addr = \<lparr>ep_flags = FLAG_FAMILY, sequence = None, load = None, signature = None,
     primary = V6 addr, agent = None\<rparr>"

definition nat_v4 :: "SocketAddrV4 \<Rightarrow> SocketAddrV4 \<Rightarrow> EndpointAddr" where
  "nat_v4 outer agt = \<lparr>ep_flags = FLAG_NAT, sequence = None, load = None, signature = None,
     primary = V4 outer, agent = Some (V4 agt)\<rparr>"

definition nat_v6 :: "SocketAddrV6 \<Rightarrow> SocketAddrV6 \<Rightarrow> EndpointAddr" where
  "nat_v6 outer agt = \<lparr>ep_flags = FLAG_FAMILY OR FLAG_NAT, sequence = None, load = None, signature = None,
     primary = V6 outer, agent = Some (V6 agt)\<rparr>"

definition is_ipv6 :: "EndpointAddr \<Rightarrow> bool" where "is_ipv6 ep \<longleftrightarrow> ep_flags ep AND FLAG_FAMILY \<noteq> 0"
definition is_nat :: "EndpointAddr \<Rightarrow> bool" where "is_nat ep \<longleftrightarrow> ep_flags ep AND FLAG_NAT \<noteq> 0"
definition is_clustered :: "EndpointAddr \<Rightarrow> bool" where "is_clustered ep \<longleftrightarrow> ep_flags ep AND FLAG_CLUSTERED \<noteq> 0"
definition is_load :: "EndpointAddr \<Rightarrow> bool" where "is_load ep \<longleftrightarrow> ep_flags ep AND FLAG_LOAD \<noteq> 0"
definition is_main :: "EndpointAddr \<Rightarrow> bool" where "is_main ep \<longleftrightarrow> ep_flags ep AND FLAG_MAIN = FLAG_MAIN"
definition is_signed :: "EndpointAddr \<Rightarrow> bool" where "is_signed ep \<longleftrightarrow> ep_flags ep AND FLAG_SIGNED = FLAG_SIGNED"

definition set_clustered :: "bool \<Rightarrow> EndpointAddr \<Rightarrow> EndpointAddr" where
  "set_clustered clustered ep =
     (if clustered then ep\<lparr>ep_flags := ep_flags ep OR FLAG_CLUSTERED\<rparr>
      else ep\<lparr>ep_flags := ep_flags ep AND NOT FLAG_CLUSTERED, sequence := None\<rparr>)"

definition set_load :: "u32 option \<Rightarrow> EndpointAddr \<Rightarrow> EndpointAddr" where
  "set_load ld ep =
     (let ep = ep\<lparr>load := ld\<rparr>
      in if load ep \<noteq> None then ep\<lparr>ep_flags := ep_flags ep OR FLAG_LOAD\<rparr>
         else ep\<lparr>ep_flags := ep_flags ep AND NOT FLAG_LOAD\<rparr>)"

definition set_main :: "bool \<Rightarrow> EndpointAddr \<Rightarrow> EndpointAddr" where
  "set_main main ep =
     ep\<lparr>ep_flags := if main then ep_flags ep OR FLAG_MAIN else ep_flags ep AND NOT FLAG_MAIN\<rparr>"

definition set_signed :: "bool \<Rightarrow> EndpointAddr \<Rightarrow> EndpointAddr" where
  "set_signed is_sgn ep =
     ep\<lparr>ep_flags := if is_sgn then ep_flags ep OR FLAG_SIGNED else ep_flags ep AND NOT FLAG_SIGNED\<rparr>"

definition set_sequence :: "CertificateSequence \<Rightarrow> EndpointAddr \<Rightarrow> EndpointAddr" where
  "set_sequence s ep =
     (if s > 0 then set_clustered True (ep\<lparr>sequence := Some s\<rparr>)
      else set_clustered False (ep\<lparr>sequence := None\<rparr>))"

definition normalized_sequence :: "home \<Rightarrow> EndpointAddr \<Rightarrow> CertificateSequence" where
  "normalized_sequence H ep = (case sequence ep of Some s \<Rightarrow> s | None \<Rightarrow> seq_from_u8 H 0)"

definition certificate_chain_key :: "home \<Rightarrow> EndpointAddr \<Rightarrow> CertificateChainKey" where
  "certificate_chain_key H ep =
     (if is_main ep then primary_chain_key (normalized_sequence H ep)
      else secondary_chain_key (normalized_sequence H ep))"

section \<open>Writing\<close>

definition put_socket_addr_v4 :: "codec \<Rightarrow> bytes \<Rightarrow> SocketAddrV4 \<Rightarrow> bytes" where
  "put_socket_addr_v4 C buf addr = (let buf = buf_put_u16 C buf (v4_port addr) in buf_put_u32 C buf (v4_ip addr))"

definition put_socket_addr_v6 :: "codec \<Rightarrow> bytes \<Rightarrow> SocketAddrV6 \<Rightarrow> bytes" where
  "put_socket_addr_v6 C buf addr = (let buf = buf_put_u16 C buf (v6_port addr) in buf_put_u128 C buf (v6_ip addr))"

fun put_socket_addr :: "codec \<Rightarrow> bytes \<Rightarrow> SocketAddr \<Rightarrow> bytes" where
  "put_socket_addr C buf (V4 addr) = put_socket_addr_v4 C buf addr"
| "put_socket_addr C buf (V6 addr) = put_socket_addr_v6 C buf addr"

definition write_base :: "codec \<Rightarrow> EndpointAddr \<Rightarrow> bytes \<Rightarrow> bytes option" where
  "write_base C ep buf = do {
     let buf = buf_put_u8 C buf (ep_flags ep);
     buf \<leftarrow> (case sequence ep of Some s \<Rightarrow> put_varint C buf (from_u32 s) | None \<Rightarrow> Some buf);
     let buf = (case primary ep of V4 addr \<Rightarrow> put_socket_addr_v4 C buf addr
                | V6 addr \<Rightarrow> put_socket_addr_v6 C buf addr);
     let buf = (case agent ep of Some (V4 addr) \<Rightarrow> put_socket_addr_v4 C buf addr
                | Some (V6 addr) \<Rightarrow> put_socket_addr_v6 C buf addr | None \<Rightarrow> buf);
     Some (case load ep of Some ld \<Rightarrow> buf_put_u32 C buf ld | None \<Rightarrow> buf)
   }"

definition sig_len_varint :: "bytes \<Rightarrow> VarInt" where
  "sig_len_varint sig = (case from_u64 (of_nat (length sig)) of Inr v \<Rightarrow> v | Inl _ \<Rightarrow> from_u32 0)"

definition encpding_size :: "EndpointAddr \<Rightarrow> nat option" where
  "encpding_size ep = do {
     let meta_len = 1;
     meta_len \<leftarrow> (case sequence ep of
         Some s \<Rightarrow> map_option ((+) meta_len) (encoding_size (from_u32 s)) | None \<Rightarrow> Some meta_len);
     let meta_len = (if load ep \<noteq> None then meta_len + 4 else meta_len);
     meta_len \<leftarrow> (case signature ep of
         Some sig \<Rightarrow>
           if is_signed ep then
             map_option (\<lambda>n. meta_len + (2 + n + length (sig_signature sig)))
               (encoding_size (sig_len_varint (sig_signature sig)))
           else Some meta_len
       | None \<Rightarrow> Some meta_len);
     let addr_len = (case (is_ipv6 ep, is_nat ep) of
         (False, False) \<Rightarrow> 2 + 4 | (False, True) \<Rightarrow> (2 + 4) * 2
       | (True, False) \<Rightarrow> 2 + 16 | (True, True) \<Rightarrow> (2 + 16) * 2);
     Some (meta_len + addr_len)
   }"

text \<open>The capacity the source reserves from \<open>encpding_size\<close> does not affect the bytes; a panic
  while computing it would be one here too.\<close>

definition signed_data :: "codec \<Rightarrow> EndpointAddr \<Rightarrow> bytes option" where
  "signed_data C ep = do {
     let unsigned_ep = (set_signed True ep)\<lparr>signature := None\<rparr>;
     _ \<leftarrow> encpding_size unsigned_ep;
     write_base C unsigned_ep []
   }"

definition put_endpoint_addr :: "codec \<Rightarrow> bytes \<Rightarrow> EndpointAddr \<Rightarrow> bytes option" where
  "put_endpoint_addr C buf ep = do {
     buf \<leftarrow> write_base C ep buf;
     case signature ep of
       Some sig \<Rightarrow>
         if is_signed ep then do {
           let buf = buf_put_u16 C buf (sig_scheme sig);
           buf \<leftarrow> put_varint C buf (sig_len_varint (sig_signature sig));
           Some (buf_put_slice C buf (sig_signature sig))
         } else Some buf
     | None \<Rightarrow> Some buf
   }"

section \<open>Reading\<close>

definition be_ip_addr :: "codec \<Rightarrow> bool \<Rightarrow> bytes \<Rightarrow> IpAddr ires" where
  "be_ip_addr C is_v6 input =
     (if is_v6 then andthen (nom_be_u128 C input) (\<lambda>remain ip. Inr (remain, IpV6 ip))
      else andthen (nom_be_u32 C input) (\<lambda>remain ip. Inr (remain, IpV4 ip)))"

definition be_socket_addr_v4 :: "codec \<Rightarrow> bytes \<Rightarrow> SocketAddrV4 ires" where
  "be_socket_addr_v4 C input = andthen (nom_be_u16 C input) (\<lambda>remain port.
     andthen (nom_be_u32 C remain) (\<lambda>remain ip. Inr (remain, SocketAddrV4 ip port)))"

definition be_socket_addr_v6 :: "codec \<Rightarrow> bytes \<Rightarrow> SocketAddrV6 ires" where
  "be_socket_addr_v6 C input = andthen (nom_be_u16 C input) (\<lambda>remain port.
     andthen (nom_be_u128 C remain) (\<lambda>remain ip. Inr (remain, SocketAddrV6 ip port 0 0)))"

definition be_endpoint_signature :: "codec \<Rightarrow> bytes \<Rightarrow> u8 \<Rightarrow> EndpointSignature option ires" where
  "be_endpoint_signature C input flags =
     (if flags AND FLAG_SIGNED \<noteq> FLAG_SIGNED then
        if input \<noteq> [] then Inl (NomError input Eof) else Inr (input, None)
      else andthen (nom_be_u16 C input) (\<lambda>remain scheme.
        andthen (be_varint C remain) (\<lambda>remain sig_len.
        andthen (nom_take C (unat (into_inner sig_len)) remain) (\<lambda>remain sig.
        Inr (remain, Some \<lparr>sig_scheme = scheme, sig_signature = sig\<rparr>)))))"

definition be_endpoint_addr :: "codec \<Rightarrow> home \<Rightarrow> bytes \<Rightarrow> EndpointAddr ires" where
  "be_endpoint_addr C H input = andthen (nom_be_u8 C input) (\<lambda>remain flags.
     let clustered = (flags AND FLAG_CLUSTERED \<noteq> 0);
         ipv6 = (flags AND FLAG_FAMILY \<noteq> 0);
         nat = (flags AND FLAG_NAT \<noteq> 0);
         has_load = (flags AND FLAG_LOAD \<noteq> 0)
     in
     andthen (if clustered then
         andthen (be_varint C remain) (\<lambda>remain s.
           case seq_try_from_u64 H (into_inner s) of
             Some sq \<Rightarrow> Inr (remain, Some sq)
           | None \<Rightarrow> Inl (NomFailure remain TooLarge))
       else Inr (remain, None)) (\<lambda>remain sq.
     andthen (if ipv6 then andthen (be_socket_addr_v6 C remain) (\<lambda>remain addr. Inr (remain, V6 addr))
              else andthen (be_socket_addr_v4 C remain) (\<lambda>remain addr. Inr (remain, V4 addr))) (\<lambda>remain prim.
     andthen (if nat then
         if ipv6 then andthen (be_socket_addr_v6 C remain) (\<lambda>remain addr. Inr (remain, Some (V6 addr)))
         else andthen (be_socket_addr_v4 C remain) (\<lambda>remain addr. Inr (remain, Some (V4 addr)))
       else Inr (remain, None)) (\<lambda>remain agt.
     andthen (if has_load then andthen (nom_be_u32 C remain) (\<lambda>remain ld. Inr (remain, Some ld))
              else Inr (remain, None)) (\<lambda>remain ld.
     andthen (be_endpoint_signature C remain flags) (\<lambda>remain sig.
     Inr (remain, \<lparr>ep_flags = flags, sequence = sq, load = ld, signature = sig, primary = prim, agent = agt\<rparr>)))))))"

definition be_legacy_endpoint_addr_by_length :: "codec \<Rightarrow> bytes \<Rightarrow> u16 \<Rightarrow> EndpointAddr ires" where
  "be_legacy_endpoint_addr_by_length C input rdlen =
     (if rdlen = 6 then
        andthen (be_socket_addr_v4 C input) (\<lambda>remain addr.
          Inr (remain, \<lparr>ep_flags = 0, sequence = None, load = None, signature = None,
            primary = V4 addr, agent = None\<rparr>))
      else if rdlen = 12 then
        andthen (be_socket_addr_v4 C input) (\<lambda>remain prim.
        andthen (be_socket_addr_v4 C remain) (\<lambda>remain agt.
          Inr (remain, \<lparr>ep_flags = FLAG_NAT, sequence = None, load = None, signature = None,
            primary = V4 prim, agent = Some (V4 agt)\<rparr>)))
      else if rdlen = 18 then
        andthen (be_socket_addr_v6 C input) (\<lambda>remain addr.
          Inr (remain, \<lparr>ep_flags = FLAG_FAMILY, sequence = None, load = None, signature = None,
            primary = V6 addr, agent = None\<rparr>))
      else if rdlen = 36 then
        andthen (be_socket_addr_v6 C input) (\<lambda>remain prim.
        andthen (be_socket_addr_v6 C remain) (\<lambda>remain agt.
          Inr (remain, \<lparr>ep_flags = FLAG_FAMILY OR FLAG_NAT, sequence = None, load = None, signature = None,
            primary = V6 prim, agent = Some (V6 agt)\<rparr>)))
      else Inl (NomError input LengthValue))"

definition be_endpoint_addr_compat :: "codec \<Rightarrow> home \<Rightarrow> bytes \<Rightarrow> u16 \<Rightarrow> EndpointAddr ires" where
  "be_endpoint_addr_compat C H input rdlen =
     (let legacy_lengths = [6, 12, 18, 36] in
      if unat rdlen \<in> set legacy_lengths then
        (case be_endpoint_addr C H input of
           Inr (remaining, endpoint) \<Rightarrow>
             if remaining = [] then Inr (remaining, endpoint)
             else be_legacy_endpoint_addr_by_length C input rdlen
         | Inl _ \<Rightarrow> be_legacy_endpoint_addr_by_length C input rdlen)
      else be_endpoint_addr C H input)"

section \<open>Conversions and signing\<close>

text \<open>\<^verbatim>\<open>qresolve::EndpointAddr\<close>, by the variants the source matches on.\<close>

datatype DquicEndpointAddr = Direct SocketAddr | Mediate (med_agent: SocketAddr) (med_outer: SocketAddr)

fun try_from_dquic :: "DquicEndpointAddr \<Rightarrow> EndpointAddr option" where
  "try_from_dquic (Direct (V4 addr)) = Some (direct_v4 addr)"
| "try_from_dquic (Direct (V6 addr)) = Some (direct_v6 addr)"
| "try_from_dquic (Mediate (V4 agt) (V4 outer)) = Some (nat_v4 outer agt)"
| "try_from_dquic (Mediate (V6 agt) (V6 outer)) = Some (nat_v6 outer agt)"
| "try_from_dquic _ = None"

definition try_into_dquic :: "EndpointAddr \<Rightarrow> DquicEndpointAddr option" where
  "try_into_dquic ep =
     (case agent ep of
        Some agt \<Rightarrow>
          (case (primary ep, agt) of
             (V4 outer, V4 agt) \<Rightarrow> Some (Mediate (V4 agt) (V4 outer))
           | (V6 outer, V6 agt) \<Rightarrow> Some (Mediate (V6 agt) (V6 outer))
           | _ \<Rightarrow> None)
      | None \<Rightarrow> (case primary ep of V4 addr \<Rightarrow> Some (Direct (V4 addr)) | V6 addr \<Rightarrow> Some (Direct (V6 addr))))"

datatype SignEndpointError = Sign qtls_sign_error | NoSupportedScheme

text \<open>The endpoint is mutated in place, so it is returned whatever the result. The outer \<open>option\<close>
  is the panic.\<close>

definition sign_with_authority ::
  "codec \<Rightarrow> crypto \<Rightarrow> authority \<Rightarrow> EndpointAddr \<Rightarrow> (EndpointAddr \<times> (SignEndpointError + unit)) option" where
  "sign_with_authority C K auth ep = do {
     let ep = set_signed True ep;
     data \<leftarrow> signed_data C ep;
     Some (case (case certificates auth of [] \<Rightarrow> None | _ # _ \<Rightarrow> canonical_scheme_for_spki K (public_key auth)) of
         None \<Rightarrow> (ep, Inl SignEndpointError.NoSupportedScheme)
       | Some scheme \<Rightarrow>
           (case authority_sign auth (scheme_code K scheme) data of
              Inl e \<Rightarrow> (ep, Inl (Sign e))
            | Inr sig \<Rightarrow> (ep\<lparr>signature := Some \<lparr>sig_scheme = scheme_code K scheme, sig_signature = sig\<rparr>\<rparr>, Inr ())))
   }"

definition verify_signature :: "codec \<Rightarrow> crypto \<Rightarrow> EndpointAddr \<Rightarrow> bytes \<Rightarrow> (VerifyError + bool) option" where
  "verify_signature C K ep spki =
     (case signature ep of
        None \<Rightarrow> Some (Inr False)
      | Some sig \<Rightarrow> do {
          data \<leftarrow> signed_data C ep;
          Some (sigin_verify K spki (scheme_from_code K (sig_scheme sig)) data (sig_signature sig))
        })"

definition verify_signature_from_der :: "codec \<Rightarrow> crypto \<Rightarrow> EndpointAddr \<Rightarrow> bytes \<Rightarrow> (VerifyError + bool) option" where
  "verify_signature_from_der C K ep cert =
     (case x509_spki K cert of
        None \<Rightarrow> Some (Inl InvalidCertificate)
      | Some spki \<Rightarrow> verify_signature C K ep spki)"

definition verify_signature_from_pem :: "codec \<Rightarrow> crypto \<Rightarrow> EndpointAddr \<Rightarrow> bytes \<Rightarrow> (VerifyError + bool) option" where
  "verify_signature_from_pem C K ep pem =
     (case first_pem_cert K pem of
        Some (Inr der) \<Rightarrow> verify_signature_from_der C K ep der
      | Some (Inl _) \<Rightarrow> Some (Inl InvalidPem)
      | None \<Rightarrow> Some (Inl InvalidCertificate))"

definition verify_signature_from_base64 :: "codec \<Rightarrow> crypto \<Rightarrow> EndpointAddr \<Rightarrow> rstr \<Rightarrow> (VerifyError + bool) option" where
  "verify_signature_from_base64 C K ep cert_base64 =
     (case b64_decode K (str_trim cert_base64) of
        None \<Rightarrow> Some (Inl InvalidBase64)
      | Some der \<Rightarrow> verify_signature_from_der C K ep der)"

definition signature_base64 :: "crypto \<Rightarrow> EndpointAddr \<Rightarrow> rstr option" where
  "signature_base64 K ep = map_option (\<lambda>sig. b64_encode K (sig_signature sig)) (signature ep)"

text \<open>\<open>contents\<close> is what reading the file gave.\<close>

definition verify_signature_from_file ::
  "codec \<Rightarrow> crypto \<Rightarrow> EndpointAddr \<Rightarrow> bytes option \<Rightarrow> (VerifyError + bool) option" where
  "verify_signature_from_file C K ep contents =
     (case contents of
        None \<Rightarrow> Some (Inl Io)
      | Some bytes \<Rightarrow> do {
          pem \<leftarrow> verify_signature_from_pem C K ep bytes;
          case pem of Inr res \<Rightarrow> Some (Inr res) | Inl _ \<Rightarrow> verify_signature_from_der C K ep bytes
        })"

definition sign_endponit_address ::
  "codec \<Rightarrow> crypto \<Rightarrow> home \<Rightarrow> u8 \<Rightarrow> authority option \<Rightarrow> DquicEndpointAddr \<Rightarrow> EndpointAddr option option" where
  "sign_endponit_address C K H server_id auth endpoint =
     (case try_from_dquic endpoint of
        None \<Rightarrow> Some None
      | Some ep \<Rightarrow> do {
          let ep = set_main (server_id = 0) ep;
          let ep = set_sequence (seq_from_u8 H server_id) ep;
          case auth of
            Some a \<Rightarrow> map_option (\<lambda>(ep, _). Some ep) (sign_with_authority C K a ep)
          | None \<Rightarrow> Some (Some ep)
        })"

section \<open>Flag bits\<close>

lemma and_bit_nonzero: "(x :: u8) AND 0x80 \<noteq> 0 \<longleftrightarrow> bit x 7" "x AND 0x20 \<noteq> 0 \<longleftrightarrow> bit x 5"
    "x AND 0x10 \<noteq> 0 \<longleftrightarrow> bit x 4" "x AND 0x08 \<noteq> 0 \<longleftrightarrow> bit x 3"
  using bit_iff_and_push_bit_not_eq_0 [of x 7] bit_iff_and_push_bit_not_eq_0 [of x 5]
    bit_iff_and_push_bit_not_eq_0 [of x 4] bit_iff_and_push_bit_not_eq_0 [of x 3] by simp_all

lemma bit_exp_u8: "k < 8 \<Longrightarrow> bit (2 ^ k :: u8) n \<longleftrightarrow> n = k"
  by (auto simp: bit_exp_iff)

lemma and_single_bit:
  assumes "n < 8"
  shows "(x :: u8) AND 2 ^ n = 2 ^ n \<longleftrightarrow> bit x n"
proof
  assume "x AND 2 ^ n = 2 ^ n"
  then have "bit (x AND 2 ^ n) n = bit (2 ^ n :: u8) n" by simp
  with assms show "bit x n" by (simp add: bit_and_iff bit_exp_u8)
qed (use assms in \<open>auto intro!: bit_word_eqI simp: bit_and_iff bit_exp_u8\<close>)

lemma and_bit_equal: "(x :: u8) AND 0x40 = 0x40 \<longleftrightarrow> bit x 6" "x AND 1 = 1 \<longleftrightarrow> bit x 0"
  using and_single_bit [of 6 x] and_single_bit [of 0 x] by simp_all

lemmas flag_tests = and_bit_nonzero and_bit_equal

lemma flag_bit_positions:
  "bit (0x80 :: u8) n \<longleftrightarrow> n = 7" "bit (0x40 :: u8) n \<longleftrightarrow> n = 6" "bit (0x20 :: u8) n \<longleftrightarrow> n = 5"
  "bit (0x10 :: u8) n \<longleftrightarrow> n = 4" "bit (0x08 :: u8) n \<longleftrightarrow> n = 3"
proof -
  show "bit (0x80 :: u8) n \<longleftrightarrow> n = 7" "bit (0x40 :: u8) n \<longleftrightarrow> n = 6" "bit (0x20 :: u8) n \<longleftrightarrow> n = 5"
    "bit (0x10 :: u8) n \<longleftrightarrow> n = 4" "bit (0x08 :: u8) n \<longleftrightarrow> n = 3"
    using bit_exp_u8 [of 7 n] bit_exp_u8 [of 6 n] bit_exp_u8 [of 5 n] bit_exp_u8 [of 4 n]
      bit_exp_u8 [of 3 n] by simp_all
qed

lemma flag_pred_bits:
  "is_ipv6 ep \<longleftrightarrow> bit (ep_flags ep) 7" "is_main ep \<longleftrightarrow> bit (ep_flags ep) 6"
  "is_clustered ep \<longleftrightarrow> bit (ep_flags ep) 5" "is_nat ep \<longleftrightarrow> bit (ep_flags ep) 4"
  "is_load ep \<longleftrightarrow> bit (ep_flags ep) 3" "is_signed ep \<longleftrightarrow> bit (ep_flags ep) 0"
  by (simp_all only: is_ipv6_def is_main_def is_clustered_def is_nat_def is_load_def is_signed_def
      FLAG_defs flag_tests)

section \<open>Well-formed endpoints\<close>

text \<open>The flag byte agrees with the optional fields, all addresses have the family it names, the
  sequence is one the certificate library accepts.\<close>

definition addr_ok :: "bool \<Rightarrow> SocketAddr \<Rightarrow> bool" where
  "addr_ok v6 a \<longleftrightarrow> (case a of V4 _ \<Rightarrow> \<not> v6 | V6 x \<Rightarrow> v6 \<and> v6_flowinfo x = 0 \<and> v6_scope_id x = 0)"

definition seq_ok :: "home \<Rightarrow> CertificateSequence \<Rightarrow> bool" where
  "seq_ok H s \<longleftrightarrow> seq_try_from_u64 H (ucast s) = Some s"

definition base_wf :: "home \<Rightarrow> EndpointAddr \<Rightarrow> bool" where
  "base_wf H ep \<longleftrightarrow>
     (case sequence ep of Some s \<Rightarrow> is_clustered ep \<and> seq_ok H s | None \<Rightarrow> \<not> is_clustered ep) \<and>
     addr_ok (is_ipv6 ep) (primary ep) \<and>
     (case agent ep of Some a \<Rightarrow> is_nat ep \<and> addr_ok (is_ipv6 ep) a | None \<Rightarrow> \<not> is_nat ep) \<and>
     (is_load ep \<longleftrightarrow> load ep \<noteq> None)"

definition ep_wf :: "home \<Rightarrow> EndpointAddr \<Rightarrow> bool" where
  "ep_wf H ep \<longleftrightarrow> base_wf H ep \<and>
     (case signature ep of Some sig \<Rightarrow> is_signed ep \<and> length (sig_signature sig) < 2 ^ 62 | None \<Rightarrow> \<not> is_signed ep)"

lemma constructors_wf:
  "ep_wf H (direct_v4 a)" "ep_wf H (nat_v4 a b)"
  "addr_ok True (V6 c) \<Longrightarrow> ep_wf H (direct_v6 c)"
  "addr_ok True (V6 c) \<Longrightarrow> addr_ok True (V6 d) \<Longrightarrow> ep_wf H (nat_v6 c d)"
  by (auto simp: ep_wf_def base_wf_def flag_pred_bits direct_v4_def nat_v4_def direct_v6_def nat_v6_def addr_ok_def
      FLAG_defs bit_or_iff flag_bit_positions)

text \<open>How the setters act on the flag predicates.\<close>

lemma set_main_flags [simp]:
  "is_ipv6 (set_main b ep) = is_ipv6 ep" "is_main (set_main b ep) = b"
  "is_clustered (set_main b ep) = is_clustered ep" "is_nat (set_main b ep) = is_nat ep"
  "is_load (set_main b ep) = is_load ep" "is_signed (set_main b ep) = is_signed ep"
  by (auto simp: flag_pred_bits set_main_def FLAG_defs bit_simps flag_bit_positions)

lemma set_signed_flags [simp]:
  "is_ipv6 (set_signed b ep) = is_ipv6 ep" "is_main (set_signed b ep) = is_main ep"
  "is_clustered (set_signed b ep) = is_clustered ep" "is_nat (set_signed b ep) = is_nat ep"
  "is_load (set_signed b ep) = is_load ep" "is_signed (set_signed b ep) = b"
  by (auto simp: flag_pred_bits set_signed_def FLAG_defs bit_simps)

lemma set_load_flags [simp]:
  "is_ipv6 (set_load v ep) = is_ipv6 ep" "is_main (set_load v ep) = is_main ep"
  "is_clustered (set_load v ep) = is_clustered ep" "is_nat (set_load v ep) = is_nat ep"
  "is_load (set_load v ep) = (v \<noteq> None)" "is_signed (set_load v ep) = is_signed ep"
  by (auto simp: flag_pred_bits set_load_def Let_def FLAG_defs bit_simps flag_bit_positions)

lemma set_clustered_flags [simp]:
  "is_ipv6 (set_clustered b ep) = is_ipv6 ep" "is_main (set_clustered b ep) = is_main ep"
  "is_clustered (set_clustered b ep) = b" "is_nat (set_clustered b ep) = is_nat ep"
  "is_load (set_clustered b ep) = is_load ep" "is_signed (set_clustered b ep) = is_signed ep"
  by (auto simp: flag_pred_bits set_clustered_def FLAG_defs bit_simps flag_bit_positions)

lemma flags_update_others [simp]:
  "is_ipv6 (ep\<lparr>sequence := s\<rparr>) = is_ipv6 ep" "is_main (ep\<lparr>sequence := s\<rparr>) = is_main ep"
  "is_nat (ep\<lparr>sequence := s\<rparr>) = is_nat ep" "is_load (ep\<lparr>sequence := s\<rparr>) = is_load ep"
  "is_signed (ep\<lparr>sequence := s\<rparr>) = is_signed ep" "is_clustered (ep\<lparr>sequence := s\<rparr>) = is_clustered ep"
  "is_ipv6 (ep\<lparr>signature := g\<rparr>) = is_ipv6 ep" "is_main (ep\<lparr>signature := g\<rparr>) = is_main ep"
  "is_nat (ep\<lparr>signature := g\<rparr>) = is_nat ep" "is_load (ep\<lparr>signature := g\<rparr>) = is_load ep"
  "is_signed (ep\<lparr>signature := g\<rparr>) = is_signed ep" "is_clustered (ep\<lparr>signature := g\<rparr>) = is_clustered ep"
  by (simp_all add: flag_pred_bits)

lemma setter_fields [simp]:
  "sequence (set_main b ep) = sequence ep" "load (set_main b ep) = load ep" "signature (set_main b ep) = signature ep"
  "primary (set_main b ep) = primary ep" "agent (set_main b ep) = agent ep"
  "sequence (set_signed b ep) = sequence ep" "load (set_signed b ep) = load ep"
  "signature (set_signed b ep) = signature ep" "primary (set_signed b ep) = primary ep" "agent (set_signed b ep) = agent ep"
  "sequence (set_load v ep) = sequence ep" "load (set_load v ep) = v" "signature (set_load v ep) = signature ep"
  "primary (set_load v ep) = primary ep" "agent (set_load v ep) = agent ep"
  "sequence (set_clustered b ep) = (if b then sequence ep else None)" "load (set_clustered b ep) = load ep"
  "signature (set_clustered b ep) = signature ep" "primary (set_clustered b ep) = primary ep"
  "agent (set_clustered b ep) = agent ep"
  by (simp_all add: set_main_def set_signed_def set_load_def set_clustered_def Let_def)

lemma setters_wf:
  assumes "ep_wf H ep"
  shows "ep_wf H (set_main b ep)" "ep_wf H (set_load v ep)" "seq_ok H s \<Longrightarrow> ep_wf H (set_sequence s ep)"
    "ep_wf H (set_clustered False ep)" "ep_wf H (ep\<lparr>signature := None\<rparr> \<lparr>ep_flags := ep_flags (set_signed False ep)\<rparr>)"
  using assms by (auto simp: ep_wf_def base_wf_def set_sequence_def split: option.splits) (auto simp: flag_pred_bits set_signed_def FLAG_defs bit_simps)

section \<open>The encoding\<close>

fun addr_bytes :: "SocketAddr \<Rightarrow> bytes" where
  "addr_bytes (V4 a) = to_be 2 (v4_port a) @ to_be 4 (v4_ip a)"
| "addr_bytes (V6 a) = to_be 2 (v6_port a) @ to_be 16 (v6_ip a)"

definition opt_bytes :: "('a \<Rightarrow> bytes) \<Rightarrow> 'a option \<Rightarrow> bytes" where
  "opt_bytes f x = (case x of Some v \<Rightarrow> f v | None \<Rightarrow> [])"

definition base_bytes :: "EndpointAddr \<Rightarrow> bytes" where
  "base_bytes ep = ep_flags ep # opt_bytes (\<lambda>s. varint_bytes (ucast s)) (sequence ep) @
     addr_bytes (primary ep) @ opt_bytes addr_bytes (agent ep) @ opt_bytes (to_be 4) (load ep)"

definition sig_bytes :: "EndpointSignature \<Rightarrow> bytes" where
  "sig_bytes sig = to_be 2 (sig_scheme sig) @ varint_bytes (of_nat (length (sig_signature sig))) @ sig_signature sig"

definition endpoint_bytes :: "EndpointAddr \<Rightarrow> bytes" where
  "endpoint_bytes ep = base_bytes ep @ opt_bytes sig_bytes (signature ep)"

lemma opt_bytes_simps [simp]: "opt_bytes f (Some v) = f v" "opt_bytes f None = []"
  by (simp_all add: opt_bytes_def)

lemma u32_varint: "(ucast (s :: u32) :: u64) \<le> VARINT_MAX"
proof -
  have "take_bit 62 (ucast s :: u64) = ucast s"
    by (intro bit_word_eqI) (auto simp: bit_simps dest: bit_imp_le_length)
  then show ?thesis by (metis VARINT_MAX_mask take_bit_eq_mask word_and_le1)
qed

lemma sig_len_varint:
  assumes "length sig < 2 ^ 62"
  shows "sig_len_varint sig = VarInt (of_nat (length sig))" "(of_nat (length sig) :: u64) \<le> VARINT_MAX"
    "unat (of_nat (length sig) :: u64) = length sig"
proof -
  show u: "unat (of_nat (length sig) :: u64) = length sig"
    using assms by (simp add: unat_of_nat)
  with assms show "(of_nat (length sig) :: u64) \<le> VARINT_MAX"
    by (simp add: word_le_nat_alt VARINT_MAX_def)
  then show "sig_len_varint sig = VarInt (of_nat (length sig))"
    by (simp add: sig_len_varint_def from_u64_def)
qed

lemma length_addr_bytes: "addr_ok v6 a \<Longrightarrow> length (addr_bytes a) = (if v6 then 18 else 6)"
  by (cases a) (auto simp: addr_ok_def)

lemma encpding_size_bytes:
  assumes "ep_wf H ep"
  shows "encpding_size ep = Some (length (endpoint_bytes ep))"
proof -
  have seq: "encoding_size (from_u32 s) = Some (length (varint_bytes (ucast s)))" for s
    unfolding from_u32_def by (rule encoding_size_varint_bytes [OF u32_varint])
  have sig: "encoding_size (sig_len_varint g) = Some (length (varint_bytes (of_nat (length g))))"
    if "length g < 2 ^ 62" for g
    unfolding sig_len_varint(1) [OF that] by (rule encoding_size_varint_bytes [OF sig_len_varint(2) [OF that]])
  show ?thesis
    using assms length_addr_bytes [of "is_ipv6 ep"] seq sig
    by (auto simp: ep_wf_def base_wf_def encpding_size_def endpoint_bytes_def base_bytes_def sig_bytes_def
        split: option.splits bool.splits)
qed

context codec_laws
begin

lemma put_socket_addr_bytes:
  "put_socket_addr_v4 C buf a = buf @ addr_bytes (V4 a)" "put_socket_addr_v6 C buf b = buf @ addr_bytes (V6 b)"
  by (simp_all add: put_socket_addr_v4_def put_socket_addr_v6_def put_laws del: to_be_numeral)

lemma write_base_bytes: "write_base C ep buf = Some (buf @ base_bytes ep)"
  using put_varint_bytes [OF u32_varint]
  by (auto simp: write_base_def base_bytes_def put_socket_addr_bytes put_laws from_u32_def Let_def
      simp del: to_be_numeral addr_bytes.simps split: option.splits SocketAddr.splits)

lemma signed_data_bytes: "signed_data C ep = Some (base_bytes (set_signed True ep))"
proof -
  have "encpding_size ((set_signed True ep)\<lparr>signature := None\<rparr>) \<noteq> None"
    using encoding_size_varint_bytes [OF u32_varint]
    by (auto simp: encpding_size_def from_u32_def split: option.splits bool.splits)
  then obtain n where "encpding_size ((set_signed True ep)\<lparr>signature := None\<rparr>) = Some n" by blast
  then show ?thesis by (simp add: signed_data_def write_base_bytes base_bytes_def)
qed

lemma put_endpoint_bytes:
  assumes "ep_wf H ep"
  shows "put_endpoint_addr C buf ep = Some (buf @ endpoint_bytes ep)"
  using assms sig_len_varint put_varint_bytes
  by (auto simp: put_endpoint_addr_def write_base_bytes endpoint_bytes_def sig_bytes_def ep_wf_def base_wf_def put_laws
      simp del: to_be_numeral put_varint.simps split: option.splits)

lemma read_addr:
  "be_socket_addr_v4 C (addr_bytes (V4 a) @ r) = Inr (r, a)"
  "addr_ok v6 (V6 b) \<Longrightarrow> be_socket_addr_v6 C (addr_bytes (V6 b) @ r) = Inr (r, b)"
  by (cases a; simp add: be_socket_addr_v4_def read_laws del: to_be_numeral)
    (cases b; simp add: be_socket_addr_v6_def read_laws addr_ok_def del: to_be_numeral)

lemma read_signature:
  assumes "length (sig_signature sig) < 2 ^ 62" "flags AND FLAG_SIGNED = FLAG_SIGNED"
  shows "be_endpoint_signature C (sig_bytes sig @ r) flags = Inr (r, Some sig)"
  using assms be_varint_bytes [OF sig_len_varint(2) [OF assms(1)]] sig_len_varint(3) [OF assms(1)]
  by (simp add: be_endpoint_signature_def sig_bytes_def read_laws del: to_be_numeral)

lemma be_endpoint_base:
  assumes "base_wf H ep"
  shows "be_endpoint_addr C H (base_bytes ep @ r) =
    andthen (be_endpoint_signature C r (ep_flags ep)) (\<lambda>remain sig. Inr (remain, ep\<lparr>signature := sig\<rparr>))"
proof -
  obtain fl sq ld sg pr ag where ep: "ep = \<lparr>ep_flags = fl, sequence = sq, load = ld, signature = sg, primary = pr, agent = ag\<rparr>"
    by (cases ep) auto
  have seq: "fl AND FLAG_CLUSTERED \<noteq> 0 \<longleftrightarrow> sq \<noteq> None" "\<And>s. sq = Some s \<Longrightarrow> seq_try_from_u64 H (ucast s) = Some s"
    and prim: "addr_ok (fl AND FLAG_FAMILY \<noteq> 0) pr"
    and agt: "fl AND FLAG_NAT \<noteq> 0 \<longleftrightarrow> ag \<noteq> None" "\<And>a. ag = Some a \<Longrightarrow> addr_ok (fl AND FLAG_FAMILY \<noteq> 0) a"
    and lod: "fl AND FLAG_LOAD \<noteq> 0 \<longleftrightarrow> ld \<noteq> None"
    using assms unfolding ep
    by (auto simp: base_wf_def seq_ok_def is_clustered_def is_ipv6_def is_nat_def is_load_def
        split: option.splits)
  have sq': "(if fl AND FLAG_CLUSTERED \<noteq> 0 then
       andthen (be_varint C (opt_bytes (\<lambda>s. varint_bytes (ucast s)) sq @ t)) (\<lambda>remain s.
           case seq_try_from_u64 H (into_inner s) of
             Some sq \<Rightarrow> Inr (remain, Some sq) | None \<Rightarrow> Inl (NomFailure remain TooLarge))
       else Inr (opt_bytes (\<lambda>s. varint_bytes (ucast s)) sq @ t, None)) = Inr (t, sq)" for t
    using seq be_varint_bytes [OF u32_varint] by (cases sq) auto
  have pr': "(if fl AND FLAG_FAMILY \<noteq> 0 then andthen (be_socket_addr_v6 C (addr_bytes pr @ t)) (\<lambda>remain addr. Inr (remain, V6 addr))
      else andthen (be_socket_addr_v4 C (addr_bytes pr @ t)) (\<lambda>remain addr. Inr (remain, V4 addr))) = Inr (t, pr)" for t
    using prim read_addr by (cases pr) (auto simp: addr_ok_def simp del: addr_bytes.simps)
  have ag': "(if fl AND FLAG_NAT \<noteq> 0 then
       if fl AND FLAG_FAMILY \<noteq> 0 then andthen (be_socket_addr_v6 C (opt_bytes addr_bytes ag @ t)) (\<lambda>remain addr. Inr (remain, Some (V6 addr)))
       else andthen (be_socket_addr_v4 C (opt_bytes addr_bytes ag @ t)) (\<lambda>remain addr. Inr (remain, Some (V4 addr)))
      else Inr (opt_bytes addr_bytes ag @ t, None)) = Inr (t, ag)" for t
    using agt read_addr by (cases ag; cases "the ag") (auto simp: addr_ok_def simp del: addr_bytes.simps)
  have ld': "(if fl AND FLAG_LOAD \<noteq> 0 then andthen (nom_be_u32 C (opt_bytes (to_be 4) ld @ t)) (\<lambda>remain ld. Inr (remain, Some ld))
       else Inr (opt_bytes (to_be 4) ld @ t, None)) = Inr (t, ld)" for t
    using lod by (cases ld) (auto simp: read_laws simp del: to_be_numeral)
  show ?thesis
    unfolding be_endpoint_addr_def base_bytes_def ep Let_def
    by (simp only: EndpointAddr.select_convs EndpointAddr.update_convs append_Cons append_assoc be_u8_enough
        andthen.simps sq' pr' ag' ld')
qed

lemma be_endpoint_bytes:
  assumes "ep_wf H ep" "is_signed ep \<or> r = []"
  shows "be_endpoint_addr C H (endpoint_bytes ep @ r) = Inr (r, ep)"
proof -
  have "be_endpoint_signature C (opt_bytes sig_bytes (signature ep) @ r) (ep_flags ep) = Inr (r, signature ep)"
    using assms read_signature
    by (cases "signature ep") (auto simp: ep_wf_def be_endpoint_signature_def is_signed_def)
  with be_endpoint_base assms(1) show ?thesis
    by (simp add: endpoint_bytes_def ep_wf_def)
qed

lemma be_endpoint_wf:
  assumes "home_laws H" "be_endpoint_addr C H i = Inr (r, ep)"
  shows "ep_wf H ep" "is_signed ep \<or> r = []"
proof -
  have seq: "seq_try_from_u64 H v = Some s \<Longrightarrow> seq_ok H s" for v s
    using home_laws.seq_try_from_value [OF assms(1), of v s] by (simp add: seq_ok_def)
  have sg: "be_endpoint_signature C t fl = Inr (r, g) \<Longrightarrow>
      (case g of Some sig \<Rightarrow> fl AND FLAG_SIGNED = FLAG_SIGNED \<and> length (sig_signature sig) < 2 ^ 62
       | None \<Rightarrow> fl AND FLAG_SIGNED \<noteq> FLAG_SIGNED) \<and> (fl AND FLAG_SIGNED = FLAG_SIGNED \<or> r = [])" for t fl g
  proof -
    have len: "unat (into_inner v) < 2 ^ 62" if "be_varint C a = Inr (b, v)" for a b v
      using be_varint_shape(2) [OF that] by (simp add: word_le_nat_alt VARINT_MAX_def)
    then show "be_endpoint_signature C t fl = Inr (r, g) \<Longrightarrow> ?thesis"
      by (auto simp: be_endpoint_signature_def andthen_eq_Inr take_iff split: if_splits)
  qed
  from assms(2) obtain t0 fl t1 sq t2 pr t3 ag t4 ld g where
    sq: "(if fl AND FLAG_CLUSTERED \<noteq> 0 then
         andthen (be_varint C t0) (\<lambda>remain s. case seq_try_from_u64 H (into_inner s) of
             Some sq \<Rightarrow> Inr (remain, Some sq) | None \<Rightarrow> Inl (NomFailure remain TooLarge))
       else Inr (t0, None)) = Inr (t1, sq)"
    and pr: "(if fl AND FLAG_FAMILY \<noteq> 0 then andthen (be_socket_addr_v6 C t1) (\<lambda>remain addr. Inr (remain, V6 addr))
       else andthen (be_socket_addr_v4 C t1) (\<lambda>remain addr. Inr (remain, V4 addr))) = Inr (t2, pr)"
    and ag: "(if fl AND FLAG_NAT \<noteq> 0 then
         if fl AND FLAG_FAMILY \<noteq> 0 then andthen (be_socket_addr_v6 C t2) (\<lambda>remain addr. Inr (remain, Some (V6 addr)))
         else andthen (be_socket_addr_v4 C t2) (\<lambda>remain addr. Inr (remain, Some (V4 addr)))
       else Inr (t2, None)) = Inr (t3, ag)"
    and ld: "(if fl AND FLAG_LOAD \<noteq> 0 then andthen (nom_be_u32 C t3) (\<lambda>remain ld. Inr (remain, Some ld))
       else Inr (t3, None)) = Inr (t4, ld)"
    and g: "be_endpoint_signature C t4 fl = Inr (r, g)"
    and ep: "ep = \<lparr>ep_flags = fl, sequence = sq, load = ld, signature = g, primary = pr, agent = ag\<rparr>"
    unfolding be_endpoint_addr_def Let_def andthen_eq_Inr by auto
  have "case sq of Some s \<Rightarrow> fl AND FLAG_CLUSTERED \<noteq> 0 \<and> seq_ok H s | None \<Rightarrow> \<not> fl AND FLAG_CLUSTERED \<noteq> 0"
    using sq seq by (auto simp: andthen_eq_Inr split: if_splits option.splits)
  moreover have "addr_ok (fl AND FLAG_FAMILY \<noteq> 0) pr"
    using pr by (auto simp: andthen_eq_Inr addr_ok_def be_socket_addr_v6_def split: if_splits)
  moreover have "case ag of Some a \<Rightarrow> fl AND FLAG_NAT \<noteq> 0 \<and> addr_ok (fl AND FLAG_FAMILY \<noteq> 0) a
      | None \<Rightarrow> \<not> fl AND FLAG_NAT \<noteq> 0"
    using ag by (auto simp: andthen_eq_Inr addr_ok_def be_socket_addr_v6_def split: if_splits)
  moreover have "fl AND FLAG_LOAD \<noteq> 0 \<longleftrightarrow> ld \<noteq> None"
    using ld by (auto simp: andthen_eq_Inr split: if_splits)
  ultimately show "ep_wf H ep" "is_signed ep \<or> r = []"
    using sg [OF g] unfolding ep ep_wf_def base_wf_def is_clustered_def is_ipv6_def is_nat_def is_load_def is_signed_def
      EndpointAddr.select_convs by blast+
qed

lemma be_socket_addr_iff:
  "be_socket_addr_v4 C i = Inr (r, a) \<longleftrightarrow> i = addr_bytes (V4 a) @ r"
  "be_socket_addr_v6 C i = Inr (r, b) \<Longrightarrow> length i = 18 + length r"
  by (cases a; auto simp: be_socket_addr_v4_def andthen_eq_Inr read_iffs simp del: to_be_numeral)
    (auto simp: be_socket_addr_v6_def andthen_eq_Inr read_iffs)

lemma be_endpoint_length:
  assumes "be_endpoint_addr C H i = Inr (r, ep)"
  shows "7 \<le> length i"
proof -
  have v4: "be_socket_addr_v4 C j = Inr (q, a) \<Longrightarrow> 6 \<le> length j" for j q a
    by (simp add: be_socket_addr_iff)
  have v6: "be_socket_addr_v6 C j = Inr (q, b) \<Longrightarrow> 6 \<le> length j" for j q b
    using be_socket_addr_iff(2) by simp
  from assms obtain t0 fl t1 sq t2 pr where i: "i = fl # t0" and
    sq: "(if fl AND FLAG_CLUSTERED \<noteq> 0 then
         andthen (be_varint C t0) (\<lambda>remain s. case seq_try_from_u64 H (into_inner s) of
             Some sq \<Rightarrow> Inr (remain, Some sq) | None \<Rightarrow> Inl (NomFailure remain TooLarge))
       else Inr (t0, None)) = Inr (t1, sq)"
    and pr: "(if fl AND FLAG_FAMILY \<noteq> 0 then andthen (be_socket_addr_v6 C t1) (\<lambda>remain addr. Inr (remain, V6 addr))
       else andthen (be_socket_addr_v4 C t1) (\<lambda>remain addr. Inr (remain, V4 addr))) = Inr (t2, pr)"
    unfolding be_endpoint_addr_def Let_def andthen_eq_Inr be_u8_iff by auto
  have "length t1 \<le> length t0"
    using sq be_varint_shape(1) by (auto simp: andthen_eq_Inr split: if_splits option.splits) fastforce
  moreover have "6 \<le> length t1" using pr v4 v6 by (auto simp: andthen_eq_Inr split: if_splits)
  ultimately show ?thesis using i by simp
qed

lemma be_endpoint_compat_bytes:
  assumes "ep_wf H ep"
  shows "be_endpoint_addr_compat C H (endpoint_bytes ep) rdlen = Inr ([], ep)"
  using be_endpoint_bytes [OF assms, of "[]"] by (simp add: be_endpoint_addr_compat_def)

lemma sign_with_authority_cases:
  "\<exists>ep' res. sign_with_authority C K auth ep = Some (ep', res) \<and>
     (case res of
        Inl e \<Rightarrow> ep' = set_signed True ep
      | Inr _ \<Rightarrow> \<exists>scheme sig. canonical_scheme_for_spki K (public_key auth) = Some scheme \<and>
          authority_sign auth (scheme_code K scheme) (base_bytes (set_signed True ep)) = Inr sig \<and>
          ep' = (set_signed True ep)\<lparr>signature := Some \<lparr>sig_scheme = scheme_code K scheme, sig_signature = sig\<rparr>\<rparr>)"
proof -
  have [simp]: "set_signed True (set_signed True ep) = set_signed True ep"
    by (simp add: set_signed_def or.assoc)
  show ?thesis
    by (auto simp: sign_with_authority_def signed_data_bytes Let_def split: option.splits list.splits sum.splits)
qed

end

text \<open>The signature schemes of TLS that fit a public key (RFC 8446, section 4.2.3), by code point, each with
  the algorithm of \<^verbatim>\<open>ring\<close> that checks its signatures.\<close>

definition key_signatures :: "spki_info \<Rightarrow> (u16 \<times> ring_algorithm) list" where
  "key_signatures info =
     (case algorithm info of
        OID_SIG_ED25519 \<Rightarrow> [(0x0807, RingED25519)]
      | OID_PKCS1_RSAENCRYPTION \<Rightarrow>
          [(0x0804, RingRSA_PSS_2048_8192_SHA256), (0x0805, RingRSA_PSS_2048_8192_SHA384), (0x0806, RingRSA_PSS_2048_8192_SHA512),
           (0x0401, RingRSA_PKCS1_2048_8192_SHA256), (0x0501, RingRSA_PKCS1_2048_8192_SHA384), (0x0601, RingRSA_PKCS1_2048_8192_SHA512)]
      | OID_KEY_TYPE_EC_PUBLIC_KEY \<Rightarrow>
          (case parameters_oid info of
             Some OID_EC_P256 \<Rightarrow> [(0x0403, RingECDSA_P256_SHA256_ASN1)]
           | Some OID_NIST_EC_P384 \<Rightarrow> [(0x0503, RingECDSA_P384_SHA384_ASN1)]
           | _ \<Rightarrow> [])
      | _ \<Rightarrow> [])"

text \<open>The contract of the crates a signing authority rests on: \<^verbatim>\<open>rustls\<close> numbers the schemes by their TLS code
  points and reads the numbers back, and a signature the authority makes for the code point of a scheme that fits its
  key is one that \<^verbatim>\<open>ring\<close> accepts under that key, with the algorithm of that scheme; signatures are of reasonable size.
  Which scheme the repository picks for a key and which algorithm it checks a scheme with is not assumed.\<close>

locale authority_laws =
  fixes K :: crypto and auth :: authority
  assumes scheme_code_inverse: "alg_name_for_scheme s \<noteq> None \<Longrightarrow> scheme_from_code K (scheme_code K s) = s"
    and scheme_code_points: "scheme_code K ED25519 = 0x0807" "scheme_code K ECDSA_NISTP256_SHA256 = 0x0403"
      "scheme_code K ECDSA_NISTP384_SHA384 = 0x0503" "scheme_code K RSA_PSS_SHA512 = 0x0806"
    and ring_accepts: "spki_from_der K (public_key auth) = Some info \<Longrightarrow> (code, alg) \<in> set (key_signatures info) \<Longrightarrow>
      authority_sign auth code data = Inr sig \<Longrightarrow> ring_verify K alg (subject_public_key info) data sig"
    and sign_size: "authority_sign auth code data = Inr sig \<Longrightarrow> length sig < 2 ^ 62"
begin

text \<open>The scheme picked for the authority's key fits the key, and its signatures are checked with its algorithm.\<close>

lemma canonical_scheme_fits:
  assumes "canonical_scheme_for_spki K (public_key auth) = Some scheme"
  obtains info alg where "spki_from_der K (public_key auth) = Some info" "verification_algorithm scheme = Some alg"
    "(scheme_code K scheme, alg) \<in> set (key_signatures info)"
  using assms scheme_code_points
  by (auto simp: canonical_scheme_for_spki_def key_signatures_def split: option.splits if_splits)

lemma sign_verifies:
  assumes "canonical_scheme_for_spki K (public_key auth) = Some scheme" and "authority_sign auth (scheme_code K scheme) data = Inr sig"
  shows "sigin_verify K (public_key auth) scheme data sig = Inr True"
proof -
  obtain info alg where k: "spki_from_der K (public_key auth) = Some info" "verification_algorithm scheme = Some alg"
    "(scheme_code K scheme, alg) \<in> set (key_signatures info)" by (rule canonical_scheme_fits [OF assms(1)])
  then show ?thesis using ring_accepts [OF k(1,3) assms(2)] by (simp add: sigin_verify_def)
qed

end

lemma base_wf_set_signed [simp]: "base_wf H (set_signed b ep) = base_wf H ep"
  by (simp add: base_wf_def split: option.splits)

lemma base_wf_signature [simp]: "base_wf H (ep\<lparr>signature := g\<rparr>) = base_wf H ep"
  by (simp add: base_wf_def split: option.splits)

lemma base_bytes_signature [simp]: "base_bytes (ep\<lparr>signature := g\<rparr>) = base_bytes ep"
  by (simp add: base_bytes_def)

lemma set_signed_signature [simp]: "set_signed b (ep\<lparr>signature := g\<rparr>) = (set_signed b ep)\<lparr>signature := g\<rparr>"
  by (simp add: set_signed_def)

lemma set_signed_idem [simp]: "set_signed True (set_signed True ep) = set_signed True ep"
  by (simp add: set_signed_def or.assoc)

lemma try_dquic_roundtrip: "try_from_dquic d = Some ep \<Longrightarrow> try_into_dquic ep = Some d"
  by (cases d rule: try_from_dquic.cases)
    (auto simp: try_into_dquic_def direct_v4_def direct_v6_def nat_v4_def nat_v6_def)

section \<open>Properties\<close>

text \<open>C3: A well-formed endpoint record is written without panicking, in exactly
  \<open>encpding_size\<close> bytes, and both the modern reader and the reader with the legacy fall-back give
  the record back from those bytes, whatever the record's length happens to be (a modern record
  of 12, 18 or 36 bytes is not mistaken for a legacy one).\<close>

theorem endpoint_roundtrip:
  assumes "codec_laws C" and "ep_wf H ep"
  shows "\<exists>enc. put_endpoint_addr C buf ep = Some (buf @ enc) \<and> encpding_size ep = Some (length enc) \<and>
    be_endpoint_addr C H enc = Inr ([], ep) \<and> be_endpoint_addr_compat C H enc (of_nat (length enc)) = Inr ([], ep)"
  using codec_laws.put_endpoint_bytes [OF assms] encpding_size_bytes [OF assms(2)]
    codec_laws.be_endpoint_bytes [OF assms, of "[]"] codec_laws.be_endpoint_compat_bytes [OF assms]
  by simp

theorem endpoint_roundtrip_witness:
  "ep_wf ref_home (set_load (Some 7) (direct_v4 (SocketAddrV4 0x7F000001 443))) \<and>
   (\<exists>enc. put_endpoint_addr ref_codec [9] (set_load (Some 7) (direct_v4 (SocketAddrV4 0x7F000001 443))) = Some ([9] @ enc) \<and>
     encpding_size (set_load (Some 7) (direct_v4 (SocketAddrV4 0x7F000001 443))) = Some (length enc) \<and>
     be_endpoint_addr ref_codec ref_home enc = Inr ([], set_load (Some 7) (direct_v4 (SocketAddrV4 0x7F000001 443))) \<and>
     be_endpoint_addr_compat ref_codec ref_home enc (of_nat (length enc)) =
       Inr ([], set_load (Some 7) (direct_v4 (SocketAddrV4 0x7F000001 443))))"
  by (intro conjI endpoint_roundtrip [OF refc.codec_laws_axioms] setters_wf constructors_wf)

text \<open>C32: Whatever bytes come in, an endpoint that the modern reader accepts is well formed: its
  flag byte agrees with the fields that are present, agent and primary address have the
  same family, and the sequence is a valid one. Bytes after an unsigned record are refused.\<close>

theorem be_endpoint_addr_wf:
  assumes "codec_laws C" and "home_laws H" and "be_endpoint_addr C H i = Inr (r, ep)"
  shows "ep_wf H ep \<and> (is_signed ep \<or> r = [])"
  using codec_laws.be_endpoint_wf [OF assms] by blast

theorem be_endpoint_addr_wf_witness:
  "be_endpoint_addr ref_codec ref_home (endpoint_bytes (direct_v4 (SocketAddrV4 1 2))) = Inr ([], direct_v4 (SocketAddrV4 1 2)) \<and>
   ep_wf ref_home (direct_v4 (SocketAddrV4 1 2)) \<and> (is_signed (direct_v4 (SocketAddrV4 1 2)) \<or> [] = ([] :: bytes))"
proof
  show a: "be_endpoint_addr ref_codec ref_home (endpoint_bytes (direct_v4 (SocketAddrV4 1 2))) = Inr ([], direct_v4 (SocketAddrV4 1 2))"
    using refc.be_endpoint_bytes [OF constructors_wf(1), of _ "[]"] by simp
  show "ep_wf ref_home (direct_v4 (SocketAddrV4 1 2)) \<and> (is_signed (direct_v4 (SocketAddrV4 1 2)) \<or> [] = ([] :: bytes))"
    by (rule be_endpoint_addr_wf [OF refc.codec_laws_axioms refh.home_laws_axioms a])
qed

text \<open>C22: A signature made by \<open>sign_with_authority\<close> survives the wire and is checked the way it was made. If
  signing succeeds on a well-formed endpoint, the signed record is well formed, is read back unchanged from its
  encoding, and verifies under the authority's public key, because the scheme chosen for the key is one that TLS
  defines for it and the code checks that scheme with the matching algorithm of \<^verbatim>\<open>ring\<close>. The same signature on
  any other record is judged by that algorithm alone, on that record's own signed data.\<close>

theorem endpoint_signature_end_to_end:
  assumes "codec_laws C" and "authority_laws K auth" and "ep_wf H ep"
    and "sign_with_authority C K auth ep = Some (ep', Inr ())"
  shows "ep_wf H ep' \<and> verify_signature C K ep' (public_key auth) = Some (Inr True) \<and>
    (\<exists>enc. put_endpoint_addr C [] ep' = Some enc \<and> be_endpoint_addr C H enc = Inr ([], ep')) \<and>
    (\<exists>info code alg sig. spki_from_der K (public_key auth) = Some info \<and> (code, alg) \<in> set (key_signatures info) \<and>
      signature ep' = Some \<lparr>sig_scheme = code, sig_signature = sig\<rparr> \<and>
      (\<forall>other data. signature other = signature ep' \<and> signed_data C other = Some data \<longrightarrow>
        verify_signature C K other (public_key auth) = Some (Inr (ring_verify K alg (subject_public_key info) data sig))))"
proof -
  let ?sep = "set_signed True ep"
  obtain scheme sig where s: "canonical_scheme_for_spki K (public_key auth) = Some scheme"
    "authority_sign auth (scheme_code K scheme) (base_bytes ?sep) = Inr sig"
    and ep': "ep' = ?sep\<lparr>signature := Some \<lparr>sig_scheme = scheme_code K scheme, sig_signature = sig\<rparr>\<rparr>"
    using codec_laws.sign_with_authority_cases [OF assms(1), of K auth ep] assms(4) by auto
  have wf: "ep_wf H ep'"
    using assms(3) authority_laws.sign_size [OF assms(2) s(2)] unfolding ep' by (simp add: ep_wf_def)
  note code = authority_laws.scheme_code_inverse [OF assms(2) canonical_scheme_named [OF s(1)]]
  have "verify_signature C K ep' (public_key auth) = Some (Inr True)"
    using authority_laws.sign_verifies [OF assms(2) s] code
    by (simp add: verify_signature_def ep' codec_laws.signed_data_bytes [OF assms(1)])
  moreover obtain info alg where "spki_from_der K (public_key auth) = Some info" "verification_algorithm scheme = Some alg"
    "(scheme_code K scheme, alg) \<in> set (key_signatures info)" by (rule authority_laws.canonical_scheme_fits [OF assms(2) s(1)])
  moreover from this code have "verify_signature C K other (public_key auth) = Some (Inr (ring_verify K alg (subject_public_key info) data sig))"
    if "signature other = signature ep'" "signed_data C other = Some data" for other data
    using that by (simp add: verify_signature_def ep' sigin_verify_def)
  ultimately show ?thesis
    using wf codec_laws.put_endpoint_bytes [OF assms(1) wf, of "[]"] codec_laws.be_endpoint_bytes [OF assms(1) wf, of "[]"]
    by (auto simp: ep')
qed

definition ref_authority :: authority where
  "ref_authority = \<lparr>authority_name = str ''com'', certificates = [[1]], public_key = [1],
     authority_sign = (\<lambda>code data. if length data < 65536 then Inr (1 # data) else Inl SigningFailed)\<rparr>"

interpretation refa: authority_laws ref_crypto ref_authority
proof
  show "authority_sign ref_authority code data = Inr sig \<Longrightarrow> length sig < 2 ^ 62" for code data sig
    by (auto simp: ref_authority_def split: if_splits)
  show "spki_from_der ref_crypto (public_key ref_authority) = Some info \<Longrightarrow> (code, alg) \<in> set (key_signatures info) \<Longrightarrow>
      authority_sign ref_authority code data = Inr sig \<Longrightarrow> ring_verify ref_crypto alg (subject_public_key info) data sig"
    for info code alg data sig
    by (auto simp: ref_crypto_def ref_authority_def split: if_splits)
  show "alg_name_for_scheme s \<noteq> None \<Longrightarrow> scheme_from_code ref_crypto (scheme_code ref_crypto s) = s" for s
    by (rule ref_scheme_code_inverse)
qed (simp_all add: ref_crypto_def ref_scheme_code_def)

lemma ref_sign_endpoint:
  "sign_with_authority ref_codec ref_crypto ref_authority (direct_v4 a) =
     Some ((set_signed True (direct_v4 a))\<lparr>signature := Some \<lparr>sig_scheme = 0x0807,
       sig_signature = 1 # base_bytes (set_signed True (direct_v4 a))\<rparr>\<rparr>, Inr ())"
  by (cases a) (simp add: sign_with_authority_def refc.signed_data_bytes ref_authority_def ref_crypto_def ref_scheme_code_def
      canonical_scheme_for_spki_def base_bytes_def direct_v4_def Let_def)

text \<open>The record verifies; its signature on a record for another port does not.\<close>

theorem endpoint_signature_end_to_end_witness:
  "\<exists>ep'. sign_with_authority ref_codec ref_crypto ref_authority (direct_v4 (SocketAddrV4 1 2)) = Some (ep', Inr ()) \<and>
     ep_wf ref_home ep' \<and> verify_signature ref_codec ref_crypto ep' (public_key ref_authority) = Some (Inr True) \<and>
     (\<exists>enc. put_endpoint_addr ref_codec [] ep' = Some enc \<and> be_endpoint_addr ref_codec ref_home enc = Inr ([], ep')) \<and>
     verify_signature ref_codec ref_crypto ((direct_v4 (SocketAddrV4 1 3))\<lparr>signature := signature ep'\<rparr>) (public_key ref_authority) =
       Some (Inr False)"
proof -
  let ?ep = "direct_v4 (SocketAddrV4 1 2)"
  obtain ep' where s: "sign_with_authority ref_codec ref_crypto ref_authority ?ep = Some (ep', Inr ())"
    and sig': "signature ep' = Some \<lparr>sig_scheme = 0x0807, sig_signature = 1 # base_bytes (set_signed True ?ep)\<rparr>"
    by (simp add: ref_sign_endpoint)
  note e = endpoint_signature_end_to_end [OF refc.codec_laws_axioms refa.authority_laws_axioms constructors_wf(1) s]
  from e obtain info code alg sig where k: "spki_from_der ref_crypto (public_key ref_authority) = Some info"
    "signature ep' = Some \<lparr>sig_scheme = code, sig_signature = sig\<rparr>"
    "\<And>other data. signature other = signature ep' \<and> signed_data ref_codec other = Some data \<Longrightarrow>
      verify_signature ref_codec ref_crypto other (public_key ref_authority) =
        Some (Inr (ring_verify ref_crypto alg (subject_public_key info) data sig))" by blast
  have "\<not> ring_verify ref_crypto alg (subject_public_key info) (base_bytes (set_signed True (direct_v4 (SocketAddrV4 1 3)))) sig"
    using k(1,2) sig' by (auto simp: ref_crypto_def ref_authority_def base_bytes_def direct_v4_def)
  with e s k(3) [of "(direct_v4 (SocketAddrV4 1 3))\<lparr>signature := signature ep'\<rparr>"] show ?thesis
    by (auto simp: refc.signed_data_bytes)
qed

text \<open>C33: The signed data covers every field of the record: two well-formed endpoints with the
  same signed data agree in the flag byte (except the SIGNED bit, which signing sets), the
  sequence, the load, the primary address and the agent address.\<close>

theorem signed_data_covers_fields:
  assumes "codec_laws C" and "ep_wf H a" and "ep_wf H b" and "signed_data C a = signed_data C b"
  shows "(set_signed True a)\<lparr>signature := None\<rparr> = (set_signed True b)\<lparr>signature := None\<rparr>"
proof -
  let ?sig = "Some \<lparr>sig_scheme = 0, sig_signature = []\<rparr>"
  let ?a = "(set_signed True a)\<lparr>signature := ?sig\<rparr>" and ?b = "(set_signed True b)\<lparr>signature := ?sig\<rparr>"
  have wf: "ep_wf H ?a" "ep_wf H ?b" using assms(2,3) by (simp_all add: ep_wf_def)
  have "endpoint_bytes ?a = endpoint_bytes ?b"
    using assms(4) by (simp add: codec_laws.signed_data_bytes [OF assms(1)] endpoint_bytes_def)
  then have eq: "?a = ?b"
    using codec_laws.be_endpoint_bytes [OF assms(1) wf(1), of "[]"]
      codec_laws.be_endpoint_bytes [OF assms(1) wf(2), of "[]"] by simp
  have "?a\<lparr>signature := None\<rparr> = ?b\<lparr>signature := None\<rparr>" by (simp only: eq)
  then show ?thesis by simp
qed

definition demo_signed :: EndpointAddr where
  "demo_signed = (set_signed True (direct_v4 (SocketAddrV4 1 2)))\<lparr>signature := Some \<lparr>sig_scheme = 7, sig_signature = [9]\<rparr>\<rparr>"

theorem signed_data_covers_fields_witness:
  "signed_data ref_codec (direct_v4 (SocketAddrV4 1 2)) = signed_data ref_codec demo_signed \<and>
   (set_signed True (direct_v4 (SocketAddrV4 1 2)))\<lparr>signature := None\<rparr> = (set_signed True demo_signed)\<lparr>signature := None\<rparr>"
proof -
  have wf: "ep_wf ref_home (direct_v4 (SocketAddrV4 1 2))" "ep_wf ref_home demo_signed"
    by (simp_all add: demo_signed_def ep_wf_def constructors_wf [unfolded ep_wf_def])
  have eq: "signed_data ref_codec (direct_v4 (SocketAddrV4 1 2)) = signed_data ref_codec demo_signed"
    by (simp add: refc.signed_data_bytes demo_signed_def base_bytes_def)
  then show ?thesis
    using signed_data_covers_fields [OF refc.codec_laws_axioms wf eq] by (rule conjI)
qed

text \<open>An endpoint made from an address of the transport and a certificate sequence of one byte is never as long
  as a legacy record.\<close>

lemma published_base_length:
  assumes "home_laws H" and "try_from_dquic d = Some e0"
  shows "length (base_bytes (set_signed True (set_sequence (seq_from_u8 H sid) (set_main m e0)))) \<notin> {6, 12, 18, 36} \<and>
    length (base_bytes (set_signed True (set_sequence (seq_from_u8 H sid) (set_main m e0)))) < 40"
proof -
  have "ucast (ucast sid :: CertificateSequence) < (2 ^ 14 :: u64)"
    using byte_sequence_small [of sid] by (simp add: word_less_nat_alt)
  then have "length (varint_bytes (ucast (seq_from_u8 H sid))) \<in> {1, 2}"
    by (auto simp: length_varint_bytes varint_exp_def home_laws.seq_from_u8_value [OF assms(1)])
  then show ?thesis
    using assms(2) by (cases d rule: try_from_dquic.cases)
      (auto simp: base_bytes_def set_sequence_def direct_v4_def direct_v6_def nat_v4_def nat_v6_def)
qed

text \<open>C35: When signing fails, the endpoint is left with its SIGNED flag set and no signature, and
  \<open>sign_endponit_address\<close> publishes it all the same: what is then written is a record that neither reader can
  decode, because it announces a signature that is not there. The reader of record data, which falls back to the
  legacy layouts, reports it as incomplete too: the record never has the length of a legacy one.\<close>

theorem sign_failure_publishes_undecodable:
  assumes "codec_laws C" and "home_laws H" and "try_from_dquic d = Some e0" and "ep_wf H e0"
    and "sign_with_authority C K auth (set_sequence (seq_from_u8 H sid) (set_main (sid = 0) e0)) = Some (ep, Inl err)"
  shows "sign_endponit_address C K H sid (Some auth) d = Some (Some ep) \<and> is_signed ep \<and> signature ep = None \<and>
    (\<exists>enc. put_endpoint_addr C [] ep = Some enc \<and> is_incomplete (be_endpoint_addr C H enc) \<and>
      is_incomplete (be_endpoint_addr_compat C H enc (of_nat (length enc))))"
proof -
  let ?e = "set_sequence (seq_from_u8 H sid) (set_main (sid = 0) e0)"
  have ep: "ep = set_signed True ?e"
    using codec_laws.sign_with_authority_cases [OF assms(1), of K auth ?e] assms(5) by auto
  have none: "signature e0 = None"
    using assms(3) by (cases d rule: try_from_dquic.cases) (auto simp: direct_v4_def direct_v6_def nat_v4_def nat_v6_def)
  then have sig: "signature ep = None" by (simp add: ep set_sequence_def)
  have "ep_wf H ?e"
    using assms(4) home_laws.seq_from_u8_valid [OF assms(2)] by (intro setters_wf) (simp_all add: seq_ok_def)
  then have base: "base_wf H ep" by (simp add: ep ep_wf_def)
  have "is_incomplete (be_endpoint_signature C [] (ep_flags ep))"
  proof -
    have "is_signed ep" by (simp add: ep)
    then show ?thesis
      using codec_laws.be_u16_short [OF assms(1), of "[]"]
      by (auto simp: be_endpoint_signature_def is_signed_def is_incomplete_iff)
  qed
  then have "is_incomplete (be_endpoint_addr C H (base_bytes ep))"
    using codec_laws.be_endpoint_base [OF assms(1) base, of "[]"] by (auto simp: is_incomplete_iff)
  moreover from this have "is_incomplete (be_endpoint_addr_compat C H (base_bytes ep) (of_nat (length (base_bytes ep))))"
    using published_base_length [OF assms(2,3), of sid "sid = 0"]
    by (simp add: be_endpoint_addr_compat_def ep unat_of_nat)
  moreover have "put_endpoint_addr C [] ep = Some (base_bytes ep)"
    using sig by (simp add: put_endpoint_addr_def codec_laws.write_base_bytes [OF assms(1)])
  ultimately show ?thesis
    using sig assms(3,5) by (simp add: sign_endponit_address_def ep)
qed

definition refusing_authority :: authority where
  "refusing_authority = \<lparr>authority_name = str ''com'', certificates = [[1]], public_key = [1], authority_sign = (\<lambda>code data. Inl SigningFailed)\<rparr>"

theorem sign_failure_publishes_undecodable_witness:
  "\<exists>ep err. sign_with_authority ref_codec ref_crypto refusing_authority
       (set_sequence (seq_from_u8 ref_home 0) (set_main (0 = (0 :: u8)) (direct_v4 (SocketAddrV4 1 2)))) = Some (ep, Inl err) \<and>
     sign_endponit_address ref_codec ref_crypto ref_home 0 (Some refusing_authority) (Direct (V4 (SocketAddrV4 1 2))) = Some (Some ep) \<and>
     is_signed ep \<and> signature ep = None \<and>
     (\<exists>enc. put_endpoint_addr ref_codec [] ep = Some enc \<and> is_incomplete (be_endpoint_addr ref_codec ref_home enc) \<and>
       is_incomplete (be_endpoint_addr_compat ref_codec ref_home enc (of_nat (length enc))))"
proof -
  have "\<exists>ep err. sign_with_authority ref_codec ref_crypto refusing_authority
       (set_sequence (seq_from_u8 ref_home 0) (set_main (0 = (0 :: u8)) (direct_v4 (SocketAddrV4 1 2)))) = Some (ep, Inl err)"
    by (simp add: sign_with_authority_def refc.signed_data_bytes refusing_authority_def ref_crypto_def
        canonical_scheme_for_spki_def)
  then show ?thesis
    using sign_failure_publishes_undecodable [OF refc.codec_laws_axioms refh.home_laws_axioms
      try_from_dquic.simps(1) constructors_wf(1)] by blast
qed

text \<open>C38: A legacy six-byte record is always read as the direct IPv4 endpoint it encodes; but a legacy
  twelve-byte NAT record can be taken for a modern one: the record of outer port 10241 is read as a
  clustered endpoint with a load value, at another address.\<close>

theorem legacy_records:
  assumes "codec_laws C" and "home_laws H"
  shows "be_endpoint_addr_compat C H (put_socket_addr_v4 C [] a) 6 = Inr ([], direct_v4 a) \<and>
    (\<exists>ep. be_endpoint_addr_compat C H
        (put_socket_addr_v4 C (put_socket_addr_v4 C [] (SocketAddrV4 0x0A000001 0x2801)) (SocketAddrV4 0x0A000002 0x07D0)) 12 =
        Inr ([], ep) \<and>
      is_clustered ep \<and> is_load ep \<and> agent ep = None \<and> primary ep = V4 (SocketAddrV4 0x000107D0 0x0A00))"
proof
  have "length (addr_bytes (V4 a)) = 6" by simp
  then have "be_endpoint_addr C H (addr_bytes (V4 a)) \<noteq> Inr (r, ep)" for r ep
    using codec_laws.be_endpoint_length [OF assms(1), of H "addr_bytes (V4 a)" r ep] by linarith
  then show "be_endpoint_addr_compat C H (put_socket_addr_v4 C [] a) 6 = Inr ([], direct_v4 a)"
    using codec_laws.read_addr(1) [OF assms(1), of a "[]"]
    by (auto simp: codec_laws.put_socket_addr_bytes [OF assms(1)] be_endpoint_addr_compat_def
        be_legacy_endpoint_addr_by_length_def direct_v4_def simp del: addr_bytes.simps split: sum.splits)
  let ?ep = "\<lparr>ep_flags = 0x28, sequence = Some 1, load = Some 0x0A000002, signature = None,
    primary = V4 (SocketAddrV4 0x000107D0 0x0A00), agent = None\<rparr>"
  have "seq_ok H 1"
    using home_laws.seq_from_u8_valid [OF assms(2), of 1] home_laws.seq_from_u8_value [OF assms(2), of 1]
    by (simp add: seq_ok_def)
  then have wf: "ep_wf H ?ep"
    by (simp add: ep_wf_def base_wf_def is_clustered_def is_ipv6_def is_nat_def is_load_def is_signed_def FLAG_defs addr_ok_def)
  have "endpoint_bytes ?ep = [0x28, 1, 0x0A, 0, 0, 1, 7, 0xD0, 0x0A, 0, 0, 2]"
    by (simp add: endpoint_bytes_def base_bytes_def varint_bytes_def varint_exp_def varint_tag_def)
  moreover have "put_socket_addr_v4 C (put_socket_addr_v4 C [] (SocketAddrV4 0x0A000001 0x2801)) (SocketAddrV4 0x0A000002 0x07D0) =
      [0x28, 1, 0x0A, 0, 0, 1, 7, 0xD0, 0x0A, 0, 0, 2]"
    by (simp add: codec_laws.put_socket_addr_bytes [OF assms(1)])
  ultimately show "\<exists>ep. be_endpoint_addr_compat C H
        (put_socket_addr_v4 C (put_socket_addr_v4 C [] (SocketAddrV4 0x0A000001 0x2801)) (SocketAddrV4 0x0A000002 0x07D0)) 12 =
        Inr ([], ep) \<and>
      is_clustered ep \<and> is_load ep \<and> agent ep = None \<and> primary ep = V4 (SocketAddrV4 0x000107D0 0x0A00)"
    using codec_laws.be_endpoint_compat_bytes [OF assms(1) wf, of 12]
    by (intro exI [of _ ?ep]) (simp add: is_clustered_def is_load_def FLAG_defs)
qed

theorem legacy_records_witness:
  "be_endpoint_addr_compat ref_codec ref_home (put_socket_addr_v4 ref_codec [] (SocketAddrV4 1 2)) 6 = Inr ([], direct_v4 (SocketAddrV4 1 2)) \<and>
    (\<exists>ep. be_endpoint_addr_compat ref_codec ref_home
        (put_socket_addr_v4 ref_codec (put_socket_addr_v4 ref_codec [] (SocketAddrV4 0x0A000001 0x2801)) (SocketAddrV4 0x0A000002 0x07D0)) 12 =
        Inr ([], ep) \<and>
      is_clustered ep \<and> is_load ep \<and> agent ep = None \<and> primary ep = V4 (SocketAddrV4 0x000107D0 0x0A00))"
  by (rule legacy_records [OF refc.codec_laws_axioms refh.home_laws_axioms])

end
