(* ===== verification/Records.thy ===== *)
theory Records
  imports Names Endpoint
begin

text \<open>
  Questions and resource records (\<^verbatim>\<open>src/core/parser/question.rs\<close>, \<^verbatim>\<open>record.rs\<close>, \<^verbatim>\<open>record/srv.rs\<close>,
  \<^verbatim>\<open>record/ptr.rs\<close>, \<^verbatim>\<open>record/txt.rs\<close>): the type and class codes and the readers. The writers are in
  theory \<^verbatim>\<open>Packet\<close>, as in the source.
\<close>

section \<open>Type and class codes\<close>

datatype QueryType = A | AAAA | Cname | Txt | Srv | Ptr | E | E6 | EE | EE6

definition query_type_try_from :: "u16 \<Rightarrow> QueryType option" where
  "query_type_try_from v =
     (if v = 1 then Some QueryType.A else if v = 28 then Some QueryType.AAAA
      else if v = 5 then Some QueryType.Cname else if v = 16 then Some QueryType.Txt
      else if v = 33 then Some QueryType.Srv else if v = 12 then Some QueryType.Ptr
      else if v = 266 then Some QueryType.E else if v = 267 then Some E6
      else if v = 268 then Some EE else if v = 269 then Some EE6 else None)"

fun query_type_code :: "QueryType \<Rightarrow> u16" where
  "query_type_code QueryType.A = 1"
| "query_type_code QueryType.AAAA = 28"
| "query_type_code QueryType.Cname = 5"
| "query_type_code QueryType.Txt = 16"
| "query_type_code QueryType.Srv = 33"
| "query_type_code QueryType.Ptr = 12"
| "query_type_code QueryType.E = 266"
| "query_type_code E6 = 267"
| "query_type_code EE = 268"
| "query_type_code EE6 = 269"

datatype QueryClass = IN | CS | CH | HS | Any

fun query_class_code :: "QueryClass \<Rightarrow> u16" where
  "query_class_code QueryClass.IN = 1"
| "query_class_code QueryClass.CS = 2"
| "query_class_code QueryClass.CH = 3"
| "query_class_code QueryClass.HS = 4"
| "query_class_code Any = 255"

definition query_class_try_from :: "u16 \<Rightarrow> QueryClass option" where
  "query_class_try_from v =
     (if v = 1 then Some QueryClass.IN else if v = 2 then Some QueryClass.CS
      else if v = 3 then Some QueryClass.CH else if v = 4 then Some QueryClass.HS
      else if v = 255 then Some Any else None)"

datatype Class = IN | CS | CH | HS

definition class_try_from :: "u16 \<Rightarrow> Class option" where
  "class_try_from v =
     (let v = v AND 0x7FFF in
      if v = 1 then Some Class.IN else if v = 2 then Some Class.CS
      else if v = 3 then Some Class.CH else if v = 4 then Some Class.HS else None)"

fun class_code :: "Class \<Rightarrow> u16" where
  "class_code Class.IN = 1"
| "class_code Class.CS = 2"
| "class_code Class.CH = 3"
| "class_code Class.HS = 4"

datatype Type = A | Ns | AAAA | Cname | Txt | Srv | Ptr | E

definition type_try_from :: "u16 \<Rightarrow> Type option" where
  "type_try_from v =
     (if v = 1 then Some Type.A else if v = 2 then Some Ns else if v = 28 then Some Type.AAAA
      else if v = 5 then Some Type.Cname else if v = 16 then Some Type.Txt
      else if v = 33 then Some Type.Srv else if v = 12 then Some Type.Ptr
      else if v = 266 then Some Type.E else if 267 \<le> v \<and> v \<le> 269 then Some Type.E else None)"

fun type_code :: "Type \<Rightarrow> u16" where
  "type_code Type.A = 1"
| "type_code Ns = 2"
| "type_code Type.AAAA = 28"
| "type_code Type.Cname = 5"
| "type_code Type.Txt = 16"
| "type_code Type.Srv = 33"
| "type_code Type.Ptr = 12"
| "type_code Type.E = 266"

lemma code_inverses [simp]:
  "query_type_try_from (query_type_code q) = Some q" "query_class_try_from (query_class_code qc) = Some qc"
  "class_try_from (class_code c) = Some c" "type_try_from (type_code t) = Some t"
proof -
  show "query_type_try_from (query_type_code q) = Some q" by (cases q) (simp_all add: query_type_try_from_def)
  show "query_class_try_from (query_class_code qc) = Some qc" by (cases qc) (simp_all add: query_class_try_from_def)
  show "class_try_from (class_code c) = Some c" by (cases c) (simp_all add: class_try_from_def)
  show "type_try_from (type_code t) = Some t" by (cases t) (simp_all add: type_try_from_def)
qed

section \<open>Questions\<close>

record Question =
  q_name :: name
  prefer_unicast :: bool
  qtype :: QueryType
  qclass :: QueryClass

definition be_question :: "codec \<Rightarrow> bytes \<Rightarrow> bytes \<Rightarrow> Question ires" where
  "be_question C input origin =
     andthen (be_name C input origin) (\<lambda>remain name.
     andthen (nom_be_u16 C remain) (\<lambda>remain qt.
     andthen (nom_be_u16 C remain) (\<lambda>remain qc.
     case query_type_try_from qt of
       None \<Rightarrow> Inl (NomError remain Alt)
     | Some qt \<Rightarrow>
         let unicast = (qc AND 0x8000 = 0x8000);
             qc = qc AND 0x7FFF
         in case query_class_try_from qc of
              None \<Rightarrow> Inl (NomError remain Alt)
            | Some qc \<Rightarrow> Inr (remain, \<lparr>q_name = name, prefer_unicast = unicast, qtype = qt, qclass = qc\<rparr>))))"

section \<open>Resource records\<close>

record Srv =
  priority :: u16
  weight :: u16
  port :: u16
  target :: name

definition be_srv :: "codec \<Rightarrow> bytes \<Rightarrow> bytes \<Rightarrow> Srv ires" where
  "be_srv C input origin =
     andthen (nom_be_u16 C input) (\<lambda>remain p.
     andthen (nom_be_u16 C remain) (\<lambda>remain w.
     andthen (nom_be_u16 C remain) (\<lambda>remain pt.
     andthen (be_name C remain origin) (\<lambda>remain tg.
     Inr (remain, \<lparr>priority = p, weight = w, port = pt, target = tg\<rparr>)))))"

datatype Ptr = MkPtr (ptr_name: name)

definition be_ptr :: "codec \<Rightarrow> bytes \<Rightarrow> bytes \<Rightarrow> Ptr ires" where
  "be_ptr C input origin = andthen (be_name C input origin) (\<lambda>remain name. Inr (remain, MkPtr name))"

record Txt =
  txt_bytes :: bytes

datatype RData = A Ipv4Addr | AAAA Ipv6Addr | CName name | Txt Txt | Srv Srv | Ptr Ptr | E EndpointAddr

record ResourceRecord =
  rr_name :: name
  rr_typ :: Type
  multicast_unique :: bool
  cls :: Class
  ttl :: u32
  rdata :: RData

fun be_rdata :: "codec \<Rightarrow> home \<Rightarrow> bytes \<Rightarrow> bytes \<Rightarrow> Type \<Rightarrow> u16 \<Rightarrow> RData ires" where
  "be_rdata C H input origin Type.A rdlen = andthen (nom_be_u32 C input) (\<lambda>remain ip. Inr (remain, RData.A ip))"
| "be_rdata C H input origin Type.AAAA rdlen = andthen (nom_be_u128 C input) (\<lambda>remain ip. Inr (remain, RData.AAAA ip))"
| "be_rdata C H input origin Type.Cname rdlen = andthen (be_name C input origin) (\<lambda>remain name. Inr (remain, CName name))"
| "be_rdata C H input origin Type.Txt rdlen =
     andthen (nom_take C (unat rdlen) input) (\<lambda>remain txt. Inr (remain, RData.Txt \<lparr>txt_bytes = txt\<rparr>))"
| "be_rdata C H input origin Type.Srv rdlen = andthen (be_srv C input origin) (\<lambda>remain srv. Inr (remain, RData.Srv srv))"
| "be_rdata C H input origin Type.Ptr rdlen = andthen (be_ptr C input origin) (\<lambda>remain ptr. Inr (remain, RData.Ptr ptr))"
| "be_rdata C H input origin Ns rdlen = andthen (be_name C input origin) (\<lambda>remain name. Inr (remain, CName name))"
| "be_rdata C H input origin Type.E rdlen =
     andthen (be_endpoint_addr_compat C H input rdlen) (\<lambda>remain e. Inr (remain, RData.E e))"

definition be_record :: "codec \<Rightarrow> home \<Rightarrow> bytes \<Rightarrow> bytes \<Rightarrow> ResourceRecord ires" where
  "be_record C H input origin =
     andthen (be_name C input origin) (\<lambda>remain name.
     andthen (nom_be_u16 C remain) (\<lambda>remain ty.
     andthen (nom_be_u16 C remain) (\<lambda>remain cl.
     andthen (nom_be_u32 C remain) (\<lambda>remain ti.
     andthen (nom_be_u16 C remain) (\<lambda>remain rdlen.
     case type_try_from ty of
       None \<Rightarrow>
         if length remain < unat rdlen then Inl (Incomplete (unat rdlen - length remain))
         else Inl (NomError (buf_advance C (unat rdlen) remain) Alt)
     | Some ty \<Rightarrow>
         if length remain < unat rdlen then Inl (Incomplete (unat rdlen - length remain))
         else
           andthen (nom_take C (unat rdlen) remain) (\<lambda>remain_after_rdata rdata_bytes.
           andthen (be_rdata C H rdata_bytes origin ty rdlen) (\<lambda>rdata_remain rd.
           if rdata_remain \<noteq> [] then Inl (NomError remain_after_rdata Eof)
           else
             let unique = (cl AND 0x8000 = 0x8000);
                 cl = cl AND 0x7FFF
             in case class_try_from cl of
                  None \<Rightarrow>
                    if length remain_after_rdata < unat rdlen
                    then Inl (Incomplete (unat rdlen - length remain_after_rdata))
                    else Inl (NomError (buf_advance C (unat rdlen) remain_after_rdata) Alt)
                | Some cl \<Rightarrow>
                    Inr (remain_after_rdata, \<lparr>rr_name = name, rr_typ = ty, multicast_unique = unique,
                      cls = cl, ttl = ti, rdata = rd\<rparr>))))))))"

section \<open>Lemmas\<close>

declare to_be_numeral [simp del]

lemma query_class_bits:
  "(if u then query_class_code qc OR 0x8000 else query_class_code qc) AND 0x7FFF = query_class_code qc"
  "(if u then query_class_code qc OR 0x8000 else query_class_code qc) AND 0x8000 = 0x8000 \<longleftrightarrow> u"
  by (cases qc; simp)+

lemma class_bits:
  "(if u then class_code c OR 0x8000 else class_code c) AND 0x7FFF = class_code c"
  "(if u then class_code c OR 0x8000 else class_code c) AND 0x8000 = 0x8000 \<longleftrightarrow> u"
  by (cases c; simp)+

lemma class_try_from_masked: "class_try_from (v AND 0x7FFF) = class_try_from v"
  by (simp add: class_try_from_def and.assoc)

context codec_laws
begin

lemma be_varint_no_fuel [simp]: "be_varint C i \<noteq> Inl OutOfFuel"
  unfolding be_varint_def by (auto simp: andthen_eq_Inl Let_def split: if_splits)

lemma be_endpoint_no_fuel [simp]: "be_endpoint_addr_compat C H i rdlen \<noteq> Inl OutOfFuel"
proof -
  have addr [simp]: "be_socket_addr_v4 C j \<noteq> Inl OutOfFuel" "be_socket_addr_v6 C j \<noteq> Inl OutOfFuel" for j
    unfolding be_socket_addr_v4_def be_socket_addr_v6_def by (auto simp: andthen_eq_Inl)
  have sig [simp]: "be_endpoint_signature C j fl \<noteq> Inl OutOfFuel" for j fl
    unfolding be_endpoint_signature_def by (auto simp: andthen_eq_Inl split: if_splits)
  have "be_endpoint_addr C H i \<noteq> Inl OutOfFuel"
    unfolding be_endpoint_addr_def Let_def
    by (auto simp: andthen_eq_Inl split: if_splits option.splits)
  moreover have "be_legacy_endpoint_addr_by_length C i rdlen \<noteq> Inl OutOfFuel"
    unfolding be_legacy_endpoint_addr_by_length_def by (auto simp: andthen_eq_Inl split: if_splits)
  ultimately show ?thesis
    by (auto simp: be_endpoint_addr_compat_def Let_def split: sum.splits)
qed

lemma be_question_no_fuel [simp]: "be_question C i origin \<noteq> Inl OutOfFuel"
  unfolding be_question_def Let_def
  by (auto simp: andthen_eq_Inl split: option.splits)

lemma be_rdata_no_fuel [simp]: "be_rdata C H i origin t rdlen \<noteq> Inl OutOfFuel"
proof -
  have "be_srv C i origin \<noteq> Inl OutOfFuel" "be_ptr C i origin \<noteq> Inl OutOfFuel"
    unfolding be_srv_def be_ptr_def by (auto simp: andthen_eq_Inl)
  then show ?thesis by (cases t) (auto simp: andthen_eq_Inl)
qed

lemma be_record_no_fuel [simp]: "be_record C H i origin \<noteq> Inl OutOfFuel"
  unfolding be_record_def Let_def
  by (auto simp: andthen_eq_Inl split: if_splits option.splits)

lemma be_question_layout:
  assumes "\<And>t. be_name C (h @ t) origin = Inr (t, n)"
  shows "be_question C (h @ to_be 2 (query_type_code qt) @
      to_be 2 (if u then query_class_code qc OR 0x8000 else query_class_code qc) @ r) origin =
    Inr (r, \<lparr>q_name = n, prefer_unicast = u, qtype = qt, qclass = qc\<rparr>)"
  by (simp only: be_question_def assms andthen.simps read_laws code_inverses query_class_bits
      option.simps Let_def)

lemma be_record_header:
  assumes "\<And>t. be_name C (h @ t) origin = Inr (t, n)" and "length d < 65536"
  shows "be_record C H (h @ to_be 2 tc @ to_be 2 cl @ to_be 4 ti @ to_be 2 (of_nat (length d) :: u16) @ d @ r) origin =
    (case type_try_from tc of
       None \<Rightarrow> Inl (NomError r Alt)
     | Some ty \<Rightarrow> andthen (be_rdata C H d origin ty (of_nat (length d))) (\<lambda>rdata_remain rd.
         if rdata_remain \<noteq> [] then Inl (NomError r Eof)
         else case class_try_from (cl AND 0x7FFF) of
                None \<Rightarrow> if length r < length d then Inl (Incomplete (length d - length r))
                        else Inl (NomError (drop (length d) r) Alt)
              | Some c \<Rightarrow> Inr (r, \<lparr>rr_name = n, rr_typ = ty, multicast_unique = (cl AND 0x8000 = 0x8000),
                  cls = c, ttl = ti, rdata = rd\<rparr>)))"
proof -
  have u: "unat (of_nat (length d) :: u16) = length d" using assms(2) by (simp add: unat_of_nat)
  have step: "nom_take C (length d) (d @ r) = Inr (r, d)" by (rule read_take)
  have adv: "buf_advance C (length d) (d @ r) = r" "length d \<le> length r \<Longrightarrow> buf_advance C (length d) r = drop (length d) r"
    by (simp_all add: advance)
  show ?thesis
    unfolding be_record_def Let_def assms(1) andthen.simps read_laws u
    using step adv
    by (cases "type_try_from tc"; cases "class_try_from (cl AND 0x7FFF)")
      (auto simp: not_less intro!: arg_cong [where f = "andthen _"] ext)
qed

lemma be_record_layout:
  assumes "\<And>t. be_name C (h @ t) origin = Inr (t, n)" and "length d < 65536"
    and "be_rdata C H d origin ty (of_nat (length d)) = Inr ([], rd)"
  shows "be_record C H (h @ to_be 2 (type_code ty) @ to_be 2 (if u then class_code c OR 0x8000 else class_code c) @
      to_be 4 ti @ to_be 2 (of_nat (length d) :: u16) @ d @ r) origin =
    Inr (r, \<lparr>rr_name = n, rr_typ = ty, multicast_unique = u, cls = c, ttl = ti, rdata = rd\<rparr>)"
  unfolding be_record_header [OF assms(1,2)] class_bits using assms(3) by simp

end

section \<open>Properties\<close>

text \<open>C34: How the record reader skips what it does not know. A record of unknown type is passed over
  exactly: the error points at the bytes behind its data, where the next record starts. A record
  of a known type but unknown class is not: the error points another \<open>RDLENGTH\<close> bytes further, so
  the section resumes inside, or beyond, the record that follows.\<close>

theorem be_record_skips_unknown:
  assumes "codec_laws C" and "\<And>t. be_name C (h @ t) origin = Inr (t, n)" and "length d < 65536"
  shows "(type_try_from tc = None \<longrightarrow>
      be_record C H (h @ to_be 2 tc @ to_be 2 cl @ to_be 4 (ti :: u32) @ to_be 2 (of_nat (length d) :: u16) @ d @ r) origin =
        Inl (NomError r Alt)) \<and>
    (type_try_from tc = Some ty \<and> be_rdata C H d origin ty (of_nat (length d)) = Inr ([], rd) \<and>
     class_try_from (cl AND 0x7FFF) = None \<and> length d \<le> length r \<longrightarrow>
      be_record C H (h @ to_be 2 tc @ to_be 2 cl @ to_be 4 (ti :: u32) @ to_be 2 (of_nat (length d) :: u16) @ d @ r) origin =
        Inl (NomError (drop (length d) r) Alt))"
  unfolding codec_laws.be_record_header [OF assms] by (auto simp: not_less)

lemma ref_root_name: "be_name ref_codec ([0] @ t) origin = Inr (t, [dot])"
  using refc.be_name_wire [OF wire_name.wire_root] by simp

theorem be_record_skips_unknown_witness:
  "be_record ref_codec ref_home ([0] @ to_be 2 (1 :: u16) @ to_be 2 (9 :: u16) @ to_be 4 (300 :: u32) @ to_be 2 (of_nat (length [1, 2, 3, 4 :: u8]) :: u16) @
      [1, 2, 3, 4] @ [0, 0, 1, 0, 1]) [] = Inl (NomError [1] Alt)"
proof -
  have "type_try_from 1 = Some Type.A" "class_try_from (9 AND 0x7FFF) = None"
    by (simp_all add: type_try_from_def class_try_from_def)
  moreover have "be_rdata ref_codec ref_home [1, 2, 3, 4] [] Type.A (of_nat (length [1, 2, 3, 4 :: u8])) = Inr ([], RData.A 0x01020304)"
    by (simp add: ref_codec_simps)
  ultimately show ?thesis
    using be_record_skips_unknown [OF refc.codec_laws_axioms ref_root_name [of _ "[]"], of "[1, 2, 3, 4]" 1 ref_home 9 300
      "[0, 0, 1, 0, 1]" Type.A "RData.A 0x01020304"] by simp
qed

end
