(* ===== verification/Header.thy ===== *)
theory Header
  imports Varint
begin

text \<open>
  The twelve-byte message header (\<^verbatim>\<open>src/core/parser/header.rs\<close>). The flags word is a \<open>u16\<close>; its
  fields are laid out from the most significant bit in the order the struct declares them
  (\<^verbatim>\<open>#[bitfield(u16, order = Msb)]\<close>), which is the diagram in the source: QR, four bits of
  opcode, AA, TC, RD, RA, Z, AD, CD and four bits of response code.
\<close>

type_synonym Flags = u16

datatype Opcode = StandardQuery | InverseQuery | ServerStatusRequest | Reserved u8

fun opcode_into_bits :: "Opcode \<Rightarrow> u8" where
  "opcode_into_bits StandardQuery = 0"
| "opcode_into_bits InverseQuery = 1"
| "opcode_into_bits ServerStatusRequest = 2"
| "opcode_into_bits (Opcode.Reserved v) = v"

definition opcode_from_bits :: "u8 \<Rightarrow> Opcode" where
  "opcode_from_bits v =
     (if v = 0 then StandardQuery else if v = 1 then InverseQuery
      else if v = 2 then ServerStatusRequest else Opcode.Reserved v)"

datatype ResponseCode = NoError | FormatError | ServerFailure | NameError | NotImplemented | Refused | Reserved u8

fun rcode_into_bits :: "ResponseCode \<Rightarrow> u8" where
  "rcode_into_bits NoError = 0"
| "rcode_into_bits FormatError = 1"
| "rcode_into_bits ServerFailure = 2"
| "rcode_into_bits NameError = 3"
| "rcode_into_bits NotImplemented = 4"
| "rcode_into_bits Refused = 5"
| "rcode_into_bits (ResponseCode.Reserved v) = v"

definition rcode_from_bits :: "u8 \<Rightarrow> ResponseCode" where
  "rcode_from_bits v =
     (if v = 0 then NoError else if v = 1 then FormatError else if v = 2 then ServerFailure
      else if v = 3 then NameError else if v = 4 then NotImplemented else if v = 5 then Refused
      else ResponseCode.Reserved v)"

text \<open>The fields of the flags word: one bit \<open>i\<close>, or the four bits from \<open>i\<close> on.\<close>

definition Flags_new :: Flags where
  "Flags_new = 0"

definition flag_bits4 :: "nat \<Rightarrow> Flags \<Rightarrow> u8" where
  "flag_bits4 i fl = ucast (take_bit 4 (drop_bit i fl))"

definition flag_query :: "Flags \<Rightarrow> bool" where "flag_query fl \<longleftrightarrow> bit fl 15"
definition flag_opcode :: "Flags \<Rightarrow> Opcode" where "flag_opcode fl = opcode_from_bits (flag_bits4 11 fl)"
definition flag_authoritative :: "Flags \<Rightarrow> bool" where "flag_authoritative fl \<longleftrightarrow> bit fl 10"
definition flag_recursion_desired :: "Flags \<Rightarrow> bool" where "flag_recursion_desired fl \<longleftrightarrow> bit fl 8"
definition flag_response_code :: "Flags \<Rightarrow> ResponseCode" where
  "flag_response_code fl = rcode_from_bits (flag_bits4 0 fl)"

definition set_query :: "bool \<Rightarrow> Flags \<Rightarrow> Flags" where
  "set_query b fl = (if b then set_bit 15 fl else unset_bit 15 fl)"

record Header =
  header_id :: u16
  flags :: Flags
  questions_count :: u16
  answers_count :: u16
  nameservers_count :: u16
  additional_count :: u16

text \<open>The source sets the fields of \<open>Header::default\<close>'s flags on a temporary copy; the header
  keeps the word as \<^verbatim>\<open>Flags::new\<close> made it.\<close>

definition Header_default :: Header where
  "Header_default = \<lparr>header_id = 0, flags = Flags_new, questions_count = 0, answers_count = 0,
     nameservers_count = 0, additional_count = 0\<rparr>"

definition be_header :: "codec \<Rightarrow> bytes \<Rightarrow> Header ires" where
  "be_header C input =
     andthen (nom_be_u16 C input) (\<lambda>remain i.
     andthen (nom_be_u16 C remain) (\<lambda>remain fl.
     andthen (nom_be_u16 C remain) (\<lambda>remain questions.
     andthen (nom_be_u16 C remain) (\<lambda>remain answers.
     andthen (nom_be_u16 C remain) (\<lambda>remain nameservers.
     andthen (nom_be_u16 C remain) (\<lambda>remain additional.
     Inr (remain, \<lparr>header_id = i, flags = fl, questions_count = questions, answers_count = answers,
       nameservers_count = nameservers, additional_count = additional\<rparr>)))))))"

definition put_header :: "codec \<Rightarrow> bytes \<Rightarrow> Header \<Rightarrow> bytes" where
  "put_header C buf h =
     (let buf = buf_put_u16 C buf (header_id h);
          buf = buf_put_u16 C buf (flags h);
          buf = buf_put_u16 C buf (questions_count h);
          buf = buf_put_u16 C buf (answers_count h);
          buf = buf_put_u16 C buf (nameservers_count h)
      in buf_put_u16 C buf (additional_count h))"

section \<open>The header format\<close>

definition header_bytes :: "Header \<Rightarrow> bytes" where
  "header_bytes h = to_be 2 (header_id h) @ to_be 2 (flags h) @ to_be 2 (questions_count h) @
     to_be 2 (answers_count h) @ to_be 2 (nameservers_count h) @ to_be 2 (additional_count h)"

lemma length_header_bytes [simp]: "length (header_bytes h) = 12"
  by (simp add: header_bytes_def)

context codec_laws
begin

lemma put_header_bytes: "put_header C buf h = buf @ header_bytes h"
  by (simp add: put_header_def put_laws header_bytes_def Let_def del: to_be_numeral)

lemma be_header_iff: "be_header C i = Inr (r, h) \<longleftrightarrow> i = header_bytes h @ r"
  unfolding be_header_def header_bytes_def
  by (cases h) (auto simp: andthen_eq_Inr be_u16_iff read_u16 simp del: to_be_numeral)

lemma be_u16_some: "2 \<le> length i \<Longrightarrow> \<exists>r v. nom_be_u16 C i = Inr (r, v) \<and> length i = 2 + length r"
  using be_u16_enough [of "take 2 i" "drop 2 i"] by auto

lemma be_header_enough:
  assumes "12 \<le> length i"
  shows "\<exists>r h. be_header C i = Inr (r, h) \<and> length i = 12 + length r"
proof -
  obtain r1 v1 where 1: "nom_be_u16 C i = Inr (r1, v1)" "length i = 2 + length r1" using be_u16_some [of i] assms by auto
  obtain r2 v2 where 2: "nom_be_u16 C r1 = Inr (r2, v2)" "length r1 = 2 + length r2" using be_u16_some [of r1] 1 assms by auto
  obtain r3 v3 where 3: "nom_be_u16 C r2 = Inr (r3, v3)" "length r2 = 2 + length r3" using be_u16_some [of r2] 1 2 assms by auto
  obtain r4 v4 where 4: "nom_be_u16 C r3 = Inr (r4, v4)" "length r3 = 2 + length r4" using be_u16_some [of r3] 1 2 3 assms by auto
  obtain r5 v5 where 5: "nom_be_u16 C r4 = Inr (r5, v5)" "length r4 = 2 + length r5" using be_u16_some [of r4] 1 2 3 4 assms by auto
  obtain r6 v6 where 6: "nom_be_u16 C r5 = Inr (r6, v6)" "length r5 = 2 + length r6" using be_u16_some [of r5] 1 2 3 4 5 assms by auto
  from 1 2 3 4 5 6 show ?thesis by (simp add: be_header_def)
qed

lemma be_header_err: "be_header C i = Inl e \<Longrightarrow> is_incomplete (Inl e :: nom_err + unit)"
  unfolding be_header_def by (auto simp: andthen_eq_Inl dest: be_u16_err)

end

sublocale codec_laws \<subseteq> hd: wire_format header_bytes "be_header C" "\<lambda>_. True"
  by unfold_locales (simp add: be_header_iff)

section \<open>Flags\<close>

lemma set_query_flags [simp]:
  "flag_query (set_query b fl) = b" "flag_opcode (set_query b fl) = flag_opcode fl"
  "flag_response_code (set_query b fl) = flag_response_code fl"
  "flag_authoritative (set_query b fl) = flag_authoritative fl"
  "flag_recursion_desired (set_query b fl) = flag_recursion_desired fl"
proof -
  have "flag_bits4 11 (set_query b fl) = flag_bits4 11 fl" "flag_bits4 0 (set_query b fl) = flag_bits4 0 fl"
    unfolding flag_bits4_def set_query_def by (auto intro!: bit_word_eqI simp: bit_simps)
  then show "flag_opcode (set_query b fl) = flag_opcode fl"
    "flag_response_code (set_query b fl) = flag_response_code fl"
    by (simp_all add: flag_opcode_def flag_response_code_def)
qed (auto simp: flag_query_def flag_authoritative_def flag_recursion_desired_def set_query_def bit_simps)

lemma rcode_bits [simp]: "rcode_into_bits (rcode_from_bits v) = v"
  by (simp add: rcode_from_bits_def)

lemma opcode_bits [simp]: "opcode_into_bits (opcode_from_bits v) = v"
  by (simp add: opcode_from_bits_def)

section \<open>Properties\<close>

text \<open>The header codec is exact: the writer appends twelve bytes which the reader turns back
  into the header, and conversely whatever header the reader returns, the writer reproduces the
  bytes it was read from.\<close>

theorem header_roundtrip:
  assumes "codec_laws C"
  shows "be_header C (put_header C [] h @ r) = Inr (r, h) \<and> length (put_header C [] h) = 12 \<and>
    (be_header C i = Inr (r, h) \<longleftrightarrow> i = put_header C [] h @ r)"
  using codec_laws.put_header_bytes [OF assms] codec_laws.be_header_iff [OF assms] by simp

theorem header_roundtrip_witness:
  "be_header ref_codec (put_header ref_codec [] (Header_default\<lparr>header_id := 1573, questions_count := 1\<rparr>) @ [7]) =
     Inr ([7], Header_default\<lparr>header_id := 1573, questions_count := 1\<rparr>) \<and>
   length (put_header ref_codec [] (Header_default\<lparr>header_id := 1573, questions_count := 1\<rparr>)) = 12 \<and>
   (be_header ref_codec [] = Inr ([7], Header_default\<lparr>header_id := 1573, questions_count := 1\<rparr>) \<longleftrightarrow>
     [] = put_header ref_codec [] (Header_default\<lparr>header_id := 1573, questions_count := 1\<rparr>) @ [7])"
  by (rule header_roundtrip [OF refc.codec_laws_axioms])

end
