(* ===== verification/Packet.thy ===== *)
theory Packet
  imports Records Header
begin

text \<open>
  Whole messages (\<^verbatim>\<open>src/core/parser/packet.rs\<close>): building, writing with name compression across
  sections, and reading with a bound on the section counts. \<open>to_bytes\<close> threads the buffer and
  the compression context through the sections; \<open>put_record\<close> writes a placeholder for \<open>RDLENGTH\<close>
  and patches it afterwards, as the source does.
\<close>

record Packet =
  header :: Header
  questions :: "Question list"
  answers :: "ResourceRecord list"
  nameservers :: "ResourceRecord list"
  additional :: "ResourceRecord list"

definition Packet_default :: Packet where
  "Packet_default = \<lparr>header = Header_default, questions = [], answers = [], nameservers = [], additional = []\<rparr>"

definition packet_id :: "Packet \<Rightarrow> u16" where
  "packet_id p = header_id (header p)"

definition is_query :: "Packet \<Rightarrow> bool" where
  "is_query p = flag_query (flags (header p))"

text \<open>The counters are \<^verbatim>\<open>u16\<close>; in a release build the addition wraps.\<close>

definition add_question :: "name \<Rightarrow> QueryType \<Rightarrow> QueryClass \<Rightarrow> bool \<Rightarrow> Packet \<Rightarrow> Packet" where
  "add_question qname qt qc unicast p =
     (let question = \<lparr>q_name = qname, prefer_unicast = unicast, qtype = qt, qclass = qc\<rparr>;
          h = header p
      in p\<lparr>header := h\<lparr>questions_count := questions_count h + 1\<rparr>, questions := questions p @ [question]\<rparr>)"

definition add_answer :: "name \<Rightarrow> Type \<Rightarrow> Class \<Rightarrow> u32 \<Rightarrow> RData \<Rightarrow> Packet \<Rightarrow> Packet" where
  "add_answer name rtype rclass ti data p =
     (let response = \<lparr>rr_name = name, rr_typ = rtype, multicast_unique = False, cls = rclass, ttl = ti, rdata = data\<rparr>;
          h = header p;
          h = h\<lparr>flags := set_query True (flags h)\<rparr>;
          h = h\<lparr>answers_count := answers_count h + 1\<rparr>
      in p\<lparr>header := h, answers := answers p @ [response]\<rparr>)"

text \<open>\<open>rnd\<close> is what \<^verbatim>\<open>rand::random\<close> returned.\<close>

definition query_with_id :: "u16 \<Rightarrow> name \<Rightarrow> Packet" where
  "query_with_id rnd service_name =
     (let p = Packet_default;
          h = (header p)\<lparr>header_id := rnd\<rparr>;
          h = h\<lparr>flags := set_query False (flags h)\<rparr>
      in add_question service_name QueryType.A QueryClass.IN False (p\<lparr>header := h\<rparr>))"

definition query :: "name \<Rightarrow> Packet" where
  "query service_name = add_question service_name QueryType.A QueryClass.IN True Packet_default"

text \<open>\<open>hosts\<close> is the map in the order its iterator yields the entries.\<close>

definition answer :: "u16 \<Rightarrow> (name \<times> EndpointAddr list) list \<Rightarrow> Packet" where
  "answer i hosts =
     (let p = Packet_default;
          h = (header p)\<lparr>header_id := i\<rparr>;
          h = h\<lparr>flags := set_query True (flags h)\<rparr>
      in fold (\<lambda>(name, eps) p. fold (\<lambda>ep p. add_answer name Type.E Class.IN 300 (RData.E ep) p) eps p)
           hosts (p\<lparr>header := h\<rparr>))"

section \<open>Writing\<close>

definition put_srv :: "codec \<Rightarrow> bytes \<Rightarrow> Srv \<Rightarrow> NameCompression \<Rightarrow> bytes \<times> NameCompression" where
  "put_srv C buf srv ctx =
     (let buf = buf_put_u16 C buf (priority srv);
          buf = buf_put_u16 C buf (weight srv);
          buf = buf_put_u16 C buf (port srv)
      in put_name C buf (target srv) ctx)"

text \<open>The \<^verbatim>\<open>match &record.data\<close> of \<open>put_record\<close>.\<close>

fun put_rdata :: "codec \<Rightarrow> bytes \<Rightarrow> RData \<Rightarrow> NameCompression \<Rightarrow> (bytes \<times> NameCompression) option" where
  "put_rdata C buf (RData.A ip) ctx = Some (buf_put_slice C buf (to_be 4 ip), ctx)"
| "put_rdata C buf (RData.AAAA ip) ctx = Some (buf_put_slice C buf (to_be 16 ip), ctx)"
| "put_rdata C buf (CName name) ctx = Some (put_name C buf name ctx)"
| "put_rdata C buf (RData.Txt txt) ctx = Some (buf_put_slice C buf (txt_bytes txt), ctx)"
| "put_rdata C buf (RData.Srv srv) ctx = Some (put_srv C buf srv ctx)"
| "put_rdata C buf (RData.Ptr ptr) ctx = Some (put_name C buf (ptr_name ptr) ctx)"
| "put_rdata C buf (RData.E e) ctx = map_option (\<lambda>buf. (buf, ctx)) (put_endpoint_addr C buf e)"

definition put_record :: "codec \<Rightarrow> bytes \<Rightarrow> ResourceRecord \<Rightarrow> NameCompression \<Rightarrow> (bytes \<times> NameCompression) option" where
  "put_record C buf rr ctx =
     (let (buf, ctx) = put_name C buf (rr_name rr) ctx;
          buf = buf_put_u16 C buf (type_code (rr_typ rr));
          cl = (if multicast_unique rr then class_code (cls rr) OR 0x8000 else class_code (cls rr));
          buf = buf_put_u16 C buf cl;
          buf = buf_put_u32 C buf (ttl rr);
          rdlen_pos = length buf;
          buf = buf_put_u16 C buf 0;
          rdata_start = length buf
      in do {
        (buf, ctx) \<leftarrow> put_rdata C buf (rdata rr) ctx;
        let rdlen = (of_nat (length buf - rdata_start) :: u16);
        let hi = to_be 2 rdlen ! 0;
        let lo = to_be 2 rdlen ! 1;
        Some (buf[rdlen_pos := hi, rdlen_pos + 1 := lo], ctx)
      })"

fun put_questions :: "codec \<Rightarrow> bytes \<Rightarrow> NameCompression \<Rightarrow> Question list \<Rightarrow> bytes \<times> NameCompression" where
  "put_questions C buf ctx [] = (buf, ctx)"
| "put_questions C buf ctx (q # qs) =
     (let (buf, ctx) = put_name C buf (q_name q) ctx;
          buf = buf_put_u16 C buf (query_type_code (qtype q));
          qc = (if prefer_unicast q then query_class_code (qclass q) OR 0x8000 else query_class_code (qclass q));
          buf = buf_put_u16 C buf qc
      in put_questions C buf ctx qs)"

fun put_records :: "codec \<Rightarrow> bytes \<Rightarrow> NameCompression \<Rightarrow> ResourceRecord list \<Rightarrow> (bytes \<times> NameCompression) option" where
  "put_records C buf ctx [] = Some (buf, ctx)"
| "put_records C buf ctx (rr # rrs) =
     do { (buf, ctx) \<leftarrow> put_record C buf rr ctx; put_records C buf ctx rrs }"

definition to_bytes :: "codec \<Rightarrow> Packet \<Rightarrow> bytes option" where
  "to_bytes C p =
     (let ctx = NameCompression_new;
          buf = put_header C [] (header p);
          (buf, ctx) = put_questions C buf ctx (questions p)
      in do {
        (buf, ctx) \<leftarrow> put_records C buf ctx (answers p);
        (buf, ctx) \<leftarrow> put_records C buf ctx (nameservers p);
        (buf, ctx) \<leftarrow> put_records C buf ctx (additional p);
        Some buf
      })"

section \<open>Reading\<close>

definition MIN_QUESTION_WIRE_LEN :: nat where "MIN_QUESTION_WIRE_LEN = 5"
definition MIN_RESOURCE_RECORD_WIRE_LEN :: nat where "MIN_RESOURCE_RECORD_WIRE_LEN = 11"

definition validate_section_counts :: "bytes \<Rightarrow> Header \<Rightarrow> unit ires" where
  "validate_section_counts input h =
     (let question_bytes = checked_mul (unat (questions_count h)) MIN_QUESTION_WIRE_LEN;
          record_count = checked_add (unat (answers_count h)) (unat (nameservers_count h)) \<bind>
            (\<lambda>count. checked_add count (unat (additional_count h)));
          minimum_wire_len = question_bytes \<bind> (\<lambda>qb.
            record_count \<bind> (\<lambda>count. checked_mul count MIN_RESOURCE_RECORD_WIRE_LEN) \<bind> (\<lambda>rb. checked_add qb rb))
      in case minimum_wire_len of
           None \<Rightarrow> Inl (NomFailure input Verify)
         | Some len \<Rightarrow> if len > length input then Inl (NomFailure input Verify) else Inr (input, ()))"

fun parse :: "(bytes \<Rightarrow> bytes \<Rightarrow> 'a ires) \<Rightarrow> bytes \<Rightarrow> nat \<Rightarrow> bytes \<Rightarrow> 'a list \<Rightarrow> 'a list ires" where
  "parse parser original 0 input records = Inr (input, records)"
| "parse parser original (Suc n) input records =
     (case parser input original of
        Inr (new_input, record) \<Rightarrow> parse parser original n new_input (records @ [record])
      | Inl (NomError remaining _) \<Rightarrow> parse parser original n remaining records
      | Inl OutOfFuel \<Rightarrow> Inl OutOfFuel
      | Inl _ \<Rightarrow> Inr (input, records))"

definition be_packet :: "codec \<Rightarrow> home \<Rightarrow> bytes \<Rightarrow> Packet ires" where
  "be_packet C H input =
     andthen (be_header C input) (\<lambda>remain h.
     andthen (validate_section_counts remain h) (\<lambda>remain _.
     andthen (parse (be_question C) input (unat (questions_count h)) remain []) (\<lambda>remain qs.
     andthen (parse (be_record C H) input (unat (answers_count h)) remain []) (\<lambda>remain ans.
     andthen (parse (be_record C H) input (unat (nameservers_count h)) remain []) (\<lambda>remain nss.
     andthen (parse (be_record C H) input (unat (additional_count h)) remain []) (\<lambda>remain adds.
     Inr (remain, \<lparr>header = h, questions = qs, answers = ans, nameservers = nss, additional = adds\<rparr>)))))))"

section \<open>Lemmas on reading\<close>

lemma validate_section_counts_iff:
  "validate_section_counts i h =
     (if 5 * unat (questions_count h) + 11 * (unat (answers_count h) + unat (nameservers_count h) + unat (additional_count h))
         \<le> length i then Inr (i, ()) else Inl (NomFailure i Verify))"
proof -
  have "unat (w :: u16) < 65536" for w using unsigned_less [of w] by simp
  then have b: "unat (questions_count h) < 65536" "unat (answers_count h) < 65536"
    "unat (nameservers_count h) < 65536" "unat (additional_count h) < 65536" by blast+
  then have "unat (questions_count h) * 5 < 2 ^ 64" "unat (answers_count h) + unat (nameservers_count h) < 2 ^ 64"
    "unat (answers_count h) + unat (nameservers_count h) + unat (additional_count h) < 2 ^ 64"
    "(unat (answers_count h) + unat (nameservers_count h) + unat (additional_count h)) * 11 < 2 ^ 64"
    "unat (questions_count h) * 5 + (unat (answers_count h) + unat (nameservers_count h) + unat (additional_count h)) * 11 < 2 ^ 64"
    by simp_all
  then show ?thesis
    by (simp add: validate_section_counts_def checked_mul_def checked_add_def MIN_QUESTION_WIRE_LEN_def
        MIN_RESOURCE_RECORD_WIRE_LEN_def not_le mult.commute)
qed

lemma parse_total:
  assumes "\<And>i. parser i m \<noteq> Inl OutOfFuel"
  shows "\<exists>r xs. parse parser m n i acc = Inr (r, acc @ xs) \<and> length xs \<le> n"
proof (induction n arbitrary: i acc)
  case (Suc n)
  have IH: "\<exists>r xs. parse parser m n j acc = Inr (r, acc @ xs) \<and> length xs \<le> Suc n" for j
    using Suc.IH [of j acc] by (meson le_SucI)
  show ?case
  proof (cases "parser i m")
    case (Inl e)
    then show ?thesis using assms [of i] IH by (cases e) auto
  next
    case (Inr y)
    then show ?thesis using Suc.IH [of "fst y" "acc @ [snd y]"] by (cases y) auto
  qed
qed simp

lemma parse_append:
  assumes "\<And>r. parser (h @ r) m = Inr (r, x)"
  shows "parse parser m (Suc n) (h @ r) acc = parse parser m n r (acc @ [x])"
  using assms by simp

section \<open>What the writers append\<close>

declare to_be_numeral [simp del]

lemma length_canonical_name:
  "name_labels n \<noteq> [] \<Longrightarrow> length (canonical_name n) + 1 = length (concat (name_labels n)) + length (name_labels n)"
proof -
  have "ls \<noteq> [] \<Longrightarrow> length (join_with [dot] ls) + 1 = length (concat ls) + length ls" for ls
    by (induction "[dot]" ls rule: join_with.induct) auto
  then show "name_labels n \<noteq> [] \<Longrightarrow> ?thesis" by (simp add: canonical_name_def)
qed

lemma wire_name_length: "wire_name m s h ls \<Longrightarrow> length h \<le> length (concat ls) + length ls + 2"
  by (induction rule: wire_name.induct) auto

text \<open>A name in canonical form and within the length limit of RFC 1035.\<close>

definition name_fits :: "name \<Rightarrow> bool" where
  "name_fits n \<longleftrightarrow> name_ok n \<and> canonical_name n = n \<and> length n \<le> 255"

fun rdata_ok :: "home \<Rightarrow> RData \<Rightarrow> bool" where
  "rdata_ok H (RData.A ip) = True"
| "rdata_ok H (RData.AAAA ip) = True"
| "rdata_ok H (CName n) = name_fits n"
| "rdata_ok H (RData.Txt t) = (length (txt_bytes t) < 65536)"
| "rdata_ok H (RData.Srv s) = name_fits (target s)"
| "rdata_ok H (RData.Ptr p) = name_fits (ptr_name p)"
| "rdata_ok H (RData.E e) = (ep_wf H e \<and> length (endpoint_bytes e) < 65536)"

fun type_matches :: "Type \<Rightarrow> RData \<Rightarrow> bool" where
  "type_matches t (RData.A _) = (t = Type.A)"
| "type_matches t (RData.AAAA _) = (t = Type.AAAA)"
| "type_matches t (CName _) = (t = Type.Cname \<or> t = Ns)"
| "type_matches t (RData.Txt _) = (t = Type.Txt)"
| "type_matches t (RData.Srv _) = (t = Type.Srv)"
| "type_matches t (RData.Ptr _) = (t = Type.Ptr)"
| "type_matches t (RData.E _) = (t = Type.E)"

definition rr_ok :: "home \<Rightarrow> ResourceRecord \<Rightarrow> bool" where
  "rr_ok H rr \<longleftrightarrow> name_fits (rr_name rr) \<and> type_matches (rr_typ rr) (rdata rr) \<and> rdata_ok H (rdata rr)"

definition question_ok :: "Question \<Rightarrow> bool" where
  "question_ok q \<longleftrightarrow> name_fits (q_name q)"

definition packet_ok :: "home \<Rightarrow> Packet \<Rightarrow> bool" where
  "packet_ok H p \<longleftrightarrow>
     unat (questions_count (header p)) = length (questions p) \<and> unat (answers_count (header p)) = length (answers p) \<and>
     unat (nameservers_count (header p)) = length (nameservers p) \<and>
     unat (additional_count (header p)) = length (additional p) \<and>
     list_all question_ok (questions p) \<and> list_all (rr_ok H) (answers p) \<and> list_all (rr_ok H) (nameservers p) \<and>
     list_all (rr_ok H) (additional p)"

context codec_laws
begin

lemma put_name_fits:
  assumes "put_name C buf n ctx = (buf', ctx')" "ctx_ok buf ctx" "name_fits n"
  shows "\<exists>h. buf' = buf @ h \<and> ctx_ok buf' ctx' \<and> 0 < length h \<and> length h \<le> 258 \<and>
    (\<forall>u r. be_name C (h @ r) (buf' @ u) = Inr (r, n))"
proof -
  have ok: "name_ok n" and c: "canonical_name n = n" and l: "length n \<le> 255" using assms(3) by (auto simp: name_fits_def)
  obtain h where h: "buf' = buf @ h" "wire_name buf' (length buf) h (name_labels n)" "ctx_ok buf' ctx'"
    using put_name_spec [OF assms(1,2) ok] by blast
  have "length (concat (name_labels n)) + length (name_labels n) \<le> 256"
  proof (cases "name_labels n = []")
    case False
    from length_canonical_name [OF this] show ?thesis using c l by simp
  qed simp
  then have "length h \<le> 258" using wire_name_length [OF h(2)] by simp
  moreover have "be_name C (h @ r) (buf' @ u) = Inr (r, n)" for u r
    using be_name_wire [OF wire_name_append [OF h(2)], of r u] c unfolding canonical_name_def [symmetric] by simp
  ultimately show ?thesis using h wire_name_not_Nil [OF h(2)] by blast
qed

lemma put_endpoint_some: "\<exists>h. \<forall>buf. put_endpoint_addr C buf ep = Some (buf @ h)"
proof -
  have "into_inner (sig_len_varint g) \<le> VARINT_MAX" for g
    by (auto simp: sig_len_varint_def from_u64_def from_u32_def VARINT_MAX_def split: sum.splits)
  then have "put_varint C buf (sig_len_varint g) = Some (buf @ varint_bytes (into_inner (sig_len_varint g)))" for buf g
    using put_varint_bytes by (metis VarInt.exhaust into_inner.simps)
  then show ?thesis
    by (cases "signature ep") (auto simp: put_endpoint_addr_def write_base_bytes put_laws Let_def)
qed

lemma put_rdata_uniform: "\<exists>h c. \<forall>buf. length buf = n \<longrightarrow> put_rdata C buf d ctx = Some (buf @ h, c)"
proof (cases d)
  case (Srv s)
  obtain h c where "\<forall>buf. length buf = n + 6 \<longrightarrow> put_name C buf (target s) ctx = (buf @ h, c)"
    using put_name_uniform by blast
  then have "put_rdata C buf d ctx = Some (buf @ (to_be 2 (priority s) @ to_be 2 (weight s) @ to_be 2 (port s) @ h), c)"
    if "length buf = n" for buf using that Srv by (simp add: put_srv_def put_laws Let_def)
  then show ?thesis by blast
next
  case (E e)
  then show ?thesis using put_endpoint_some [of e] by fastforce
qed (use put_name_uniform in \<open>auto simp: put_laws\<close>)

lemma put_rdata_spec:
  assumes "put_rdata C buf d ctx = Some (buf', ctx')" "ctx_ok buf ctx" "rdata_ok H d"
  shows "\<exists>h. buf' = buf @ h \<and> ctx_ok buf' ctx' \<and> length h < 65536 \<and>
    (\<forall>u t. type_matches t d \<longrightarrow> be_rdata C H h (buf' @ u) t (of_nat (length h)) = Inr ([], d))"
proof (cases d)
  case (CName n)
  then obtain h where h: "buf' = buf @ h" "ctx_ok buf' ctx'" "length h \<le> 258" "\<And>u r. be_name C (h @ r) (buf' @ u) = Inr (r, n)"
    using put_name_fits [of buf n ctx buf' ctx'] assms by auto
  have "be_name C h (buf' @ u) = Inr ([], n)" for u using h(4) [of "[]"] by simp
  with h(1-3) CName show ?thesis by (intro exI [of _ h]) auto
next
  case (Ptr q)
  then obtain h where h: "buf' = buf @ h" "ctx_ok buf' ctx'" "length h \<le> 258"
    "\<And>u r. be_name C (h @ r) (buf' @ u) = Inr (r, ptr_name q)"
    using put_name_fits [of buf "ptr_name q" ctx buf' ctx'] assms by auto
  have "be_name C h (buf' @ u) = Inr ([], ptr_name q)" for u using h(4) [of "[]"] by simp
  with h(1-3) Ptr show ?thesis by (intro exI [of _ h]) (auto simp: be_ptr_def)
next
  case (Srv s)
  let ?p = "to_be 2 (priority s) @ to_be 2 (weight s) @ to_be 2 (port s)"
  have "put_name C (buf @ ?p) (target s) ctx = (buf', ctx')"
    using assms(1) Srv by (simp add: put_srv_def put_laws Let_def)
  then obtain h where h: "buf' = (buf @ ?p) @ h" "ctx_ok buf' ctx'" "length h \<le> 258"
    "\<forall>u r. be_name C (h @ r) (buf' @ u) = Inr (r, target s)"
    using put_name_fits [of "buf @ ?p" "target s" ctx buf' ctx'] assms(2,3) Srv ctx_ok_append by auto
  have "be_srv C (?p @ h) (buf' @ u) = Inr ([], s)" for u
    using h(4) [rule_format, of "[]" u] by (cases s) (simp add: be_srv_def read_laws)
  with h Srv show ?thesis by (intro exI [of _ "?p @ h"]) simp
next
  case (E e)
  then show ?thesis
    using assms put_endpoint_bytes [of H e] be_endpoint_compat_bytes [of H e] ctx_ok_append
    by (intro exI [of _ "endpoint_bytes e"]) auto
next
  case (Txt t)
  then show ?thesis
    using assms read_take [of "txt_bytes t" "[]"] ctx_ok_append
    by (intro exI [of _ "txt_bytes t"]) (auto simp: put_laws unat_of_nat)
next
  case (A ip)
  then show ?thesis
    using assms read_u32 [of ip "[]"] ctx_ok_append by (intro exI [of _ "to_be 4 ip"]) (auto simp: put_laws)
next
  case (AAAA ip)
  then show ?thesis
    using assms read_u128 [of ip "[]"] ctx_ok_append by (intro exI [of _ "to_be 16 ip"]) (auto simp: put_laws)
qed

lemma list_update_patch:
  assumes "length ab = 2" "length xy = 2"
  shows "(p @ ab @ q)[length p := xy ! 0, length p + 1 := xy ! 1] = p @ xy @ q"
  using assms by (auto simp: list_update_append length_Suc_conv numeral_2_eq_2)

text \<open>Patching \<open>RDLENGTH\<close> afterwards gives the same bytes as writing it in place.\<close>

lemma put_record_bytes:
  assumes "put_name C buf (rr_name rr) ctx = (buf1, ctx1)"
  defines "cl \<equiv> if multicast_unique rr then class_code (cls rr) OR 0x8000 else class_code (cls rr)"
  defines "pre \<equiv> \<lambda>n. buf1 @ to_be 2 (type_code (rr_typ rr)) @ to_be 2 cl @ to_be 4 (ttl rr) @ to_be 2 (of_nat n :: u16)"
  shows "\<exists>h c. put_record C buf rr ctx = Some (pre (length h) @ h, c) \<and>
    (\<forall>n. put_rdata C (pre n) (rdata rr) ctx1 = Some (pre n @ h, c))"
proof -
  let ?p = "buf1 @ to_be 2 (type_code (rr_typ rr)) @ to_be 2 cl @ to_be 4 (ttl rr)"
  obtain h c where h: "\<And>buf. length buf = length ?p + 2 \<Longrightarrow> put_rdata C buf (rdata rr) ctx1 = Some (buf @ h, c)"
    using put_rdata_uniform by blast
  let ?w = "of_nat (length h) :: u16"
  have "(?p @ to_be 2 (0 :: u16) @ h)[length ?p := to_be 2 ?w ! 0, length ?p + 1 := to_be 2 ?w ! 1] = ?p @ to_be 2 ?w @ h"
    by (rule list_update_patch) simp_all
  then have "put_record C buf rr ctx = Some (?p @ to_be 2 ?w @ h, c)"
    using h [of "?p @ to_be 2 (0 :: u16)"]
    by (simp add: put_record_def assms(1) put_laws Let_def cl_def [symmetric] add.commute)
  moreover have "put_rdata C (pre n) (rdata rr) ctx1 = Some (pre n @ h, c)" for n
    by (rule h) (simp add: pre_def)
  ultimately show ?thesis by (auto simp: pre_def)
qed

lemma put_record_total: "\<exists>h c. put_record C buf rr ctx = Some (buf @ h, c)"
proof -
  obtain buf1 ctx1 where "put_name C buf (rr_name rr) ctx = (buf1, ctx1)" by (cases "put_name C buf (rr_name rr) ctx")
  moreover from this obtain h where "buf1 = buf @ h" using put_name_uniform [of "length buf" "rr_name rr" ctx] by auto
  ultimately show ?thesis using put_record_bytes by fastforce
qed

lemma put_record_spec:
  assumes "put_record C buf rr ctx = Some (buf', ctx')" "ctx_ok buf ctx" "rr_ok H rr"
  shows "\<exists>h. buf' = buf @ h \<and> ctx_ok buf' ctx' \<and> 11 \<le> length h \<and>
    (\<forall>u r. be_record C H (h @ r) (buf' @ u) = Inr (r, rr))"
proof -
  obtain buf1 ctx1 where n: "put_name C buf (rr_name rr) ctx = (buf1, ctx1)" by (cases "put_name C buf (rr_name rr) ctx")
  obtain g where g: "buf1 = buf @ g" "ctx_ok buf1 ctx1" "0 < length g"
    "\<And>u r. be_name C (g @ r) (buf1 @ u) = Inr (r, rr_name rr)"
    using put_name_fits [OF n assms(2)] assms(3) by (auto simp: rr_ok_def)
  let ?cl = "if multicast_unique rr then class_code (cls rr) OR 0x8000 else class_code (cls rr)"
  let ?f = "\<lambda>k. to_be 2 (type_code (rr_typ rr)) @ to_be 2 ?cl @ to_be 4 (ttl rr) @ to_be 2 (of_nat k :: u16)"
  obtain d where d: "buf' = (buf1 @ ?f (length d)) @ d"
    "put_rdata C (buf1 @ ?f (length d)) (rdata rr) ctx1 = Some (buf', ctx')"
    using put_record_bytes [OF n] assms(1) by auto
  then obtain d' where d': "buf' = (buf1 @ ?f (length d)) @ d'" "ctx_ok buf' ctx'" "length d' < 65536"
    "\<And>u t. type_matches t (rdata rr) \<Longrightarrow> be_rdata C H d' (buf' @ u) t (of_nat (length d')) = Inr ([], rdata rr)"
    using put_rdata_spec [OF d(2) ctx_ok_append [OF g(2)]] assms(3) by (auto simp: rr_ok_def)
  then have [simp]: "d' = d" using d(1) by simp
  have "be_name C (g @ r) (buf' @ u) = Inr (r, rr_name rr)" for u r
    using g(4) [of r "?f (length d) @ d @ u"] d(1) by simp
  moreover have "be_rdata C H d (buf' @ u) (rr_typ rr) (of_nat (length d)) = Inr ([], rdata rr)" for u
    using d'(4) assms(3) by (simp add: rr_ok_def)
  ultimately have "be_record C H (g @ ?f (length d) @ d @ r) (buf' @ u) = Inr (r, rr)" for u r
    using be_record_layout [of g "buf' @ u" "rr_name rr" d H "rr_typ rr" "rdata rr" "multicast_unique rr" "cls rr" "ttl rr" r]
      d'(3) by (cases rr) simp
  with g(1,3) d(1) d'(2) show ?thesis by (intro exI [of _ "g @ ?f (length d) @ d"]) (auto simp: Suc_le_eq)
qed

lemma put_questions_spec:
  assumes "put_questions C buf ctx qs = (buf', ctx')" "ctx_ok buf ctx" "list_all question_ok qs"
  shows "\<exists>h. buf' = buf @ h \<and> ctx_ok buf' ctx' \<and> 5 * length qs \<le> length h \<and>
    (\<forall>u r acc. parse (be_question C) (buf' @ u) (length qs) (h @ r) acc = Inr (r, acc @ qs))"
  using assms
proof (induction qs arbitrary: buf ctx)
  case (Cons q qs)
  obtain buf1 ctx1 where n: "put_name C buf (q_name q) ctx = (buf1, ctx1)" by (cases "put_name C buf (q_name q) ctx")
  obtain g where g: "buf1 = buf @ g" "ctx_ok buf1 ctx1" "0 < length g"
    "\<And>u r. be_name C (g @ r) (buf1 @ u) = Inr (r, q_name q)"
    using put_name_fits [OF n Cons.prems(2)] Cons.prems(3) by (auto simp: question_ok_def)
  let ?f = "to_be 2 (query_type_code (qtype q)) @
    to_be 2 (if prefer_unicast q then query_class_code (qclass q) OR 0x8000 else query_class_code (qclass q))"
  have rest: "put_questions C (buf1 @ ?f) ctx1 qs = (buf', ctx')"
    using Cons.prems(1) by (simp add: n put_laws Let_def)
  from Cons.IH [OF rest ctx_ok_append [OF g(2)]] Cons.prems(3) obtain h where h: "buf' = (buf1 @ ?f) @ h" "ctx_ok buf' ctx'"
    "5 * length qs \<le> length h" "\<And>u r acc. parse (be_question C) (buf' @ u) (length qs) (h @ r) acc = Inr (r, acc @ qs)"
    by auto
  have "be_name C (g @ r) (buf' @ u) = Inr (r, q_name q)" for u r
    using g(4) [of r "?f @ h @ u"] h(1) by simp
  then have "be_question C ((g @ ?f) @ r) (buf' @ u) = Inr (r, q)" for u r
    using be_question_layout [of g "buf' @ u" "q_name q"] by (cases q) simp
  from parse_append [of "be_question C", OF this]
  have "parse (be_question C) (buf' @ u) (length (q # qs)) ((g @ ?f) @ (h @ r)) acc = Inr (r, acc @ q # qs)" for u r acc
    using h(4) by (simp only: list.size add_Suc_right add_0_right) simp
  moreover have "5 * length (q # qs) \<le> length ((g @ ?f) @ h)"
  proof -
    have "5 * length (q # qs) \<le> 5 + length h" using h(3) by simp
    also have "\<dots> \<le> length ((g @ ?f) @ h)" using g(3) by (cases g) simp_all
    finally show ?thesis .
  qed
  ultimately show ?case using g(1) h(1,2) by (intro exI [of _ "(g @ ?f) @ h"]) (simp only: append_assoc, blast)
qed simp

lemma put_records_spec:
  assumes "put_records C buf ctx rrs = Some (buf', ctx')" "ctx_ok buf ctx" "list_all (rr_ok H) rrs"
  shows "\<exists>h. buf' = buf @ h \<and> ctx_ok buf' ctx' \<and> 11 * length rrs \<le> length h \<and>
    (\<forall>u r acc. parse (be_record C H) (buf' @ u) (length rrs) (h @ r) acc = Inr (r, acc @ rrs))"
  using assms
proof (induction rrs arbitrary: buf ctx)
  case (Cons rr rrs)
  from Cons.prems(1) obtain buf1 ctx1 where one: "put_record C buf rr ctx = Some (buf1, ctx1)"
    and rest: "put_records C buf1 ctx1 rrs = Some (buf', ctx')"
    by (auto simp: bind_eq_Some_conv split: prod.splits)
  obtain g where g: "buf1 = buf @ g" "ctx_ok buf1 ctx1" "11 \<le> length g"
    "\<And>u r. be_record C H (g @ r) (buf1 @ u) = Inr (r, rr)"
    using put_record_spec [OF one Cons.prems(2), of H] Cons.prems(3) by auto
  from Cons.IH [OF rest g(2)] Cons.prems(3) obtain h where h: "buf' = buf1 @ h" "ctx_ok buf' ctx'"
    "11 * length rrs \<le> length h" "\<And>u r acc. parse (be_record C H) (buf' @ u) (length rrs) (h @ r) acc = Inr (r, acc @ rrs)"
    by auto
  have "be_record C H (g @ r) (buf' @ u) = Inr (r, rr)" for u r
    using g(4) [of r "h @ u"] h(1) by simp
  from parse_append [of "be_record C H", OF this]
  have "parse (be_record C H) (buf' @ u) (length (rr # rrs)) (g @ (h @ r)) acc = Inr (r, acc @ rr # rrs)" for u r acc
    using h(4) by (simp only: list.size add_Suc_right add_0_right) simp
  with g(1,3) h(1-3) show ?case by (intro exI [of _ "g @ h"]) auto
qed simp

lemma put_records_total: "\<exists>h c. put_records C buf ctx rrs = Some (buf @ h, c)"
proof (induction rrs arbitrary: buf ctx)
  case (Cons rr rrs)
  obtain g c where "put_record C buf rr ctx = Some (buf @ g, c)" using put_record_total by blast
  moreover obtain h d where "put_records C (buf @ g) c rrs = Some ((buf @ g) @ h, d)" using Cons.IH by blast
  ultimately show ?case by simp
qed simp

lemma to_bytes_total: "to_bytes C p \<noteq> None"
proof -
  obtain b c where "put_questions C (put_header C [] (header p)) NameCompression_new (questions p) = (b, c)"
    by (cases "put_questions C (put_header C [] (header p)) NameCompression_new (questions p)")
  moreover obtain h1 c1 where "put_records C b c (answers p) = Some (b @ h1, c1)" using put_records_total by blast
  moreover obtain h2 c2 where "put_records C (b @ h1) c1 (nameservers p) = Some ((b @ h1) @ h2, c2)" using put_records_total by blast
  moreover obtain h3 c3 where "put_records C ((b @ h1) @ h2) c2 (additional p) = Some (((b @ h1) @ h2) @ h3, c3)"
    using put_records_total by blast
  ultimately show ?thesis by (simp add: to_bytes_def)
qed

lemma packet_reads_back:
  assumes "to_bytes C p = Some bs" "packet_ok H p"
  shows "be_packet C H (bs @ r) = Inr (r, p)"
proof -
  let ?hb = "header_bytes (header p)"
  obtain b c where q: "put_questions C ?hb NameCompression_new (questions p) = (b, c)"
    by (cases "put_questions C ?hb NameCompression_new (questions p)")
  then obtain b1 c1 b2 c2 c3 where a: "put_records C b c (answers p) = Some (b1, c1)"
    and n: "put_records C b1 c1 (nameservers p) = Some (b2, c2)" and d: "put_records C b2 c2 (additional p) = Some (bs, c3)"
    using assms(1) by (auto simp: to_bytes_def put_header_bytes bind_eq_Some_conv split: prod.splits)
  have ok: "list_all question_ok (questions p)" "list_all (rr_ok H) (answers p)" "list_all (rr_ok H) (nameservers p)"
    "list_all (rr_ok H) (additional p)"
    and cnt: "unat (questions_count (header p)) = length (questions p)" "unat (answers_count (header p)) = length (answers p)"
    "unat (nameservers_count (header p)) = length (nameservers p)" "unat (additional_count (header p)) = length (additional p)"
    using assms(2) by (auto simp: packet_ok_def)
  obtain hq where hq: "b = ?hb @ hq" "ctx_ok b c" "5 * length (questions p) \<le> length hq"
    "\<And>u r acc. parse (be_question C) (b @ u) (length (questions p)) (hq @ r) acc = Inr (r, acc @ questions p)"
    using put_questions_spec [OF q _ ok(1)] by auto
  obtain ha where ha: "b1 = b @ ha" "ctx_ok b1 c1" "11 * length (answers p) \<le> length ha"
    "\<And>u r acc. parse (be_record C H) (b1 @ u) (length (answers p)) (ha @ r) acc = Inr (r, acc @ answers p)"
    using put_records_spec [OF a hq(2) ok(2)] by auto
  obtain hn where hn: "b2 = b1 @ hn" "ctx_ok b2 c2" "11 * length (nameservers p) \<le> length hn"
    "\<And>u r acc. parse (be_record C H) (b2 @ u) (length (nameservers p)) (hn @ r) acc = Inr (r, acc @ nameservers p)"
    using put_records_spec [OF n ha(2) ok(3)] by auto
  obtain hd where hd: "bs = b2 @ hd" "11 * length (additional p) \<le> length hd"
    "\<And>u r acc. parse (be_record C H) (bs @ u) (length (additional p)) (hd @ r) acc = Inr (r, acc @ additional p)"
    using put_records_spec [OF d hn(2) ok(4)] by auto
  have bs: "bs @ r = ?hb @ hq @ ha @ hn @ hd @ r" using hq(1) ha(1) hn(1) hd(1) by simp
  have hdr: "be_header C (bs @ r) = Inr (hq @ ha @ hn @ hd @ r, header p)"
    unfolding be_header_iff by (rule bs)
  have val: "validate_section_counts (hq @ ha @ hn @ hd @ r) (header p) = Inr (hq @ ha @ hn @ hd @ r, ())"
    unfolding validate_section_counts_iff cnt using hq(3) ha(3) hn(3) hd(2) by simp
  have s1: "parse (be_question C) (bs @ r) (length (questions p)) (hq @ ha @ hn @ hd @ r) [] = Inr (ha @ hn @ hd @ r, questions p)"
    using hq(4) [of "ha @ hn @ hd @ r" _ "[]"] ha(1) hn(1) hd(1) by simp
  have s2: "parse (be_record C H) (bs @ r) (length (answers p)) (ha @ hn @ hd @ r) [] = Inr (hn @ hd @ r, answers p)"
    using ha(4) [of "hn @ hd @ r" _ "[]"] hn(1) hd(1) by simp
  have s3: "parse (be_record C H) (bs @ r) (length (nameservers p)) (hn @ hd @ r) [] = Inr (hd @ r, nameservers p)"
    using hn(4) [of "hd @ r" _ "[]"] hd(1) by simp
  have s4: "parse (be_record C H) (bs @ r) (length (additional p)) (hd @ r) [] = Inr (r, additional p)"
    using hd(3) [of r _ "[]"] by simp
  show ?thesis
    unfolding be_packet_def hdr andthen.simps val cnt s1 s2 s3 s4 by simp
qed

end

section \<open>Building packets\<close>

lemma unat_add_one: "Suc (unat (w :: u16)) < 65536 \<Longrightarrow> unat (w + 1) = Suc (unat w)"
  by (simp add: unat_word_ariths)

lemma add_answer_ok:
  assumes "packet_ok H p" "length (answers p) < 65535" "name_fits n" "type_matches t d" "rdata_ok H d"
  shows "packet_ok H (add_answer n t c ti d p)"
proof -
  have "unat (answers_count (header p) + 1) = Suc (length (answers p))"
    using assms(1,2) unat_add_one [of "answers_count (header p)"] by (simp add: packet_ok_def)
  with assms show ?thesis by (simp add: packet_ok_def add_answer_def rr_ok_def Let_def)
qed

lemma add_question_ok:
  assumes "packet_ok H p" "length (questions p) < 65535" "name_fits n"
  shows "packet_ok H (add_question n t c u p)"
proof -
  have "unat (questions_count (header p) + 1) = Suc (length (questions p))"
    using assms(1,2) unat_add_one [of "questions_count (header p)"] by (simp add: packet_ok_def)
  with assms show ?thesis by (simp add: packet_ok_def add_question_def question_ok_def Let_def)
qed

lemma packet_default_ok [simp]: "packet_ok H Packet_default"
  by (simp add: packet_ok_def Packet_default_def Header_default_def)

text \<open>The records that \<open>answer\<close> lists: one endpoint record per host and endpoint.\<close>

definition answer_records :: "(name \<times> EndpointAddr list) list \<Rightarrow> ResourceRecord list" where
  "answer_records hosts = concat (map (\<lambda>(name, eps). map (\<lambda>ep.
     \<lparr>rr_name = name, rr_typ = Type.E, multicast_unique = False, cls = Class.IN, ttl = 300, rdata = RData.E ep\<rparr>) eps) hosts)"

lemma answer_fold:
  "answers (fold (\<lambda>(name, eps) p. fold (\<lambda>ep p. add_answer name Type.E Class.IN 300 (RData.E ep) p) eps p) hosts p) =
     answers p @ answer_records hosts"
proof (induction hosts arbitrary: p)
  case (Cons h hosts)
  have "answers (fold (\<lambda>ep p. add_answer n Type.E Class.IN 300 (RData.E ep) p) eps p) = answers p @ map (\<lambda>ep.
     \<lparr>rr_name = n, rr_typ = Type.E, multicast_unique = False, cls = Class.IN, ttl = 300, rdata = RData.E ep\<rparr>) eps" for n eps p
    by (induction eps arbitrary: p) (simp_all add: add_answer_def Let_def)
  then show ?case using Cons by (cases h) (simp add: answer_records_def)
qed (simp add: answer_records_def)

lemma fold_answer_ok:
  assumes "packet_ok H p" "length (answers p) + length (answer_records hosts) \<le> 65535"
    "\<forall>(n, eps) \<in> set hosts. name_fits n \<and> (\<forall>ep \<in> set eps. rdata_ok H (RData.E ep))"
  shows "packet_ok H (fold (\<lambda>(name, eps) p. fold (\<lambda>ep p. add_answer name Type.E Class.IN 300 (RData.E ep) p) eps p) hosts p)"
  using assms
proof (induction hosts arbitrary: p)
  case (Cons h hosts)
  obtain n eps where h: "h = (n, eps)" by (cases h)
  let ?in = "\<lambda>eps p. fold (\<lambda>ep p. add_answer n Type.E Class.IN 300 (RData.E ep) p) eps p"
  have inner: "packet_ok H (?in es q) \<and> answers (?in es q) = answers q @ answer_records [(n, es)]"
    if "packet_ok H q" "length (answers q) + length es \<le> 65535" "name_fits n" "\<forall>ep \<in> set es. rdata_ok H (RData.E ep)" for es q
    using that
  proof (induction es arbitrary: q)
    case (Cons e es)
    have "packet_ok H (add_answer n Type.E Class.IN 300 (RData.E e) q)" by (rule add_answer_ok) (use Cons.prems in auto)
    moreover have "answers (add_answer n Type.E Class.IN 300 (RData.E e) q) = answers q @ answer_records [(n, [e])]"
      by (simp add: add_answer_def answer_records_def Let_def)
    ultimately show ?case using Cons.IH [of "add_answer n Type.E Class.IN 300 (RData.E e) q"] Cons.prems
      by (simp add: answer_records_def)
  qed (simp add: answer_records_def)
  have "packet_ok H (?in eps p) \<and> answers (?in eps p) = answers p @ answer_records [(n, eps)]"
    by (rule inner) (use Cons.prems in \<open>auto simp: h answer_records_def\<close>)
  then show ?case using Cons.IH [of "?in eps p"] Cons.prems by (simp add: h answer_records_def)
qed simp

lemma answer_reads_back:
  assumes "codec_laws C" and "length (answer_records hosts) \<le> 65535"
    and "\<forall>(n, eps) \<in> set hosts. name_fits n \<and> (\<forall>ep \<in> set eps. rdata_ok H (RData.E ep))"
  shows "\<exists>bs p. to_bytes C (answer i hosts) = Some bs \<and> be_packet C H bs = Inr ([], p) \<and>
    answers p = answer_records hosts \<and> p = answer i hosts"
proof -
  let ?h = "Header_default\<lparr>header_id := i, flags := set_query True (flags Header_default)\<rparr>"
  let ?p0 = "Packet_default\<lparr>header := ?h\<rparr>"
  have p0: "packet_ok H ?p0" "answers ?p0 = []"
    by (simp_all add: packet_ok_def Packet_default_def Header_default_def)
  have ans: "answer i hosts = fold (\<lambda>(name, eps) p. fold (\<lambda>ep p. add_answer name Type.E Class.IN 300 (RData.E ep) p) eps p) hosts ?p0"
    by (simp add: answer_def Packet_default_def Let_def)
  have "packet_ok H (answer i hosts)"
    unfolding ans by (rule fold_answer_ok [OF p0(1)]) (use p0(2) assms(2,3) in simp_all)
  moreover obtain bs where "to_bytes C (answer i hosts) = Some bs"
    using codec_laws.to_bytes_total [OF assms(1)] by blast
  ultimately show ?thesis
    using codec_laws.packet_reads_back [OF assms(1), of "answer i hosts" bs H "[]"] answer_fold [of hosts ?p0] p0(2)
    by (simp add: ans)
qed

section \<open>Properties\<close>

text \<open>C1: A message survives the wire. If the section counts agree with the sections and every name, type
  and record data is admissible, \<open>to_bytes\<close> does not panic and \<open>be_packet\<close> reads exactly the packet
  back from the bytes, with all the compression pointers and patched lengths in them, and leaves
  whatever follows.\<close>

theorem packet_roundtrip:
  assumes "codec_laws C" and "packet_ok H p"
  shows "\<exists>bs. to_bytes C p = Some bs \<and> (\<forall>r. be_packet C H (bs @ r) = Inr (r, p))"
  using codec_laws.to_bytes_total [OF assms(1), of p] codec_laws.packet_reads_back [OF assms(1) _ assms(2)] by blast

lemma com_fits: "name_fits (str ''com'')"
proof -
  have "name_labels (str ''com'') = [str ''com'']"
    by (simp add: name_labels_def str_def strip_suffix_def strip_prefix_def)
  then show ?thesis
    by (simp add: name_fits_def name_ok_def canonical_name_def label_ok_def str_def valid_utf8_ascii)
qed

lemma ref_endpoint_ok: "rdata_ok ref_home (RData.E (direct_v4 (SocketAddrV4 1 2)))"
proof -
  have "length (endpoint_bytes (direct_v4 (SocketAddrV4 1 2))) = 7"
    by (simp add: endpoint_bytes_def base_bytes_def direct_v4_def)
  then show ?thesis by (simp add: constructors_wf)
qed

theorem packet_roundtrip_witness:
  "packet_ok ref_home (add_answer (str ''com'') Type.E Class.IN 300 (RData.E (direct_v4 (SocketAddrV4 1 2))) (query (str ''com''))) \<and>
   (\<exists>bs. to_bytes ref_codec (add_answer (str ''com'') Type.E Class.IN 300 (RData.E (direct_v4 (SocketAddrV4 1 2))) (query (str ''com''))) = Some bs \<and>
     (\<forall>r. be_packet ref_codec ref_home (bs @ r) =
       Inr (r, add_answer (str ''com'') Type.E Class.IN 300 (RData.E (direct_v4 (SocketAddrV4 1 2))) (query (str ''com'')))))"
proof
  have "packet_ok ref_home (query (str ''com''))"
    unfolding query_def by (rule add_question_ok) (simp_all add: com_fits Packet_default_def packet_ok_def Header_default_def)
  moreover note ref_endpoint_ok
  ultimately show ok: "packet_ok ref_home (add_answer (str ''com'') Type.E Class.IN 300
      (RData.E (direct_v4 (SocketAddrV4 1 2))) (query (str ''com'')))"
    by (intro add_answer_ok) (simp_all add: com_fits query_def add_question_def Packet_default_def Let_def)
  show "\<exists>bs. to_bytes ref_codec (add_answer (str ''com'') Type.E Class.IN 300 (RData.E (direct_v4 (SocketAddrV4 1 2))) (query (str ''com''))) = Some bs \<and>
     (\<forall>r. be_packet ref_codec ref_home (bs @ r) =
       Inr (r, add_answer (str ''com'') Type.E Class.IN 300 (RData.E (direct_v4 (SocketAddrV4 1 2))) (query (str ''com''))))"
    by (rule packet_roundtrip [OF refc.codec_laws_axioms ok])
qed

text \<open>C20: Reading a packet ends on every input and is robust: it fails only when the header is
  incomplete or when the declared sections cannot fit in the input; otherwise it returns a packet
  with at most the declared number of entries per section, and the total size of what it holds is
  bounded by the input: five bytes per question and eleven per record.\<close>

theorem be_packet_robust:
  assumes "codec_laws C"
  shows "case be_packet C H i of
      Inl e \<Rightarrow> length i < 12 \<and> is_incomplete (Inl e :: nom_err + unit) \<or>
        (\<exists>r h. be_header C i = Inr (r, h) \<and> e = NomFailure r Verify \<and>
          length r < 5 * unat (questions_count h) + 11 * (unat (answers_count h) + unat (nameservers_count h) + unat (additional_count h)))
    | Inr (r, p) \<Rightarrow> length (questions p) \<le> unat (questions_count (header p)) \<and>
        length (answers p) \<le> unat (answers_count (header p)) \<and>
        length (nameservers p) \<le> unat (nameservers_count (header p)) \<and>
        length (additional p) \<le> unat (additional_count (header p)) \<and>
        12 + 5 * length (questions p) + 11 * (length (answers p) + length (nameservers p) + length (additional p)) \<le> length i"
proof (cases "be_header C i")
  case (Inl e)
  then have "length i < 12" using codec_laws.be_header_enough [OF assms, of i] by fastforce
  then show ?thesis using Inl codec_laws.be_header_err [OF assms Inl] by (simp add: be_packet_def)
next
  case (Inr y)
  obtain t h where y: "y = (t, h)" by (cases y)
  then have i: "i = header_bytes h @ t" using Inr codec_laws.be_header_iff [OF assms] by simp
  let ?need = "5 * unat (questions_count h) + 11 * (unat (answers_count h) + unat (nameservers_count h) + unat (additional_count h))"
  show ?thesis
  proof (cases "?need \<le> length t")
    case False
    then show ?thesis using Inr y i by (simp add: be_packet_def validate_section_counts_iff)
  next
    case True
    note nf = codec_laws.be_question_no_fuel [OF assms] codec_laws.be_record_no_fuel [OF assms]
    obtain r1 qs where 1: "parse (be_question C) i (unat (questions_count h)) t [] = Inr (r1, [] @ qs)"
      "length qs \<le> unat (questions_count h)" using parse_total [of "be_question C", OF nf(1)] by blast
    obtain r2 as where 2: "parse (be_record C H) i (unat (answers_count h)) r1 [] = Inr (r2, [] @ as)"
      "length as \<le> unat (answers_count h)" using parse_total [of "be_record C H", OF nf(2)] by blast
    obtain r3 ns where 3: "parse (be_record C H) i (unat (nameservers_count h)) r2 [] = Inr (r3, [] @ ns)"
      "length ns \<le> unat (nameservers_count h)" using parse_total [of "be_record C H", OF nf(2)] by blast
    obtain r4 ds where 4: "parse (be_record C H) i (unat (additional_count h)) r3 [] = Inr (r4, [] @ ds)"
      "length ds \<le> unat (additional_count h)" using parse_total [of "be_record C H", OF nf(2)] by blast
    have "be_packet C H i = Inr (r4, \<lparr>header = h, questions = qs, answers = as, nameservers = ns, additional = ds\<rparr>)"
      using Inr y True 1(1) 2(1) 3(1) 4(1) by (simp add: be_packet_def validate_section_counts_iff)
    moreover have "12 + 5 * length qs + 11 * (length as + length ns + length ds) \<le> length i"
      using True i 1(2) 2(2) 3(2) 4(2) by simp
    ultimately show ?thesis using 1(2) 2(2) 3(2) 4(2) by simp
  qed
qed

theorem be_packet_robust_witness:
  "case be_packet ref_codec ref_home (header_bytes (Header_default\<lparr>questions_count := 1\<rparr>) @ [0, 0, 1, 0, 1]) of
      Inl e \<Rightarrow> length (header_bytes (Header_default\<lparr>questions_count := 1\<rparr>) @ [0, 0, 1, 0, 1]) < 12 \<and>
          is_incomplete (Inl e :: nom_err + unit) \<or>
        (\<exists>r h. be_header ref_codec (header_bytes (Header_default\<lparr>questions_count := 1\<rparr>) @ [0, 0, 1, 0, 1]) = Inr (r, h) \<and> e = NomFailure r Verify \<and>
          length r < 5 * unat (questions_count h) + 11 * (unat (answers_count h) + unat (nameservers_count h) + unat (additional_count h)))
    | Inr (r, p) \<Rightarrow> length (questions p) \<le> unat (questions_count (header p)) \<and>
        length (answers p) \<le> unat (answers_count (header p)) \<and>
        length (nameservers p) \<le> unat (nameservers_count (header p)) \<and>
        length (additional p) \<le> unat (additional_count (header p)) \<and>
        12 + 5 * length (questions p) + 11 * (length (answers p) + length (nameservers p) + length (additional p)) \<le>
          length (header_bytes (Header_default\<lparr>questions_count := 1\<rparr>) @ [0, 0, 1, 0, 1])"
  by (rule be_packet_robust [OF refc.codec_laws_axioms])

text \<open>A publication is read back as published: the packet that \<open>answer\<close> builds from a host table is a
  response with the given identifier whose answers are one endpoint record per host and endpoint,
  in order, and these are exactly the answers a reader gets from its bytes.\<close>

theorem answer_published_and_read:
  assumes "codec_laws C" and "length (answer_records hosts) \<le> 65535"
    and "\<forall>(n, eps) \<in> set hosts. name_fits n \<and> (\<forall>ep \<in> set eps. rdata_ok H (RData.E ep))"
  shows "\<exists>bs p. to_bytes C (answer i hosts) = Some bs \<and> be_packet C H bs = Inr ([], p) \<and>
    answers p = answer_records hosts \<and> p = answer i hosts"
  by (rule answer_reads_back [OF assms])

theorem answer_published_and_read_witness:
  "length (answer_records [(str ''com'', [direct_v4 (SocketAddrV4 1 2)])]) = 1 \<and>
   (\<exists>bs p. to_bytes ref_codec (answer 5 [(str ''com'', [direct_v4 (SocketAddrV4 1 2)])]) = Some bs \<and>
     be_packet ref_codec ref_home bs = Inr ([], p) \<and>
     answers p = answer_records [(str ''com'', [direct_v4 (SocketAddrV4 1 2)])] \<and>
     p = answer 5 [(str ''com'', [direct_v4 (SocketAddrV4 1 2)])])"
proof
  show l: "length (answer_records [(str ''com'', [direct_v4 (SocketAddrV4 1 2)])]) = 1" by (simp add: answer_records_def)
  from ref_endpoint_ok show "\<exists>bs p. to_bytes ref_codec (answer 5 [(str ''com'', [direct_v4 (SocketAddrV4 1 2)])]) = Some bs \<and>
     be_packet ref_codec ref_home bs = Inr ([], p) \<and>
     answers p = answer_records [(str ''com'', [direct_v4 (SocketAddrV4 1 2)])] \<and>
     p = answer 5 [(str ''com'', [direct_v4 (SocketAddrV4 1 2)])]"
    by (intro answer_published_and_read [OF refc.codec_laws_axioms]) (simp_all add: l com_fits)
qed

end
