(* ===== verification/Candidates.thy ===== *)
theory Candidates
  imports Endpoint
begin

text \<open>
  Endpoint candidates (\<^verbatim>\<open>src/resolvers/endpoint_candidates.rs\<close>, \<^verbatim>\<open>endpoint_group.rs\<close>): what a lookup asks
  for, how decoded endpoint records are grouped by certificate chain, and how groups and families
  are selected. \<open>group_by_key\<close> is the specification of the grouping loop; \<^verbatim>\<open>qresolve\<close>'s \<^verbatim>\<open>addr()\<close>
  is the argument \<open>addr_of\<close>.
\<close>

datatype Family = FamV4 | FamV6

text \<open>\<^verbatim>\<open>qresolve::Source\<close>, by the variants the source builds.\<close>

datatype Source = Http rstr | H3 rstr | Mdns rstr Family | System

record EndpointCandidateGroup =
  chain :: CertificateChainKey
  endpoints :: "DquicEndpointAddr list"
  sources :: "Source list"

record EndpointCandidates =
  groups :: "EndpointCandidateGroup list"

datatype SequenceQuery = Default | Exact CertificateSequence | Limit nat | All

record EndpointLookup =
  sequences :: SequenceQuery
  record_limit :: "nat option"
  family :: "Family option"

definition EndpointLookup_default :: EndpointLookup where
  "EndpointLookup_default = \<lparr>sequences = Default, record_limit = None, family = None\<rparr>"

definition lookup_exact :: "CertificateSequence \<Rightarrow> EndpointLookup" where
  "lookup_exact s = \<lparr>sequences = Exact s, record_limit = None, family = None\<rparr>"

definition lookup_limit :: "nat \<Rightarrow> EndpointLookup" where
  "lookup_limit n = \<lparr>sequences = Limit n, record_limit = None, family = None\<rparr>"

definition lookup_all :: EndpointLookup where
  "lookup_all = \<lparr>sequences = All, record_limit = None, family = None\<rparr>"

definition with_record_limit :: "nat \<Rightarrow> EndpointLookup \<Rightarrow> EndpointLookup" where
  "with_record_limit n l = l\<lparr>record_limit := Some n\<rparr>"

definition with_family :: "Family option \<Rightarrow> EndpointLookup \<Rightarrow> EndpointLookup" where
  "with_family f l = l\<lparr>family := f\<rparr>"

fun is_ipv4_addr :: "SocketAddr \<Rightarrow> bool" where
  "is_ipv4_addr (V4 _) = True"
| "is_ipv4_addr (V6 _) = False"

definition endpoint_matches_family :: "(DquicEndpointAddr \<Rightarrow> SocketAddr) \<Rightarrow> DquicEndpointAddr \<Rightarrow> Family option \<Rightarrow> bool" where
  "endpoint_matches_family addr_of endpoint fam =
     (case fam of None \<Rightarrow> True
      | Some FamV4 \<Rightarrow> is_ipv4_addr (addr_of endpoint)
      | Some FamV6 \<Rightarrow> \<not> is_ipv4_addr (addr_of endpoint))"

type_synonym 't candidate_groups = "(CertificateChainKey \<times> ('t \<times> DquicEndpointAddr) list) list"

definition filter_endpoint_candidate_groups ::
  "(DquicEndpointAddr \<Rightarrow> SocketAddr) \<Rightarrow> 't candidate_groups \<Rightarrow> Family option \<Rightarrow> 't candidate_groups" where
  "filter_endpoint_candidate_groups addr_of gs fam =
     (if fam \<noteq> None then
        let gs = map (\<lambda>(k, eps). (k, filter (\<lambda>(_, endpoint). endpoint_matches_family addr_of endpoint fam) eps)) gs
        in filter (\<lambda>(_, eps). eps \<noteq> []) gs
      else gs)"

text \<open>The pairs that \<open>append_endpoint_lookup_query\<close> appends to the query string, in order.\<close>

definition append_endpoint_lookup_query :: "EndpointLookup \<Rightarrow> (rstr \<times> rstr) list" where
  "append_endpoint_lookup_query l =
     (case sequences l of
        Default \<Rightarrow> []
      | Exact s \<Rightarrow> [(str ''sequence'', dec_digits (unat s))]
      | Limit n \<Rightarrow> [(str ''sequence_limit'', dec_digits n)]
      | All \<Rightarrow> [(str ''sequence_limit'', str ''all'')]) @
     (case record_limit l of Some n \<Rightarrow> [(str ''record_limit'', dec_digits n)] | None \<Rightarrow> [])"

definition select_group_pairs :: "(CertificateChainKey \<times> 'v) list \<Rightarrow> SequenceQuery \<Rightarrow> (CertificateChainKey \<times> 'v) list" where
  "select_group_pairs gs q =
     (case q of
        Default \<Rightarrow> take 3 gs
      | Exact s \<Rightarrow> filter (\<lambda>(k, _). key_sequence k = s) gs
      | Limit n \<Rightarrow> take n gs
      | All \<Rightarrow> gs)"

record 't TaggedEndpointCandidate =
  tag :: 't
  tec_record :: EndpointAddr
  fallback_chain_key :: "CertificateChainKey option"

definition effective_chain_key :: "home \<Rightarrow> EndpointAddr \<Rightarrow> CertificateChainKey option \<Rightarrow> CertificateChainKey" where
  "effective_chain_key H ep fallback =
     (if is_main ep \<or> sequence ep \<noteq> None then certificate_chain_key H ep
      else (case fallback of Some k \<Rightarrow> k | None \<Rightarrow> certificate_chain_key H ep))"

text \<open>\<open>groups.iter_mut().find(..)\<close> and the push that follows it.\<close>

fun push_group :: "'k \<Rightarrow> 'v \<Rightarrow> ('k \<times> 'v list) list \<Rightarrow> ('k \<times> 'v list) list" where
  "push_group k v [] = [(k, [v])]"
| "push_group k v ((k', vs) # gs) = (if k' = k then (k', vs @ [v]) # gs else (k', vs) # push_group k v gs)"

fun grouped_loop :: "home \<Rightarrow> 't TaggedEndpointCandidate list \<Rightarrow> 't candidate_groups \<Rightarrow> 't candidate_groups" where
  "grouped_loop H [] gs = gs"
| "grouped_loop H (c # cs) gs =
     (let key = effective_chain_key H (tec_record c) (fallback_chain_key c) in
      if \<not> is_primary_chain_key H key then grouped_loop H cs gs
      else (case try_into_dquic (tec_record c) of
              None \<Rightarrow> grouped_loop H cs gs
            | Some endpoint \<Rightarrow> grouped_loop H cs (push_group key (tag c, endpoint) gs)))"

definition grouped_endpoint_candidates :: "home \<Rightarrow> 't TaggedEndpointCandidate list \<Rightarrow> 't candidate_groups" where
  "grouped_endpoint_candidates H cs = grouped_loop H cs []"

section \<open>Selection\<close>

definition selected_endpoint_records_with_fallback_chain_keys ::
  "home \<Rightarrow> ('t \<times> EndpointAddr \<times> CertificateChainKey option) list \<Rightarrow> CertificateSequence option \<Rightarrow> ('t \<times> DquicEndpointAddr) list" where
  "selected_endpoint_records_with_fallback_chain_keys H records sq =
     (let gs = grouped_endpoint_candidates H
                 (map (\<lambda>(t, r, fb). \<lparr>tag = t, tec_record = r, fallback_chain_key = fb\<rparr>) records)
      in case sq of
           Some s \<Rightarrow>
             (case find (\<lambda>(k, _). is_primary_chain_key H k \<and> key_sequence k = s) gs of
                Some (_, eps) \<Rightarrow> eps | None \<Rightarrow> [])
         | None \<Rightarrow> (case gs of (_, eps) # _ \<Rightarrow> eps | [] \<Rightarrow> []))"

definition selected_endpoint_records :: "home \<Rightarrow> ('t \<times> EndpointAddr) list \<Rightarrow> ('t \<times> DquicEndpointAddr) list" where
  "selected_endpoint_records H records =
     selected_endpoint_records_with_fallback_chain_keys H (map (\<lambda>(t, r). (t, r, None)) records) None"

definition selected_endpoint_records_for_sequence ::
  "home \<Rightarrow> ('t \<times> EndpointAddr) list \<Rightarrow> CertificateSequence option \<Rightarrow> ('t \<times> DquicEndpointAddr) list" where
  "selected_endpoint_records_for_sequence H records sq =
     selected_endpoint_records_with_fallback_chain_keys H (map (\<lambda>(t, r). (t, r, None)) records) sq"

definition selected_endpoint_addrs :: "home \<Rightarrow> EndpointAddr list \<Rightarrow> DquicEndpointAddr list" where
  "selected_endpoint_addrs H records = map snd (selected_endpoint_records H (map (\<lambda>r. ((), r)) records))"

definition selected_endpoint_addrs_for_sequence :: "home \<Rightarrow> EndpointAddr list \<Rightarrow> CertificateSequence option \<Rightarrow> DquicEndpointAddr list" where
  "selected_endpoint_addrs_for_sequence H records sq =
     (case sq of
        Some s \<Rightarrow> map snd (selected_endpoint_records_for_sequence H (map (\<lambda>r. ((), r)) records) (Some s))
      | None \<Rightarrow> selected_endpoint_addrs H records)"

section \<open>The specification of grouping\<close>

definition first_occurrences :: "'k list \<Rightarrow> 'k list" where
  "first_occurrences ks = rev (remdups (rev ks))"

definition values_of :: "('k \<times> 'v) list \<Rightarrow> 'k \<Rightarrow> 'v list" where
  "values_of kvs k = map snd (filter (\<lambda>(k', _). k' = k) kvs)"

definition group_by_key :: "('k \<times> 'v) list \<Rightarrow> ('k \<times> 'v list) list" where
  "group_by_key kvs = map (\<lambda>k. (k, values_of kvs k)) (first_occurrences (map fst kvs))"

lemma first_occurrences_snoc:
  "first_occurrences (ks @ [k]) = (if k \<in> set ks then first_occurrences ks else first_occurrences ks @ [k])"
  by (simp add: first_occurrences_def)

lemma first_occurrences_props [simp]: "set (first_occurrences ks) = set ks" "distinct (first_occurrences ks)"
  by (simp_all add: first_occurrences_def)

lemma push_group_map:
  assumes "distinct ks"
  shows "push_group k v (map (\<lambda>k. (k, f k)) ks) =
    (if k \<in> set ks then map (\<lambda>k'. (k', if k' = k then f k' @ [v] else f k')) ks
     else map (\<lambda>k. (k, f k)) ks @ [(k, [v])])"
  using assms by (induction ks) (auto simp: image_iff)

lemma values_of_snoc: "values_of (kvs @ [(k, v)]) k' = (if k' = k then values_of kvs k' @ [v] else values_of kvs k')"
  by (simp add: values_of_def)

lemma values_of_absent: "k \<notin> fst ` set kvs \<Longrightarrow> values_of kvs k = []"
  by (force simp: values_of_def filter_empty_conv)

lemma push_group_spec: "push_group k v (group_by_key kvs) = group_by_key (kvs @ [(k, v)])"
proof (cases "k \<in> fst ` set kvs")
  case True
  then show ?thesis
    by (simp add: group_by_key_def push_group_map first_occurrences_snoc values_of_snoc)
next
  case False
  have "map (\<lambda>k. (k, values_of kvs k)) (first_occurrences (map fst kvs)) =
      map (\<lambda>k'. (k', values_of (kvs @ [(k, v)]) k')) (first_occurrences (map fst kvs))"
    using False by (intro map_cong) (auto simp: values_of_snoc)
  with False show ?thesis
    by (simp add: group_by_key_def push_group_map first_occurrences_snoc values_of_snoc values_of_absent)
qed

lemma group_by_key_lookup: "(k, vs) \<in> set (group_by_key kvs) \<longleftrightarrow> k \<in> fst ` set kvs \<and> vs = values_of kvs k"
  by (auto simp: group_by_key_def)

lemma group_by_key_nonempty: "(k, vs) \<in> set (group_by_key kvs) \<Longrightarrow> vs \<noteq> []"
  by (force simp: group_by_key_lookup values_of_def filter_empty_conv)

lemma group_by_key_distinct [simp]: "distinct (map fst (group_by_key kvs))"
  by (simp add: group_by_key_def comp_def)

text \<open>What a candidate contributes: its chain and endpoint, if the chain is primary and the record
  converts.\<close>

definition contribution :: "home \<Rightarrow> 't TaggedEndpointCandidate \<Rightarrow> (CertificateChainKey \<times> 't \<times> DquicEndpointAddr) option" where
  "contribution H c =
     (let key = effective_chain_key H (tec_record c) (fallback_chain_key c) in
      if is_primary_chain_key H key then map_option (\<lambda>e. (key, tag c, e)) (try_into_dquic (tec_record c)) else None)"

lemma grouped_loop_spec:
  "grouped_loop H cs (group_by_key kvs) = group_by_key (kvs @ List.map_filter (contribution H) cs)"
proof (induction cs arbitrary: kvs)
  case (Cons c cs)
  then show ?case
    by (auto simp: Let_def contribution_def List.map_filter_simps push_group_spec split: option.splits)
qed (simp add: List.map_filter_simps)

lemma grouped_spec: "grouped_endpoint_candidates H cs = group_by_key (List.map_filter (contribution H) cs)"
  using grouped_loop_spec [of H cs "[]"]
  by (simp add: grouped_endpoint_candidates_def group_by_key_def first_occurrences_def)

lemma contribution_primary: "(k, v) \<in> set (List.map_filter (contribution H) cs) \<Longrightarrow> is_primary_chain_key H k"
  by (auto simp: List.map_filter_def contribution_def Let_def split: if_splits)

lemma find_group:
  assumes "\<And>k. k \<in> fst ` set kvs \<Longrightarrow> P k \<longleftrightarrow> k = key"
  shows "(case find (\<lambda>(k, _). P k) (group_by_key kvs) of Some (_, eps) \<Rightarrow> eps | None \<Rightarrow> []) = values_of kvs key"
proof (cases "key \<in> fst ` set kvs")
  case True
  have "find (\<lambda>(k, _). P k) (map (\<lambda>k. (k, f k)) ks) = (if key \<in> set ks then Some (key, f key) else None)"
    if "\<And>k. k \<in> set ks \<Longrightarrow> P k \<longleftrightarrow> k = key" for ks and f :: "'a \<Rightarrow> 'b list"
    using that by (induction ks) auto
  from this [of "first_occurrences (map fst kvs)"] True assms show ?thesis
    by (auto simp: group_by_key_def)
next
  case False
  then have "find (\<lambda>(k, _). P k) (group_by_key kvs) = None"
    using assms by (auto simp: find_None_iff group_by_key_def)
  then show ?thesis using values_of_absent [OF False] by simp
qed

lemma selected_records_spec:
  assumes "home_laws H"
  shows "selected_endpoint_records_with_fallback_chain_keys H records (Some s) =
    values_of (List.map_filter (contribution H) (map (\<lambda>(t, r, fb). \<lparr>tag = t, tec_record = r, fallback_chain_key = fb\<rparr>) records))
      (primary_chain_key s)"
proof -
  let ?kvs = "List.map_filter (contribution H) (map (\<lambda>(t, r, fb). \<lparr>tag = t, tec_record = r, fallback_chain_key = fb\<rparr>) records)"
  have "is_primary_chain_key H k \<and> key_sequence k = s \<longleftrightarrow> k = primary_chain_key s" for k
    using home_laws.is_primary_iff [OF assms] by (cases k) auto
  from find_group [of ?kvs "\<lambda>k. is_primary_chain_key H k \<and> key_sequence k = s", OF this]
  show ?thesis
    by (simp add: selected_endpoint_records_with_fallback_chain_keys_def grouped_spec Let_def)
qed

section \<open>Properties\<close>

lemma contribution_grouped:
  assumes "c \<in> set cs" and "contribution H c = Some (k, v)"
  shows "\<exists>eps. (k, eps) \<in> set (group_by_key (List.map_filter (contribution H) cs)) \<and> v \<in> set eps"
proof -
  have "(k, v) \<in> set (List.map_filter (contribution H) cs)" using assms by (force simp: List.map_filter_def)
  then show ?thesis by (force simp: group_by_key_lookup values_of_def)
qed

text \<open>C30: Grouping is a partition by certificate chain. The groups are those of the specification: one
  group per primary chain in the order in which chains first occur, each holding the endpoints of
  exactly the candidates of that chain, in their order. So no two groups have the same chain, no
  group is empty, every chain is primary, and every candidate with a primary chain and a
  convertible record is in its group.\<close>

theorem grouping_is_partition:
  "grouped_endpoint_candidates H cs = group_by_key (List.map_filter (contribution H) cs) \<and>
   distinct (map fst (grouped_endpoint_candidates H cs)) \<and>
   list_all (\<lambda>(k, eps). is_primary_chain_key H k \<and> eps \<noteq> []) (grouped_endpoint_candidates H cs) \<and>
   list_all (\<lambda>c. case contribution H c of None \<Rightarrow> True
     | Some (k, v) \<Rightarrow> list_ex (\<lambda>(k', eps). k' = k \<and> v \<in> set eps) (grouped_endpoint_candidates H cs)) cs"
proof (intro conjI)
  show "list_all (\<lambda>(k, eps). is_primary_chain_key H k \<and> eps \<noteq> []) (grouped_endpoint_candidates H cs)"
    using contribution_primary group_by_key_nonempty
    by (fastforce simp: grouped_spec list_all_iff group_by_key_lookup)
  show "list_all (\<lambda>c. case contribution H c of None \<Rightarrow> True
     | Some (k, v) \<Rightarrow> list_ex (\<lambda>(k', eps). k' = k \<and> v \<in> set eps) (grouped_endpoint_candidates H cs)) cs"
    using contribution_grouped by (fastforce simp: list_all_iff list_ex_iff grouped_spec split: option.splits)
qed (simp_all add: grouped_spec)

text \<open>Filtering groups by address family keeps exactly the matching endpoints under their chain and
  drops the groups that become empty; without a requested family nothing changes. Selecting groups
  afterwards only ever shortens the list: it keeps groups as they are, at most three by default.\<close>

theorem family_filter_exact:
  "((\<exists>eps. (k, eps) \<in> set (filter_endpoint_candidate_groups addr_of gs fam) \<and> e \<in> set eps) \<longleftrightarrow>
     (\<exists>eps. (k, eps) \<in> set gs \<and> e \<in> set eps \<and> endpoint_matches_family addr_of (snd e) fam)) \<and>
   list_all (\<lambda>(_, eps). eps \<noteq> []) (filter_endpoint_candidate_groups addr_of gs (Some f)) \<and>
   filter_endpoint_candidate_groups addr_of gs None = gs \<and>
   set (select_group_pairs gs q) \<subseteq> set gs \<and> length (select_group_pairs gs Default) \<le> 3"
proof (intro conjI)
  show "(\<exists>eps. (k, eps) \<in> set (filter_endpoint_candidate_groups addr_of gs fam) \<and> e \<in> set eps) \<longleftrightarrow>
     (\<exists>eps. (k, eps) \<in> set gs \<and> e \<in> set eps \<and> endpoint_matches_family addr_of (snd e) fam)"
  proof (cases fam)
    case None
    then show ?thesis by (auto simp: filter_endpoint_candidate_groups_def endpoint_matches_family_def)
  next
    case (Some f)
    then show ?thesis
      by (cases e) (force simp: filter_endpoint_candidate_groups_def Let_def image_iff filter_empty_conv)
  qed
  show "list_all (\<lambda>(_, eps). eps \<noteq> []) (filter_endpoint_candidate_groups addr_of gs (Some f))"
    by (auto simp: filter_endpoint_candidate_groups_def Let_def list_all_iff)
  show "set (select_group_pairs gs q) \<subseteq> set gs"
    by (cases q) (auto simp: select_group_pairs_def dest: in_set_takeD)
qed (simp_all add: select_group_pairs_def filter_endpoint_candidate_groups_def)

end
