(* ===== verification/Resolvers.thy ===== *)
theory Resolvers
  imports Candidates "HOL-Library.Multiset"
begin

text \<open>
  The aggregate resolver (\<^verbatim>\<open>src/resolvers.rs\<close>): names and sequences in lookup strings, the candidate
  lookup that merges the groups of all resolvers, and the record stream that interleaves the
  resolvers' streams and drops duplicates.

  Concurrency: the order in which the futures of \<^verbatim>\<open>FuturesUnordered\<close> complete is an argument, a
  rearrangement of the pending results; the record stream is a step relation in which every
  ready event may come next. Whether a string is a DNS name for \<^verbatim>\<open>rustls\<close> is the argument \<open>dns_name\<close>.
\<close>

definition all_digits :: "rstr \<Rightarrow> bool" where
  "all_digits s \<longleftrightarrow> s \<noteq> [] \<and> list_all is_ascii_digit s"

definition resolvable_name :: "(rstr \<Rightarrow> bool) \<Rightarrow> rstr \<Rightarrow> rstr option" where
  "resolvable_name dns_name name =
     (let host = (case rsplit_once colon name of
                    Some (host, port) \<Rightarrow> if all_digits port then host else name
                  | None \<Rightarrow> name)
      in if dns_name host then Some host else None)"

definition endpoint_lookup_name_and_sequence ::
  "(rstr \<Rightarrow> bool) \<Rightarrow> home \<Rightarrow> rstr \<Rightarrow> (rstr \<times> CertificateSequence option) option" where
  "endpoint_lookup_name_and_sequence dns_name H name =
     (case rsplit_once colon name of
        Some (host, digits) \<Rightarrow>
          if all_digits digits then do {
            v \<leftarrow> parse_u64 digits;
            sq \<leftarrow> seq_try_from_u64 H v;
            host \<leftarrow> resolvable_name dns_name host;
            Some (host, Some sq)
          }
          else do { host \<leftarrow> resolvable_name dns_name name; Some (host, None) }
      | None \<Rightarrow> do { host \<leftarrow> resolvable_name dns_name name; Some (host, None) })"

section \<open>Candidate lookup\<close>

text \<open>An I/O error as its users see it: the text it prints and the error it names as its source.\<close>

datatype io_error = IoErr (io_text: rstr) (io_source: "io_error option")

abbreviation IoError :: "rstr \<Rightarrow> io_error" where
  "IoError text \<equiv> IoErr text None"

definition candidates_unsupported :: io_error where
  "candidates_unsupported = IoError (str ''resolver does not support endpoint candidate lookup'')"

type_synonym src_record = "Source \<times> DquicEndpointAddr"

text \<open>A resolver is its name, its lookup of records and, where it has one, its lookup of candidates.\<close>

record ResolverEntry =
  entry_label :: rstr
  entry_lookup :: "rstr \<Rightarrow> rstr \<Rightarrow> Family option \<Rightarrow> io_error + src_record list"
  entry_candidates :: "(rstr \<Rightarrow> EndpointLookup \<Rightarrow> io_error + EndpointCandidates) option"

record Resolvers =
  resolvers :: "ResolverEntry list"

definition Resolvers_new :: Resolvers where
  "Resolvers_new = \<lparr>resolvers = []\<rparr>"

definition push_resolver ::
  "rstr \<Rightarrow> (rstr \<Rightarrow> rstr \<Rightarrow> Family option \<Rightarrow> io_error + src_record list) \<Rightarrow> Resolvers \<Rightarrow> Resolvers" where
  "push_resolver label lk rs =
     rs\<lparr>resolvers := resolvers rs @ [\<lparr>entry_label = label, entry_lookup = lk, entry_candidates = None\<rparr>]\<rparr>"

definition push_candidate_resolver ::
  "rstr \<Rightarrow> (rstr \<Rightarrow> rstr \<Rightarrow> Family option \<Rightarrow> io_error + src_record list) \<Rightarrow>
   (rstr \<Rightarrow> EndpointLookup \<Rightarrow> io_error + EndpointCandidates) \<Rightarrow> Resolvers \<Rightarrow> Resolvers" where
  "push_candidate_resolver label lk f rs =
     rs\<lparr>resolvers := resolvers rs @ [\<lparr>entry_label = label, entry_lookup = lk, entry_candidates = Some f\<rparr>]\<rparr>"

definition unsupported_errors :: "Resolvers \<Rightarrow> (rstr \<times> io_error) list" where
  "unsupported_errors rs =
     map (\<lambda>e. (entry_label e, candidates_unsupported)) (filter (\<lambda>e. entry_candidates e = None) (resolvers rs))"

definition pending_lookups :: "Resolvers \<Rightarrow> rstr \<Rightarrow> EndpointLookup \<Rightarrow> (rstr \<times> (io_error + EndpointCandidates)) list" where
  "pending_lookups rs name lookup =
     List.map_filter (\<lambda>e. map_option (\<lambda>f. (entry_label e, f name lookup)) (entry_candidates e)) (resolvers rs)"

fun merge_group :: "EndpointCandidateGroup \<Rightarrow> EndpointCandidateGroup list \<Rightarrow> EndpointCandidateGroup list" where
  "merge_group g [] = [g]"
| "merge_group g (existing # gs) =
     (if chain existing = chain g then
        existing\<lparr>endpoints := endpoints existing @ filter (\<lambda>e. e \<notin> set (endpoints existing)) (endpoints g),
                 sources := sources existing @ filter (\<lambda>s. s \<notin> set (sources existing)) (sources g)\<rparr> # gs
      else existing # merge_group g gs)"

fun drain_candidates ::
  "(rstr \<times> (io_error + EndpointCandidates)) list \<Rightarrow>
   EndpointCandidateGroup list \<times> bool \<times> (rstr \<times> io_error) list \<Rightarrow>
   EndpointCandidateGroup list \<times> bool \<times> (rstr \<times> io_error) list" where
  "drain_candidates [] st = st"
| "drain_candidates ((label, Inr cands) # rest) (gs, ok, errs) =
     drain_candidates rest (fold merge_group (groups cands) gs, True, errs)"
| "drain_candidates ((label, Inl e) # rest) (gs, ok, errs) = drain_candidates rest (gs, ok, errs @ [(label, e)])"

text \<open>\<open>completed\<close> is \<open>pending_lookups rs name lookup\<close> in the order of completion.\<close>

definition lookup_endpoint_candidates ::
  "Resolvers \<Rightarrow> (rstr \<times> (io_error + EndpointCandidates)) list \<Rightarrow> (rstr \<times> io_error) list + EndpointCandidates" where
  "lookup_endpoint_candidates rs completed =
     (let (gs, succeeded, errs) = drain_candidates completed ([], False, unsupported_errors rs)
      in if \<not> succeeded then Inl errs else Inr \<lparr>groups = gs\<rparr>)"

section \<open>The record stream\<close>

record LookupState =
  pending :: "(rstr \<times> (io_error + src_record list)) list"
  streams :: "src_record list list"
  seen :: "src_record set"
  emitted :: "src_record list" \<comment> \<open>what the stream has yielded so far\<close>

text \<open>One event of the loop in \<open>next_unique_record\<close>: a pending lookup completes, or some stream yields
  its next record or ends. Each may happen whenever it is enabled, as \<^verbatim>\<open>tokio::select!\<close> allows.\<close>

inductive record_step :: "LookupState \<Rightarrow> LookupState \<Rightarrow> bool" where
  step_lookup_ok: "pending s = ps @ (label, Inr recs) # qs \<Longrightarrow>
    record_step s (s\<lparr>pending := ps @ qs, streams := streams s @ [recs]\<rparr>)"
| step_lookup_err: "pending s = ps @ (label, Inl e) # qs \<Longrightarrow>
    record_step s (s\<lparr>pending := ps @ qs\<rparr>)"
| step_new: "streams s = xs @ (r # rs) # ys \<Longrightarrow> r \<notin> seen s \<Longrightarrow>
    record_step s (s\<lparr>streams := xs @ rs # ys, seen := insert r (seen s), emitted := emitted s @ [r]\<rparr>)"
| step_duplicate: "streams s = xs @ (r # rs) # ys \<Longrightarrow> r \<in> seen s \<Longrightarrow>
    record_step s (s\<lparr>streams := xs @ rs # ys\<rparr>)"
| step_end: "streams s = xs @ [] # ys \<Longrightarrow> record_step s (s\<lparr>streams := xs @ ys\<rparr>)"

inductive_cases record_stepE: "record_step s t"

definition pending_records ::
  "Resolvers \<Rightarrow> rstr \<Rightarrow> rstr \<Rightarrow> Family option \<Rightarrow> (rstr \<times> (io_error + src_record list)) list" where
  "pending_records rs hostname servname fam =
     map (\<lambda>e. (entry_label e, entry_lookup e hostname servname fam)) (resolvers rs)"

text \<open>\<open>Resolvers::lookup\<close>: complete lookups one by one until one succeeds; the stream starts from the
  state reached. \<open>completed\<close> is the completion order.\<close>

fun lookup_start :: "(rstr \<times> (io_error + src_record list)) list \<Rightarrow> (rstr \<times> io_error) list \<Rightarrow>
    (rstr \<times> io_error) list + LookupState" where
  "lookup_start [] errs = Inl errs"
| "lookup_start ((label, Inr recs) # rest) errs = Inr \<lparr>pending = rest, streams = [recs], seen = {}, emitted = []\<rparr>"
| "lookup_start ((label, Inl e) # rest) errs = lookup_start rest (errs @ [(label, e)])"

section \<open>Lemmas on merging\<close>

definition group_pairs :: "EndpointCandidateGroup list \<Rightarrow> (CertificateChainKey \<times> DquicEndpointAddr) set" where
  "group_pairs gs = {(chain g, e) | g e. g \<in> set gs \<and> e \<in> set (endpoints g)}"

definition groups_ok :: "EndpointCandidateGroup list \<Rightarrow> bool" where
  "groups_ok gs \<longleftrightarrow> distinct (map chain gs) \<and> list_all (\<lambda>g. distinct (endpoints g)) gs"

lemma group_pairs_simps [simp]:
  "group_pairs [] = {}" "group_pairs (g # gs) = Pair (chain g) ` set (endpoints g) \<union> group_pairs gs"
  by (auto simp: group_pairs_def)

lemma chain_merge_group: "chain ` set (merge_group g gs) = insert (chain g) (chain ` set gs)"
  by (induction g gs rule: merge_group.induct) auto

lemma merge_group_pairs: "group_pairs (merge_group g gs) = Pair (chain g) ` set (endpoints g) \<union> group_pairs gs"
  by (induction g gs rule: merge_group.induct) auto

lemma merge_group_ok: "groups_ok gs \<Longrightarrow> distinct (endpoints g) \<Longrightarrow> groups_ok (merge_group g gs)"
proof (induction g gs rule: merge_group.induct)
  case (2 g existing gs)
  have "chain existing \<notin> set (map chain (merge_group g gs))" if "chain existing \<noteq> chain g"
    using that 2(2) chain_merge_group [of g gs] by (auto simp: groups_ok_def)
  with 2 show ?case by (auto simp: groups_ok_def)
qed (simp add: groups_ok_def)

lemma fold_merge_group:
  "group_pairs (fold merge_group new gs) = group_pairs new \<union> group_pairs gs"
  "groups_ok gs \<Longrightarrow> list_all (\<lambda>g. distinct (endpoints g)) new \<Longrightarrow> groups_ok (fold merge_group new gs)"
  by (induction new arbitrary: gs) (auto simp: merge_group_pairs merge_group_ok)

lemma drain_candidates_result:
  assumes "drain_candidates completed (gs, ok, errs) = (gs', ok', errs')"
  shows "group_pairs gs' = group_pairs gs \<union> (\<Union>(l, r) \<in> set completed. case r of Inr c \<Rightarrow> group_pairs (groups c) | Inl _ \<Rightarrow> {})"
    "ok' \<longleftrightarrow> ok \<or> (\<exists>l c. (l, Inr c) \<in> set completed)"
    "mset errs' = mset errs + mset (List.map_filter (\<lambda>(l, r). case r of Inl e \<Rightarrow> Some (l, e) | Inr _ \<Rightarrow> None) completed)"
  using assms
  by (induction completed "(gs, ok, errs)" arbitrary: gs ok errs rule: drain_candidates.induct)
    (auto simp: fold_merge_group List.map_filter_simps)

lemma failed_results:
  "\<forall>(l, r) \<in> set completed. isl r \<Longrightarrow>
   List.map_filter (\<lambda>(l, r). case r of Inl e \<Rightarrow> Some (l, e) | Inr _ \<Rightarrow> None) completed = map (\<lambda>(l, r). (l, projl r)) completed"
  by (induction completed) (auto simp: List.map_filter_simps isl_def)

definition result_ok :: "io_error + EndpointCandidates \<Rightarrow> bool" where
  "result_ok r = (case r of Inr c \<Rightarrow> list_all (\<lambda>g. distinct (endpoints g)) (groups c) | Inl _ \<Rightarrow> True)"

lemma drain_candidates_ok:
  "drain_candidates completed (gs, ok, errs) = (gs', ok', errs') \<Longrightarrow> groups_ok gs \<Longrightarrow>
   \<forall>(l, r) \<in> set completed. result_ok r \<Longrightarrow> groups_ok gs'"
proof (induction completed "(gs, ok, errs)" arbitrary: gs ok errs rule: drain_candidates.induct)
  case (2 label cands rest gs ok errs)
  then have "groups_ok (fold merge_group (groups cands) gs)"
    by (intro fold_merge_group(2)) (auto simp: result_ok_def)
  with 2 show ?case by simp
qed simp_all

text \<open>Whatever the resolvers return, merging keeps one group per chain, and lists an endpoint as often as one of the
  merged groups of that chain does.\<close>

definition listed_as :: "EndpointCandidateGroup list \<Rightarrow> EndpointCandidateGroup list \<Rightarrow> bool" where
  "listed_as gs given \<longleftrightarrow> distinct (map chain gs) \<and>
     (\<forall>g \<in> set gs. \<forall>e \<in> set (endpoints g). \<exists>h \<in> set given. chain h = chain g \<and> count_list (endpoints g) e = count_list (endpoints h) e)"

lemma count_list_filter: "count_list (filter P xs) e = (if P e then count_list xs e else 0)"
  by (induction xs) auto

lemma merge_group_listed:
  assumes "listed_as gs given"
  shows "listed_as (merge_group g gs) (g # given)"
  using assms
proof (induction g gs rule: merge_group.induct)
  case (2 g existing gs)
  have rest: "listed_as gs given" using 2(2) by (simp add: listed_as_def)
  show ?case
  proof (cases "chain existing = chain g")
    case True
    then show ?thesis using 2(2)
      by (fastforce simp: listed_as_def count_list_filter count_list_0_iff [symmetric] simp del: count_list_0_iff)
  next
    case False
    have "chain existing \<notin> chain ` set (merge_group g gs)"
      using False 2(2) chain_merge_group [of g gs] by (auto simp: listed_as_def)
    with 2(1) [OF False rest] 2(2) False show ?thesis by (auto simp: listed_as_def)
  qed
qed (simp add: listed_as_def)

lemma listed_as_mono: "listed_as gs given \<Longrightarrow> set given \<subseteq> set given' \<Longrightarrow> listed_as gs given'"
  unfolding listed_as_def by blast

lemma fold_merge_group_listed: "listed_as gs given \<Longrightarrow> listed_as (fold merge_group new gs) (new @ given)"
proof (induction new arbitrary: gs given)
  case (Cons g new)
  have "listed_as (fold merge_group (g # new) gs) (new @ g # given)"
    using Cons.IH [OF merge_group_listed [OF Cons.prems, of g]] by simp
  then show ?case by (rule listed_as_mono) auto
qed simp

definition answered_groups :: "(rstr \<times> (io_error + EndpointCandidates)) list \<Rightarrow> EndpointCandidateGroup list" where
  "answered_groups completed = concat (map (\<lambda>(l, r). case r of Inr c \<Rightarrow> groups c | Inl _ \<Rightarrow> []) completed)"

lemma drain_candidates_listed:
  "drain_candidates completed (gs, ok, errs) = (gs', ok', errs') \<Longrightarrow> listed_as gs given \<Longrightarrow>
   listed_as gs' (answered_groups completed @ given)"
proof (induction completed "(gs, ok, errs)" arbitrary: gs ok errs given rule: drain_candidates.induct)
  case (2 label cands rest gs ok errs)
  have "listed_as gs' (answered_groups rest @ groups cands @ given)"
    by (rule 2(1)) (use 2(2,3) fold_merge_group_listed in auto)
  then show ?case by (rule listed_as_mono) (auto simp: answered_groups_def)
qed (simp_all add: answered_groups_def)

section \<open>Invariants of the record stream\<close>

definition ok_records :: "(rstr \<times> (io_error + src_record list)) list \<Rightarrow> src_record set" where
  "ok_records ps = (\<Union>(l, r) \<in> set ps. case r of Inr recs \<Rightarrow> set recs | Inl _ \<Rightarrow> {})"

definition remaining :: "LookupState \<Rightarrow> src_record set" where
  "remaining s = ok_records (pending s) \<union> \<Union> (set ` set (streams s))"

definition stream_inv :: "src_record set \<Rightarrow> LookupState \<Rightarrow> bool" where
  "stream_inv recs s \<longleftrightarrow> distinct (emitted s) \<and> set (emitted s) = seen s \<and> seen s \<union> remaining s = recs"

lemma ok_records_simps [simp]:
  "ok_records [] = {}" "ok_records ((l, Inr r) # ps) = set r \<union> ok_records ps" "ok_records ((l, Inl e) # ps) = ok_records ps"
  "ok_records (ps @ qs) = ok_records ps \<union> ok_records qs"
  by (auto simp: ok_records_def)

lemma record_step_inv: "record_step s t \<Longrightarrow> stream_inv recs s \<Longrightarrow> stream_inv recs t"
  by (induction rule: record_step.induct) (auto simp: stream_inv_def remaining_def)

lemma reachable_inv: "record_step\<^sup>*\<^sup>* s t \<Longrightarrow> stream_inv recs s \<Longrightarrow> stream_inv recs t"
  by (induction rule: rtranclp_induct) (auto intro: record_step_inv)

text \<open>Every event uses something up.\<close>

definition pending_weight :: "rstr \<times> (io_error + src_record list) \<Rightarrow> nat" where
  "pending_weight p = (case snd p of Inr recs \<Rightarrow> length recs + 2 | Inl _ \<Rightarrow> 1)"

definition stream_weight :: "LookupState \<Rightarrow> nat" where
  "stream_weight s = sum_list (map pending_weight (pending s)) + sum_list (map (\<lambda>r. length r + 1) (streams s))"

lemma record_step_weight: "record_step s t \<Longrightarrow> stream_weight t < stream_weight s"
  by (induction rule: record_step.induct) (auto simp: stream_weight_def pending_weight_def)

lemma record_step_enabled: "pending s \<noteq> [] \<or> streams s \<noteq> [] \<Longrightarrow> \<exists>t. record_step s t"
proof -
  assume "pending s \<noteq> [] \<or> streams s \<noteq> []"
  then consider label recs qs where "pending s = [] @ (label, Inr recs) # qs"
    | label e qs where "pending s = [] @ (label, Inl e) # qs"
    | ys where "streams s = [] @ [] # ys" | r rs ys where "streams s = [] @ (r # rs) # ys"
    by (metis append_Nil neq_Nil_conv surj_pair sumE)
  then show ?thesis
    by cases (blast intro: record_step.intros)+
qed

lemma lookup_start_inv:
  "lookup_start completed errs = Inr s \<Longrightarrow> stream_inv (ok_records completed) s"
  by (induction completed errs rule: lookup_start.induct) (auto simp: stream_inv_def remaining_def)

section \<open>Properties\<close>

text \<open>C25: Merging candidate lookups does not depend on the order in which the resolvers answer: for every
  completion order the lookup fails exactly when no resolver succeeded, and then reports the
  error of every resolver; otherwise the (chain, endpoint) pairs of the result are exactly those
  that some successful resolver returned, with one group per chain. Merging never repeats an endpoint:
  a group lists each of its endpoints just as often as a group of that chain in one of the answers, so
  once if no answer repeats it.\<close>

theorem candidate_merge_any_order:
  assumes "mset completed = mset (pending_lookups rs name lookup)"
  shows "case lookup_endpoint_candidates rs completed of
      Inl errs \<Rightarrow> (\<forall>(l, r) \<in> set (pending_lookups rs name lookup). isl r) \<and>
        mset errs = mset (unsupported_errors rs) + mset (map (\<lambda>(l, r). (l, projl r)) (pending_lookups rs name lookup))
    | Inr c \<Rightarrow> (\<exists>l c. (l, Inr c) \<in> set (pending_lookups rs name lookup)) \<and> distinct (map chain (groups c)) \<and>
        (\<forall>g \<in> set (groups c). \<forall>e \<in> set (endpoints g). \<exists>l answer h. (l, Inr answer) \<in> set (pending_lookups rs name lookup) \<and>
          h \<in> set (groups answer) \<and> chain h = chain g \<and> count_list (endpoints g) e = count_list (endpoints h) e) \<and>
        group_pairs (groups c) = (\<Union>(l, r) \<in> set (pending_lookups rs name lookup).
          case r of Inr c \<Rightarrow> group_pairs (groups c) | Inl _ \<Rightarrow> {})"
proof -
  let ?p = "pending_lookups rs name lookup"
  obtain gs ok errs where d: "drain_candidates completed ([], False, unsupported_errors rs) = (gs, ok, errs)"
    by (cases "drain_candidates completed ([], False, unsupported_errors rs)")
  have set_eq: "set completed = set ?p" using assms by (rule mset_eq_setD)
  note r = drain_candidates_result [OF d]
  show ?thesis
  proof (cases ok)
    case True
    then have "\<exists>l c. (l, Inr c) \<in> set ?p" using r(2) set_eq by auto
    moreover have l: "listed_as gs (answered_groups completed)"
      using drain_candidates_listed [OF d, of "[]"] by (simp add: listed_as_def)
    then have "distinct (map chain gs)" by (simp add: listed_as_def)
    moreover have "\<exists>l answer h. (l, Inr answer) \<in> set ?p \<and> h \<in> set (groups answer) \<and> chain h = chain g \<and>
        count_list (endpoints g) e = count_list (endpoints h) e" if "g \<in> set gs" "e \<in> set (endpoints g)" for g e
      using l that by (fastforce simp: listed_as_def answered_groups_def set_eq split: sum.splits)
    ultimately show ?thesis using True d r(1) set_eq by (simp add: lookup_endpoint_candidates_def)
  next
    case False
    have "isl q" if "(l, q) \<in> set completed" for l q using False r(2) that by (cases q) auto
    then have left: "\<forall>(l, r) \<in> set completed. isl r" by blast
    note failed_results [OF this]
    moreover have "mset (map (\<lambda>(l, r). (l, projl r)) completed) = mset (map (\<lambda>(l, r). (l, projl r)) ?p)"
      using assms by simp
    ultimately show ?thesis using False d r(3) left set_eq by (simp add: lookup_endpoint_candidates_def)
  qed
qed

definition demo_group :: "u16 \<Rightarrow> EndpointCandidateGroup" where
  "demo_group p = \<lparr>chain = primary_chain_key 0, endpoints = [Direct (V4 (SocketAddrV4 1 p))], sources = [System]\<rparr>"

definition demo_record :: src_record where
  "demo_record = (System, Direct (V4 (SocketAddrV4 1 2)))"

definition demo_resolvers :: Resolvers where
  "demo_resolvers = push_candidate_resolver (str ''b'') (\<lambda>_ _ _. Inl (IoError (str ''down''))) (\<lambda>_ _. Inr \<lparr>groups = [demo_group 2]\<rparr>)
     (push_candidate_resolver (str ''a'') (\<lambda>_ _ _. Inr [demo_record, demo_record]) (\<lambda>_ _. Inr \<lparr>groups = [demo_group 1]\<rparr>) Resolvers_new)"

theorem candidate_merge_any_order_witness:
  "\<exists>c. lookup_endpoint_candidates demo_resolvers
       [(str ''b'', Inr \<lparr>groups = [demo_group 2]\<rparr>), (str ''a'', Inr \<lparr>groups = [demo_group 1]\<rparr>)] = Inr c \<and>
     distinct (map chain (groups c)) \<and> group_pairs (groups c) = group_pairs [demo_group 1, demo_group 2]"
proof -
  let ?done = "[(str ''b'', Inr \<lparr>groups = [demo_group 2]\<rparr>), (str ''a'', Inr \<lparr>groups = [demo_group 1]\<rparr>)]"
  have p: "pending_lookups demo_resolvers (str ''n'') EndpointLookup_default =
      [(str ''a'', Inr \<lparr>groups = [demo_group 1]\<rparr>), (str ''b'', Inr \<lparr>groups = [demo_group 2]\<rparr>)]"
    by (simp add: demo_resolvers_def push_candidate_resolver_def Resolvers_new_def pending_lookups_def List.map_filter_simps)
  have "mset ?done = mset (pending_lookups demo_resolvers (str ''n'') EndpointLookup_default)" by (simp add: p)
  note m = candidate_merge_any_order [OF this]
  obtain c where c: "lookup_endpoint_candidates demo_resolvers ?done = Inr c"
    by (simp add: lookup_endpoint_candidates_def)
  from m have "distinct (map chain (groups c))" "group_pairs (groups c) = (\<Union>(l, r) \<in> set (pending_lookups demo_resolvers (str ''n'') EndpointLookup_default).
      case r of Inr c \<Rightarrow> group_pairs (groups c) | Inl _ \<Rightarrow> {})" by (simp_all add: c)
  with c show ?thesis by (intro exI [of _ c]) (simp add: p)
qed

text \<open>C19: The record stream of an aggregate lookup, under every interleaving of the resolvers: it never
  yields a record twice and never one that no resolver returned; it cannot go on for ever; and when
  it ends it has yielded every record of every resolver that succeeded, the slow ones included.\<close>

theorem record_stream_exactly_once:
  assumes "mset completed = mset (pending_records rs hostname servname fam)"
    and "lookup_start completed [] = Inr s0" and "record_step\<^sup>*\<^sup>* s0 s"
  shows "distinct (emitted s) \<and> set (emitted s) \<subseteq> ok_records (pending_records rs hostname servname fam) \<and>
    wf {(t, u). record_step u t} \<and>
    ((\<nexists>t. record_step s t) \<longrightarrow> set (emitted s) = ok_records (pending_records rs hostname servname fam))"
proof (intro conjI impI)
  let ?recs = "ok_records (pending_records rs hostname servname fam)"
  have "ok_records completed = ?recs" using mset_eq_setD [OF assms(1)] by (simp add: ok_records_def)
  then have inv: "stream_inv ?recs s"
    using reachable_inv [OF assms(3) lookup_start_inv [OF assms(2)]] by simp
  then show "distinct (emitted s)" "set (emitted s) \<subseteq> ?recs" by (auto simp: stream_inv_def)
  show "wf {(t, u). record_step u t}"
    by (rule wf_subset [OF wf_measure [of stream_weight]]) (auto dest: record_step_weight)
  assume "\<nexists>t. record_step s t"
  then have "pending s = [] \<and> streams s = []" using record_step_enabled by blast
  then have "remaining s = {}" by (simp add: remaining_def)
  with inv show "set (emitted s) = ?recs" by (simp add: stream_inv_def)
qed

theorem record_stream_exactly_once_witness:
  "\<exists>s. record_step\<^sup>*\<^sup>* \<lparr>pending = [], streams = [[demo_record, demo_record]], seen = {}, emitted = []\<rparr> s \<and>
     emitted s = [demo_record] \<and> distinct (emitted s) \<and> set (emitted s) = ok_records (pending_records demo_resolvers (str ''h'') (str ''443'') None)"
proof -
  let ?c = "[(str ''b'', Inl (IoError (str ''down''))), (str ''a'', Inr [demo_record, demo_record])]"
  let ?s0 = "\<lparr>pending = [], streams = [[demo_record, demo_record]], seen = {}, emitted = []\<rparr>"
  let ?s1 = "\<lparr>pending = [], streams = [[demo_record]], seen = {demo_record}, emitted = [demo_record]\<rparr>"
  let ?s2 = "\<lparr>pending = [], streams = [[]], seen = {demo_record}, emitted = [demo_record]\<rparr>"
  let ?s3 = "\<lparr>pending = [], streams = [], seen = {demo_record}, emitted = [demo_record]\<rparr>"
  have "record_step ?s0 ?s1" using step_new [of ?s0 "[]" demo_record "[demo_record]" "[]"] by simp
  moreover have "record_step ?s1 ?s2" using step_duplicate [of ?s1 "[]" demo_record "[]" "[]"] by simp
  moreover have "record_step ?s2 ?s3" using step_end [of ?s2 "[]" "[]"] by simp
  ultimately have run: "record_step\<^sup>*\<^sup>* ?s0 ?s3" by (meson converse_rtranclp_into_rtranclp rtranclp.rtrancl_refl)
  have start: "lookup_start ?c [] = Inr ?s0" by simp
  have order: "mset ?c = mset (pending_records demo_resolvers (str ''h'') (str ''443'') None)"
    by (simp add: pending_records_def demo_resolvers_def push_candidate_resolver_def Resolvers_new_def)
  have "\<nexists>t. record_step ?s3 t" by (auto elim: record_stepE)
  with record_stream_exactly_once [OF order start run] run show ?thesis by (intro exI [of _ ?s3]) simp
qed

text \<open>A lookup string \<open>host:digits\<close> asks for that host and exactly the certificate sequence the
  digits denote; digits beyond the range of sequences are refused rather than ignored; a string
  without a colon asks for the host alone. In every case the host returned is a DNS name.\<close>

theorem lookup_name_and_sequence:
  assumes "home_laws H" and "colon \<notin> set host" and "dns_name host"
  shows "endpoint_lookup_name_and_sequence dns_name H host = Some (host, None) \<and>
    endpoint_lookup_name_and_sequence dns_name H (host @ [colon] @ display_u64 v) =
      (case seq_try_from_u64 H v of Some s \<Rightarrow> Some (host, Some s) | None \<Rightarrow> None) \<and>
    (case endpoint_lookup_name_and_sequence dns_name H name of Some (h, _) \<Rightarrow> dns_name h | None \<Rightarrow> True)"
proof (intro conjI)
  have res: "resolvable_name dns_name host = Some host"
    using assms(2,3) by (simp add: resolvable_name_def rsplit_once_None [THEN iffD2])
  then show "endpoint_lookup_name_and_sequence dns_name H host = Some (host, None)"
    using assms(2) by (simp add: endpoint_lookup_name_and_sequence_def rsplit_once_None [THEN iffD2])
  have dig: "display_u64 v \<noteq> []" "list_all is_ascii_digit (display_u64 v)"
    using dec_digits_props [of "unat v"] by (simp_all add: display_u64_def)
  then have "colon \<notin> set (display_u64 v)" by (auto simp: list_all_iff is_ascii_digit_def)
  then have "rsplit_once colon (host @ [colon] @ display_u64 v) = Some (host, display_u64 v)"
    by (simp add: rsplit_once_Some)
  then show "endpoint_lookup_name_and_sequence dns_name H (host @ [colon] @ display_u64 v) =
      (case seq_try_from_u64 H v of Some s \<Rightarrow> Some (host, Some s) | None \<Rightarrow> None)"
    using dig res
    by (simp add: endpoint_lookup_name_and_sequence_def all_digits_def parse_display_u64 split: option.splits)
  have "resolvable_name dns_name n = Some h \<Longrightarrow> dns_name h" for n h
    by (auto simp: resolvable_name_def Let_def split: if_splits)
  then show "case endpoint_lookup_name_and_sequence dns_name H name of Some (h, _) \<Rightarrow> dns_name h | None \<Rightarrow> True"
    by (auto simp: endpoint_lookup_name_and_sequence_def bind_eq_Some_conv split: option.splits if_splits)
qed

theorem lookup_name_and_sequence_witness:
  "endpoint_lookup_name_and_sequence (\<lambda>_. True) ref_home (str ''a'') = Some (str ''a'', None) \<and>
    endpoint_lookup_name_and_sequence (\<lambda>_. True) ref_home (str ''a'' @ [colon] @ display_u64 2) =
      (case seq_try_from_u64 ref_home 2 of Some s \<Rightarrow> Some (str ''a'', Some s) | None \<Rightarrow> None) \<and>
    (case endpoint_lookup_name_and_sequence (\<lambda>_. True) ref_home [] of Some (h, _) \<Rightarrow> True | None \<Rightarrow> True)"
  by (rule lookup_name_and_sequence [OF refh.home_laws_axioms]) (simp_all add: str_def)

end
