(* ===== verification/Publishers.thy ===== *)
theory Publishers
  imports Packet Resolvers
begin

text \<open>
  Publication (\<^verbatim>\<open>src/publishers/packet.rs\<close>, \<^verbatim>\<open>src/publishers/aggregate.rs\<close>): the endpoint records and the
  DNS packet an authority publishes for its own name, and the aggregate that hands one snapshot of
  the endpoints to every publisher and reports who succeeded. A publisher is its label and its
  publish function; the completion order of the concurrent publications is an argument.
\<close>

section \<open>The packet of an authority\<close>

datatype EncodeAuthorityDnsPacketError =
  AuthorityNameMismatch | DhttpSubjectKeyIdentifier | EncodeEndpoint | SecondaryAuthority

fun encode_endpoints :: "CertificateChainKey \<Rightarrow> DquicEndpointAddr list \<Rightarrow> EndpointAddr list \<Rightarrow>
    EncodeAuthorityDnsPacketError + EndpointAddr list" where
  "encode_endpoints key [] encoded = Inr encoded"
| "encode_endpoints key (endpoint # rest) encoded =
     (case try_from_dquic endpoint of
        None \<Rightarrow> Inl EncodeEndpoint
      | Some endpoint \<Rightarrow>
          let endpoint = set_main True endpoint;
              endpoint = set_sequence (key_sequence key) endpoint
          in encode_endpoints key rest (encoded @ [endpoint]))"

definition dns_endpoints_for_authority ::
  "home \<Rightarrow> authority \<Rightarrow> name \<Rightarrow> DquicEndpointAddr list \<Rightarrow> EncodeAuthorityDnsPacketError + EndpointAddr list" where
  "dns_endpoints_for_authority H auth name addrs =
     (if authority_name auth \<noteq> name then Inl AuthorityNameMismatch
      else case extract_chain_key H (certificates auth) of
        None \<Rightarrow> Inl DhttpSubjectKeyIdentifier
      | Some key \<Rightarrow>
          (case encode_endpoints key addrs [] of
             Inl e \<Rightarrow> Inl e
           | Inr encoded \<Rightarrow>
               if encoded = [] \<or> is_primary_chain_key H key then Inr encoded else Inl SecondaryAuthority))"

definition dns_packet_for_authority ::
  "codec \<Rightarrow> home \<Rightarrow> authority \<Rightarrow> name \<Rightarrow> DquicEndpointAddr list \<Rightarrow> (EncodeAuthorityDnsPacketError + bytes) option" where
  "dns_packet_for_authority C H auth name addrs =
     (case dns_endpoints_for_authority H auth name addrs of
        Inl e \<Rightarrow> Some (Inl e)
      | Inr encoded \<Rightarrow> map_option Inr (to_bytes C (answer 0 [(name, encoded)])))"

section \<open>The aggregate publisher\<close>

type_synonym publisher = "rstr \<times> (name \<Rightarrow> DquicEndpointAddr list \<Rightarrow> io_error + unit)"

record Publishers =
  publishers :: "publisher list"

record PublishReport =
  successes :: "rstr list"
  failures :: "(rstr \<times> io_error) list"

definition Publishers_new :: Publishers where
  "Publishers_new = \<lparr>publishers = []\<rparr>"

definition push_publisher :: "publisher \<Rightarrow> Publishers \<Rightarrow> Publishers" where
  "push_publisher p ps = ps\<lparr>publishers := publishers ps @ [p]\<rparr>"

definition is_complete :: "PublishReport \<Rightarrow> bool" where
  "is_complete r \<longleftrightarrow> failures r = []"

definition is_partial :: "PublishReport \<Rightarrow> bool" where
  "is_partial r \<longleftrightarrow> successes r \<noteq> [] \<and> failures r \<noteq> []"

definition pending_publications :: "Publishers \<Rightarrow> name \<Rightarrow> DquicEndpointAddr list \<Rightarrow> (rstr \<times> (io_error + unit)) list" where
  "pending_publications ps name addrs = map (\<lambda>(label, publish). (label, publish name addrs)) (publishers ps)"

fun split_results :: "(rstr \<times> (io_error + unit)) list \<Rightarrow> rstr list \<Rightarrow> (rstr \<times> io_error) list \<Rightarrow>
    rstr list \<times> (rstr \<times> io_error) list" where
  "split_results [] succ fail = (succ, fail)"
| "split_results ((label, Inr _) # rest) succ fail = split_results rest (succ @ [label]) fail"
| "split_results ((label, Inl e) # rest) succ fail = split_results rest succ (fail @ [(label, e)])"

text \<open>\<open>results\<close> is \<open>pending_publications ps name addrs\<close> in the order of completion.\<close>

definition publish_all :: "Publishers \<Rightarrow> (rstr \<times> (io_error + unit)) list \<Rightarrow> (rstr \<times> io_error) list + PublishReport" where
  "publish_all ps results =
     (if publishers ps = [] then Inl []
      else let (succ, fail) = split_results results [] []
           in if succ = [] then Inl fail else Inr \<lparr>successes = succ, failures = fail\<rparr>)"

definition aggregate_publish :: "Publishers \<Rightarrow> (rstr \<times> (io_error + unit)) list \<Rightarrow> (rstr \<times> io_error) list + unit" where
  "aggregate_publish ps results = (case publish_all ps results of Inl errors \<Rightarrow> Inl errors | Inr report \<Rightarrow> Inr ())"

section \<open>Lemmas\<close>

definition stamp :: "CertificateChainKey \<Rightarrow> EndpointAddr \<Rightarrow> EndpointAddr" where
  "stamp key ep = set_sequence (key_sequence key) (set_main True ep)"

text \<open>The endpoints that a record can hold: both addresses are of one family, and an IPv6 address has no flow
  information and no scope, which the wire format does not carry.\<close>

definition dquic_ok :: "DquicEndpointAddr \<Rightarrow> bool" where
  "dquic_ok d \<longleftrightarrow> (case try_from_dquic d of Some ep \<Rightarrow> addr_ok (is_ipv6 ep) (primary ep) \<and>
     (case agent ep of Some a \<Rightarrow> addr_ok (is_ipv6 ep) a | None \<Rightarrow> True) | None \<Rightarrow> False)"

lemma encode_endpoints_spec:
  "encode_endpoints key ds acc =
     (if list_ex (\<lambda>d. try_from_dquic d = None) ds then Inl EncodeEndpoint
      else Inr (acc @ map (\<lambda>d. stamp key (the (try_from_dquic d))) ds))"
  by (induction ds arbitrary: acc) (auto simp: stamp_def Let_def split: option.splits)

lemma split_results_spec:
  "split_results rs succ fail =
     (succ @ map fst (filter (\<lambda>(_, r). \<not> isl r) rs), fail @ map (\<lambda>(l, r). (l, projl r)) (filter (\<lambda>(_, r). isl r) rs))"
  by (induction rs succ fail rule: split_results.induct) auto

lemma length_base_bytes:
  assumes "base_wf H ep"
  shows "length (base_bytes ep) \<le> 64"
proof -
  have "varint_exp v \<le> 3" for v by (simp add: varint_exp_def)
  then have "length (varint_bytes v) \<le> 8" for v
    using power_increasing [of "varint_exp v" 3 "2 :: nat"] by (simp add: length_varint_bytes)
  then have seq: "length (opt_bytes (\<lambda>s. varint_bytes (ucast s)) (sequence ep)) \<le> 8" by (simp add: opt_bytes_def split: option.split)
  have addr: "addr_ok v6 a \<Longrightarrow> length (addr_bytes a) \<le> 18" for v6 a by (simp add: length_addr_bytes)
  have "length (addr_bytes (primary ep)) \<le> 18" using assms addr by (auto simp: base_wf_def)
  moreover have "length (opt_bytes addr_bytes (agent ep)) \<le> 18"
    using assms addr by (auto simp: base_wf_def opt_bytes_def split: option.splits)
  moreover have "length (opt_bytes (to_be 4) (load ep)) \<le> 4" by (simp add: opt_bytes_def split: option.split)
  ultimately show ?thesis using seq by (simp add: base_bytes_def)
qed

lemma dquic_wf:
  assumes "dquic_ok d"
  shows "\<exists>ep. try_from_dquic d = Some ep \<and> ep_wf H ep \<and> signature ep = None \<and> try_into_dquic ep = Some d"
proof -
  obtain ep where ep: "try_from_dquic d = Some ep" using assms by (auto simp: dquic_ok_def split: option.splits)
  then have "ep_wf H ep \<and> signature ep = None"
    using assms constructors_wf [where H = H]
    by (cases d rule: try_from_dquic.cases)
      (auto simp: dquic_ok_def direct_v4_def direct_v6_def nat_v4_def nat_v6_def is_ipv6_def FLAG_defs)
  then show ?thesis using ep try_dquic_roundtrip by blast
qed

lemma stamp_ok:
  assumes "home_laws H" and "ep_wf H ep" and "signature ep = None" and "seq_ok H (key_sequence key)"
  shows "rdata_ok H (RData.E (stamp key ep))" "certificate_chain_key H (stamp key ep) = primary_chain_key (key_sequence key)"
    "is_main (stamp key ep)" "\<not> is_signed (stamp key ep)" "try_into_dquic (stamp key ep) = try_into_dquic ep"
proof -
  have main: "is_main (stamp key ep)" by (simp add: stamp_def set_sequence_def)
  have wf: "ep_wf H (stamp key ep)" unfolding stamp_def by (intro setters_wf assms)
  have sig: "signature (stamp key ep) = None" using assms(3) by (simp add: stamp_def set_sequence_def)
  show "\<not> is_signed (stamp key ep)" using wf sig by (simp add: ep_wf_def)
  show "is_main (stamp key ep)" by (rule main)
  have "primary (stamp key ep) = primary ep" "agent (stamp key ep) = agent ep" by (simp_all add: stamp_def set_sequence_def)
  then show "try_into_dquic (stamp key ep) = try_into_dquic ep" by (simp only: try_into_dquic_def)
  show "rdata_ok H (RData.E (stamp key ep))"
    using wf sig length_base_bytes [of H "stamp key ep"] by (auto simp: ep_wf_def endpoint_bytes_def)
  show "certificate_chain_key H (stamp key ep) = primary_chain_key (key_sequence key)"
    using main home_laws.seq_from_u8_value [OF assms(1), of 0]
    by (auto simp: certificate_chain_key_def normalized_sequence_def stamp_def set_sequence_def word_gt_0)
qed

lemma dns_endpoints_for_authority_cases:
  assumes "dns_endpoints_for_authority H auth name ds = Inr encoded"
  obtains key where "authority_name auth = name" "extract_chain_key H (certificates auth) = Some key"
    "encoded = map (\<lambda>d. stamp key (the (try_from_dquic d))) ds" "ds = [] \<or> is_primary_chain_key H key"
  using assms by (auto simp: dns_endpoints_for_authority_def encode_endpoints_spec split: if_splits option.splits)

lemma contribution_stamp:
  assumes "home_laws H" and "dquic_ok d" and "seq_ok H (key_sequence key)"
  shows "contribution H \<lparr>tag = t, tec_record = stamp key (the (try_from_dquic d)), fallback_chain_key = fb\<rparr> =
    Some (primary_chain_key (key_sequence key), t, d)"
proof -
  obtain ep where ep: "try_from_dquic d = Some ep" "ep_wf H ep" "signature ep = None" "try_into_dquic ep = Some d"
    using dquic_wf [OF assms(2)] by blast
  note s = stamp_ok [OF assms(1) ep(2,3) assms(3)]
  show ?thesis
    using s(2,3,5) ep home_laws.is_primary_iff [OF assms(1)]
    by (simp add: contribution_def effective_chain_key_def)
qed

lemma map_filter_contribution_stamp:
  assumes "home_laws H" and "list_all dquic_ok ds" and "seq_ok H (key_sequence key)"
  shows "List.map_filter (contribution H) (map (\<lambda>d. \<lparr>tag = t, tec_record = stamp key (the (try_from_dquic d)), fallback_chain_key = fb\<rparr>) ds) =
    map (\<lambda>d. (primary_chain_key (key_sequence key), t, d)) ds"
  using assms(2) by (induction ds) (simp_all add: List.map_filter_simps contribution_stamp [OF assms(1) _ assms(3)])

lemma stamped_endpoint:
  assumes "home_laws H" and "dquic_ok d" and "seq_ok H (key_sequence key)"
  shows "rdata_ok H (RData.E (stamp key (the (try_from_dquic d))))" "is_main (stamp key (the (try_from_dquic d)))"
    "\<not> is_signed (stamp key (the (try_from_dquic d)))"
    "certificate_chain_key H (stamp key (the (try_from_dquic d))) = primary_chain_key (key_sequence key)"
proof -
  obtain e where e: "try_from_dquic d = Some e" "ep_wf H e" "signature e = None" using dquic_wf [OF assms(2)] by blast
  show "rdata_ok H (RData.E (stamp key (the (try_from_dquic d))))" "is_main (stamp key (the (try_from_dquic d)))"
    "\<not> is_signed (stamp key (the (try_from_dquic d)))"
    "certificate_chain_key H (stamp key (the (try_from_dquic d))) = primary_chain_key (key_sequence key)"
    using stamp_ok [OF assms(1) e(2,3) assms(3)] e(1) by simp_all
qed

lemma authority_packet_read:
  assumes "codec_laws C" and "home_laws H" and "dns_packet_for_authority C H auth name ds = Some (Inr bs)"
    and "extract_chain_key H (certificates auth) = Some key" and "name_fits name" and "length ds \<le> 65535"
    and "list_all dquic_ok ds"
  shows "authority_name auth = name \<and> (\<exists>p. be_packet C H bs = Inr ([], p) \<and>
    answers p = answer_records [(name, map (\<lambda>d. stamp key (the (try_from_dquic d))) ds)])"
proof -
  obtain eps where enc: "dns_endpoints_for_authority H auth name ds = Inr eps"
    and bs: "to_bytes C (answer 0 [(name, eps)]) = Some bs"
    using assms(3) by (auto simp: dns_packet_for_authority_def split: sum.splits)
  have eps: "eps = map (\<lambda>d. stamp key (the (try_from_dquic d))) ds" and an: "authority_name auth = name"
    using dns_endpoints_for_authority_cases [OF enc] assms(4) by (metis option.inject)+
  have "seq_ok H (key_sequence key)"
    using home_laws.extract_valid [OF assms(2,4)] by (simp add: seq_ok_def)
  then have "rdata_ok H (RData.E ep)" if "ep \<in> set eps" for ep
    using that stamped_endpoint(1) [OF assms(2)] assms(7) unfolding eps list_all_iff by auto
  then show ?thesis
    using answer_reads_back [OF assms(1), of "[(name, eps)]" H 0] assms(5,6) bs an
    by (auto simp: answer_records_def eps)
qed

section \<open>Properties\<close>

text \<open>Publication and lookup agree end to end. The packet an authority publishes for its name parses
  completely; its answers carry the authority's name and are, in order, unsigned main records of the
  authority's chain; and selecting the authority's certificate sequence from them gives back exactly
  the endpoints that were published, in order.\<close>

theorem authority_publication_selected:
  assumes "codec_laws C" and "home_laws H" and "dns_packet_for_authority C H auth name ds = Some (Inr bs)"
    and "extract_chain_key H (certificates auth) = Some key" and "name_fits name" and "length ds \<le> 65535"
    and "list_all dquic_ok ds"
  shows "\<exists>p eps. be_packet C H bs = Inr ([], p) \<and> map rdata (answers p) = map RData.E eps \<and>
    list_all (\<lambda>rr. rr_name rr = authority_name auth) (answers p) \<and>
    list_all (\<lambda>ep. is_main ep \<and> \<not> is_signed ep \<and> certificate_chain_key H ep = primary_chain_key (key_sequence key)) eps \<and>
    selected_endpoint_addrs_for_sequence H eps (Some (key_sequence key)) = ds"
proof -
  have seq: "seq_ok H (key_sequence key)"
    using home_laws.extract_valid [OF assms(2,4)] by (simp add: seq_ok_def)
  obtain p eps where an: "authority_name auth = name" and p: "be_packet C H bs = Inr ([], p)" "answers p = answer_records [(name, eps)]"
    and eps: "eps = map (\<lambda>d. stamp key (the (try_from_dquic d))) ds"
    using authority_packet_read [OF assms] by auto
  have sel: "selected_endpoint_addrs_for_sequence H eps (Some (key_sequence key)) = ds"
    using map_filter_contribution_stamp [OF assms(2,7) seq, of "()" None]
    by (simp add: selected_endpoint_addrs_for_sequence_def selected_endpoint_records_for_sequence_def
        selected_records_spec [OF assms(2)] eps comp_def values_of_def)
  show ?thesis
    using stamped_endpoint [OF assms(2) _ seq] assms(7)
    by (intro exI [of _ p] exI [of _ eps])
      (auto simp: p sel [unfolded eps] an answer_records_def list_all_iff eps simp del: chain_key_simps)
qed

text \<open>C40: The aggregate publisher, whatever order the publishers complete in: it fails exactly when none
  succeeded (in particular with no publishers), and then with the errors of all of them; otherwise
  the report lists exactly the publishers that succeeded and exactly the errors of the others, so it
  is complete when none failed and partial otherwise.\<close>

theorem publish_all_reports:
  assumes "mset results = mset (pending_publications ps name ds)"
  shows "case publish_all ps results of
      Inl errs \<Rightarrow> list_all (\<lambda>(l, r). isl r) (pending_publications ps name ds) \<and>
        mset errs = mset (map (\<lambda>(l, r). (l, projl r)) (pending_publications ps name ds))
    | Inr report \<Rightarrow> list_ex (\<lambda>(l, r). \<not> isl r) (pending_publications ps name ds) \<and>
        mset (successes report) = mset (map fst (filter (\<lambda>(l, r). \<not> isl r) (pending_publications ps name ds))) \<and>
        mset (failures report) = mset (map (\<lambda>(l, r). (l, projl r)) (filter (\<lambda>(l, r). isl r) (pending_publications ps name ds))) \<and>
        (is_complete report \<longleftrightarrow> list_all (\<lambda>(l, r). \<not> isl r) (pending_publications ps name ds)) \<and>
        (is_partial report \<longleftrightarrow> \<not> is_complete report)"
proof -
  let ?P = "pending_publications ps name ds" and ?l = "\<lambda>(l, r). (l, projl r)" and ?e = "\<lambda>(l :: rstr, r :: io_error + unit). isl r"
  let ?o = "\<lambda>(l :: rstr, r :: io_error + unit). \<not> isl r"
  have sets: "set results = set ?P" using assms by (metis mset_eq_setD)
  have emp: "publishers ps = [] \<longleftrightarrow> ?P = []" by (simp add: pending_publications_def)
  have m: "mset (map fst (filter ?o results)) = mset (map fst (filter ?o ?P))"
    "mset (map ?l (filter ?e results)) = mset (map ?l (filter ?e ?P))"
    using assms by simp_all
  have all: "filter ?o results = [] \<longleftrightarrow> list_all ?e ?P" "filter ?e results = [] \<longleftrightarrow> list_all ?o ?P"
    using sets by (auto simp: filter_empty_conv list_all_iff)
  show ?thesis
  proof (cases "filter ?o results = []")
    case True
    moreover from this have "filter ?e ?P = ?P" using all(1) by (simp add: list_all_iff)
    ultimately show ?thesis
      using emp m(2) all(1) by (auto simp: publish_all_def split_results_spec)
  next
    case False
    moreover from this have "\<not> list_all ?e ?P" using all(1) by simp
    moreover from this have "?P \<noteq> []" "list_ex ?o ?P" by (auto simp: list_all_iff list_ex_iff)
    ultimately show ?thesis
      using emp m all(2) by (simp add: publish_all_def split_results_spec is_complete_def is_partial_def)
  qed
qed

definition demo_publishers :: Publishers where
  "demo_publishers = push_publisher (str ''bad'', \<lambda>name ds. Inl (IoError (str ''down'')))
     (push_publisher (str ''ok'', \<lambda>name ds. if length ds = 1 then Inr () else Inl (IoError (str ''count''))) Publishers_new)"

theorem publish_all_reports_witness:
  "case publish_all demo_publishers [(str ''bad'', Inl (IoError (str ''down''))), (str ''ok'', Inr ())] of
     Inl errs \<Rightarrow> False
   | Inr report \<Rightarrow> mset (successes report) = {#str ''ok''#} \<and> is_partial report"
proof -
  have P: "pending_publications demo_publishers (str ''com'') [Direct (V4 (SocketAddrV4 1 2))] =
      [(str ''ok'', Inr ()), (str ''bad'', Inl (IoError (str ''down'')))]"
    by (simp add: pending_publications_def demo_publishers_def push_publisher_def Publishers_new_def)
  have "mset [(str ''bad'', Inl (IoError (str ''down''))), (str ''ok'', Inr ())] =
      mset (pending_publications demo_publishers (str ''com'') [Direct (V4 (SocketAddrV4 1 2))])" by (simp add: P)
  from publish_all_reports [OF this] show ?thesis by (simp add: P split: sum.splits)
qed

text \<open>A concrete publication: the reference authority publishes two endpoints.\<close>

definition demo_published :: "DquicEndpointAddr list" where
  "demo_published = [Direct (V4 (SocketAddrV4 1 2)), Mediate (V4 (SocketAddrV4 3 4)) (V4 (SocketAddrV4 5 6))]"

theorem authority_publication_selected_witness:
  "\<exists>bs p eps. dns_packet_for_authority ref_codec ref_home ref_authority (str ''com'') demo_published = Some (Inr bs) \<and>
     be_packet ref_codec ref_home bs = Inr ([], p) \<and> map rdata (answers p) = map RData.E eps \<and>
     selected_endpoint_addrs_for_sequence ref_home eps (Some 1) = demo_published"
proof -
  have key: "extract_chain_key ref_home (certificates ref_authority) = Some \<lparr>key_sequence = 1, key_usage = ClientAndServer\<rparr>"
    by (simp add: ref_home_def ref_authority_def)
  have ok: "list_all dquic_ok demo_published"
    by (simp add: demo_published_def dquic_ok_def direct_v4_def nat_v4_def addr_ok_def is_ipv6_def FLAG_defs)
  have "\<exists>eps. dns_endpoints_for_authority ref_home ref_authority (str ''com'') demo_published = Inr eps"
    using key refh.is_primary_iff
    by (simp add: dns_endpoints_for_authority_def encode_endpoints_spec demo_published_def) (simp add: ref_authority_def)
  then obtain bs where bs: "dns_packet_for_authority ref_codec ref_home ref_authority (str ''com'') demo_published = Some (Inr bs)"
    using refc.to_bytes_total by (fastforce simp: dns_packet_for_authority_def)
  from authority_publication_selected [OF refc.codec_laws_axioms refh.home_laws_axioms bs key com_fits _ ok]
  show ?thesis using bs by (auto simp: demo_published_def)
qed

end
