(* ===== verification/Signature.thy ===== *)
theory Signature
  imports Endpoint
begin

text \<open>
  Publisher signature fields (\<^verbatim>\<open>src/core/signature.rs\<close>), in the manner of RFC 9421 and RFC 9530: the
  content digest, the signature input with its parameters, the signature, how they are made and how
  they are checked. The clock is an argument.
\<close>

abbreviation dquote :: u8 where "dquote \<equiv> 34"

abbreviation semicolon :: u8 where "semicolon \<equiv> 59"

definition CONTENT_DIGEST_HEADER :: rstr where "CONTENT_DIGEST_HEADER = str ''content-digest''"
definition SIGNATURE_INPUT_HEADER :: rstr where "SIGNATURE_INPUT_HEADER = str ''signature-input''"
definition SIGNATURE_HEADER :: rstr where "SIGNATURE_HEADER = str ''signature''"
definition SIGNATURE_LABEL :: rstr where "SIGNATURE_LABEL = str ''dns''"
definition DIGEST_PREFIX :: rstr where "DIGEST_PREFIX = str ''sha-256=:''"
definition SIGNATURE_PREFIX :: rstr where "SIGNATURE_PREFIX = str ''dns=:''"

definition COVERED :: rstr where
  "COVERED = str ''('' @ [dquote] @ str ''content-digest'' @ [dquote] @ str '')''"

definition SIGNATURE_INPUT_PREFIX :: rstr where
  "SIGNATURE_INPUT_PREFIX = str ''dns='' @ COVERED"

record SignatureFields =
  content_digest :: bytes
  signature_input :: bytes
  fields_signature :: bytes

record ParsedSignatureInput =
  signature_params :: rstr
  p_alg :: rstr
  p_keyid :: rstr

datatype SignatureFieldsError =
  MissingCertificate | UnsupportedScheme SignatureScheme | UnsupportedAlgorithm rstr
| InvalidField rstr | InvalidUtf8 | InvalidBase64 | DigestMismatch | KeyIdMismatch
| Sign qtls_sign_error | InvalidCertificate | Verify VerifyError

definition SignatureFields_empty :: SignatureFields where
  "SignatureFields_empty = \<lparr>content_digest = [], signature_input = [], fields_signature = []\<rparr>"

definition fields_is_empty :: "SignatureFields \<Rightarrow> bool" where
  "fields_is_empty f \<longleftrightarrow> content_digest f = [] \<and> signature_input f = [] \<and> fields_signature f = []"

section \<open>Values of the fields\<close>

definition content_digest_value :: "crypto \<Rightarrow> bytes \<Rightarrow> rstr" where
  "content_digest_value K dns = DIGEST_PREFIX @ b64_encode K (ring_sha256 K dns) @ [colon]"

definition hex_digit :: "u8 \<Rightarrow> u8" where
  "hex_digit n = (if n < 10 then 48 + n else 87 + n)"

definition hex_byte :: "u8 \<Rightarrow> rstr" where
  "hex_byte b = [hex_digit (drop_bit 4 b), hex_digit (b AND 0x0F)]"

definition cert_fingerprint_hex :: "crypto \<Rightarrow> bytes \<Rightarrow> rstr" where
  "cert_fingerprint_hex K cert = concat (map hex_byte (ring_sha256 K cert))"

definition keyid_for_cert :: "crypto \<Rightarrow> bytes \<Rightarrow> rstr" where
  "keyid_for_cert K cert = str ''sha256:'' @ cert_fingerprint_hex K cert"

text \<open>\<open>since_epoch\<close> is the time since the epoch in seconds, \<open>None\<close> when the clock is set before it.\<close>

definition unix_now_secs :: "u64 option \<Rightarrow> u64" where
  "unix_now_secs since_epoch = (case since_epoch of Some secs \<Rightarrow> secs | None \<Rightarrow> 0)"

definition signature_input_value :: "u64 \<Rightarrow> rstr \<Rightarrow> rstr \<Rightarrow> rstr" where
  "signature_input_value created keyid alg =
     SIGNATURE_LABEL @ str ''='' @ COVERED @ str '';created='' @ display_u64 created @
     str '';keyid='' @ [dquote] @ keyid @ [dquote] @ str '';alg='' @ [dquote] @ alg @ [dquote]"

definition signature_value :: "crypto \<Rightarrow> bytes \<Rightarrow> rstr" where
  "signature_value K sig = SIGNATURE_PREFIX @ b64_encode K sig @ [colon]"

section \<open>Parsing\<close>

definition unquote :: "rstr \<Rightarrow> rstr option" where
  "unquote v = strip_prefix [dquote] v \<bind> strip_suffix [dquote]"

fun parse_params ::
  "rstr list \<Rightarrow> u64 option \<times> rstr option \<times> rstr option \<Rightarrow> SignatureFieldsError + u64 option \<times> rstr option \<times> rstr option" where
  "parse_params [] (created, keyid, alg) = Inr (created, keyid, alg)"
| "parse_params (param # params) (created, keyid, alg) =
     (case strip_prefix (str ''created='') param of
        Some v \<Rightarrow> parse_params params (parse_u64 v, keyid, alg)
      | None \<Rightarrow> (case strip_prefix (str ''keyid='') param of
        Some v \<Rightarrow> parse_params params (created, unquote v, alg)
      | None \<Rightarrow> (case strip_prefix (str ''alg='') param of
        Some v \<Rightarrow> parse_params params (created, keyid, unquote v)
      | None \<Rightarrow> Inl (InvalidField SIGNATURE_INPUT_HEADER))))"

definition parse_signature_input :: "rstr \<Rightarrow> SignatureFieldsError + ParsedSignatureInput" where
  "parse_signature_input input =
     (if \<not> starts_with SIGNATURE_INPUT_PREFIX input then Inl (InvalidField SIGNATURE_INPUT_HEADER)
      else case strip_prefix (str ''dns='') input of
        None \<Rightarrow> Inl (InvalidField SIGNATURE_INPUT_HEADER)
      | Some sparams \<Rightarrow> (case strip_prefix COVERED sparams of
        None \<Rightarrow> Inl (InvalidField SIGNATURE_INPUT_HEADER)
      | Some params \<Rightarrow>
          (case parse_params (filter (\<lambda>part. part \<noteq> []) (split_on semicolon params)) (None, None, None) of
             Inl e \<Rightarrow> Inl e
           | Inr (created, keyid, alg) \<Rightarrow>
               if created = None then Inl (InvalidField SIGNATURE_INPUT_HEADER)
               else (case keyid of None \<Rightarrow> Inl (InvalidField SIGNATURE_INPUT_HEADER)
                 | Some keyid \<Rightarrow> (case alg of None \<Rightarrow> Inl (InvalidField SIGNATURE_INPUT_HEADER)
                 | Some alg \<Rightarrow> Inr \<lparr>signature_params = sparams, p_alg = alg, p_keyid = keyid\<rparr>)))))"

definition signature_base :: "rstr \<Rightarrow> rstr \<Rightarrow> SignatureFieldsError + rstr" where
  "signature_base digest input =
     (case parse_signature_input input of
        Inl e \<Rightarrow> Inl e
      | Inr parsed \<Rightarrow> Inr ([dquote] @ str ''content-digest'' @ [dquote] @ str '': '' @ digest @ [10] @
          [dquote] @ str ''@signature-params'' @ [dquote] @ str '': '' @ signature_params parsed))"

definition field_str :: "bytes \<Rightarrow> SignatureFieldsError + rstr" where
  "field_str field = (if valid_utf8 field then Inr field else Inl InvalidUtf8)"

definition verify_content_digest :: "crypto \<Rightarrow> rstr \<Rightarrow> bytes \<Rightarrow> SignatureFieldsError + unit" where
  "verify_content_digest K digest dns =
     (case strip_prefix DIGEST_PREFIX digest \<bind> strip_suffix [colon] of
        None \<Rightarrow> Inl (InvalidField CONTENT_DIGEST_HEADER)
      | Some encoded \<Rightarrow> (case b64_decode K encoded of
        None \<Rightarrow> Inl SignatureFieldsError.InvalidBase64
      | Some decoded \<Rightarrow> if decoded \<noteq> ring_sha256 K dns then Inl DigestMismatch else Inr ()))"

definition parse_signature :: "crypto \<Rightarrow> rstr \<Rightarrow> SignatureFieldsError + bytes" where
  "parse_signature K input =
     (case strip_prefix SIGNATURE_PREFIX input \<bind> strip_suffix [colon] of
        None \<Rightarrow> Inl (InvalidField SIGNATURE_HEADER)
      | Some encoded \<Rightarrow> (case b64_decode K encoded of
        None \<Rightarrow> Inl SignatureFieldsError.InvalidBase64 | Some sig \<Rightarrow> Inr sig))"

section \<open>Signing and verifying\<close>

text \<open>\<open>created\<close> is the clock in seconds.\<close>

definition fields_sign :: "crypto \<Rightarrow> u64 \<Rightarrow> bytes \<Rightarrow> authority \<Rightarrow> SignatureFieldsError + SignatureFields" where
  "fields_sign K created dns auth =
     (case certificates auth of
        [] \<Rightarrow> Inl MissingCertificate
      | cert # _ \<Rightarrow>
          let keyid = keyid_for_cert K cert;
              digest = content_digest_value K dns
          in case canonical_scheme_for_spki K (public_key auth) of
               None \<Rightarrow> Inl (SignatureFieldsError.UnsupportedScheme (Unknown 0))
             | Some scheme \<Rightarrow> (case alg_name_for_scheme scheme of
               None \<Rightarrow> Inl (SignatureFieldsError.UnsupportedScheme scheme)
             | Some alg \<Rightarrow>
                 let input = signature_input_value created keyid alg
                 in case signature_base digest input of
                      Inl e \<Rightarrow> Inl e
                    | Inr base \<Rightarrow> (case authority_sign auth (scheme_code K scheme) base of
                        Inl e \<Rightarrow> Inl (SignatureFieldsError.Sign e)
                      | Inr sig \<Rightarrow> Inr \<lparr>content_digest = digest, signature_input = input,
                          fields_signature = signature_value K sig\<rparr>)))"

text \<open>Rust's \<^verbatim>\<open>?\<close> on a plain result.\<close>

fun try_then :: "'e + 'a \<Rightarrow> ('a \<Rightarrow> 'e + 'b) \<Rightarrow> 'e + 'b" where
  "try_then (Inl e) f = Inl e"
| "try_then (Inr x) f = f x"

lemma try_then_Inr: "try_then p f = Inr y \<longleftrightarrow> (\<exists>x. p = Inr x \<and> f x = Inr y)"
  by (cases p) auto

lemma case_option_Inr: "(case x of None \<Rightarrow> Inl e | Some s \<Rightarrow> g s) = Inr y \<longleftrightarrow> (\<exists>s. x = Some s \<and> g s = Inr y)"
  by (cases x) auto

lemma case_sum_Inr: "(case p of Inl e \<Rightarrow> Inl (h e) | Inr b \<Rightarrow> Inr b) = Inr y \<longleftrightarrow> p = Inr y"
  by (cases p) auto

definition fields_verify :: "crypto \<Rightarrow> SignatureFields \<Rightarrow> bytes \<Rightarrow> bytes \<Rightarrow> SignatureFieldsError + bool" where
  "fields_verify K f dns cert =
     (if fields_is_empty f then Inr False
      else
        try_then (field_str (content_digest f)) (\<lambda>digest.
        try_then (verify_content_digest K digest dns) (\<lambda>_.
        try_then (field_str (signature_input f)) (\<lambda>input.
        try_then (parse_signature_input input) (\<lambda>parsed.
        if p_keyid parsed \<noteq> keyid_for_cert K cert then Inr False
        else (case scheme_for_alg_name (p_alg parsed) of
                None \<Rightarrow> Inl (UnsupportedAlgorithm (p_alg parsed))
              | Some scheme \<Rightarrow>
                  try_then (field_str (fields_signature f)) (\<lambda>sigf.
                  try_then (parse_signature K sigf) (\<lambda>sig.
                  try_then (signature_base digest input) (\<lambda>base.
                  case x509_spki K cert of
                    None \<Rightarrow> Inl SignatureFieldsError.InvalidCertificate
                  | Some spki \<Rightarrow>
                      (case sigin_verify K spki scheme base sig of
                         Inl e \<Rightarrow> Inl (SignatureFieldsError.Verify e)
                       | Inr b \<Rightarrow> Inr b))))))))))"

section \<open>Printing and parsing the signature input\<close>

lemma str_append: "str (a @ b) = str a @ str b"
  by (simp add: str_def)

lemma strip_prefix_mismatch: "p \<noteq> [] \<Longrightarrow> s \<noteq> [] \<Longrightarrow> hd p \<noteq> hd s \<Longrightarrow> strip_prefix p s = None"
  by (cases p; cases s) (auto simp: strip_prefix_def)

lemma unquote_quoted [simp]: "unquote ([dquote] @ v @ [dquote]) = Some v" "unquote (dquote # v @ [dquote]) = Some v"
  using strip_suffix_Some [of "[dquote]" "v @ [dquote]" v] strip_prefix_append [of "[dquote]" "v @ [dquote]"]
  by (simp_all add: unquote_def)

lemma digits_no_semicolon: "semicolon \<notin> set (display_u64 n)"
  using dec_digits_props [of "unat n"] by (auto simp: display_u64_def list_all_iff is_ascii_digit_def)

lemma parse_signature_input_value:
  assumes "semicolon \<notin> set keyid" "semicolon \<notin> set alg"
  shows "parse_signature_input (signature_input_value created keyid alg) =
    Inr \<lparr>signature_params = drop 4 (signature_input_value created keyid alg), p_alg = alg, p_keyid = keyid\<rparr>"
proof -
  let ?c = "str ''created='' @ display_u64 created"
  let ?k = "str ''keyid='' @ [dquote] @ keyid @ [dquote]"
  let ?a = "str ''alg='' @ [dquote] @ alg @ [dquote]"
  let ?params = "[semicolon] @ ?c @ [semicolon] @ ?k @ [semicolon] @ ?a"
  have v: "signature_input_value created keyid alg = str ''dns='' @ COVERED @ ?params"
    by (simp add: signature_input_value_def SIGNATURE_LABEL_def str_def)
  have ns: "semicolon \<notin> set ?c" "semicolon \<notin> set ?k" "semicolon \<notin> set ?a"
    using assms digits_no_semicolon by (auto simp: str_def)
  have "split_on semicolon ?params = [[], ?c, ?k, ?a]"
    using split_on_append [OF ns(1)] split_on_append [OF ns(2)] split_on_single [OF ns(3)] by simp
  then have sp: "filter (\<lambda>part. part \<noteq> []) (split_on semicolon ?params) = [?c, ?k, ?a]"
    by (simp add: str_def)
  have c1: "strip_prefix (str ''created='') ?k = None" and a1: "strip_prefix (str ''created='') ?a = None"
    and a2: "strip_prefix (str ''keyid='') ?a = None"
    by (rule strip_prefix_mismatch; simp add: str_def)+
  have pp: "parse_params [?c, ?k, ?a] (None, None, None) = Inr (Some created, Some keyid, Some alg)"
    using c1 a1 a2 strip_prefix_append [of "str ''created=''" "display_u64 created"]
      strip_prefix_append [of "str ''keyid=''" "[dquote] @ keyid @ [dquote]"]
      strip_prefix_append [of "str ''alg=''" "[dquote] @ alg @ [dquote]"]
    by (simp add: parse_display_u64)
  have start: "starts_with SIGNATURE_INPUT_PREFIX (str ''dns='' @ COVERED @ ?params)"
    unfolding starts_with_iff SIGNATURE_INPUT_PREFIX_def by (metis append_assoc)
  have "drop 4 (str ''dns='' @ COVERED @ ?params) = COVERED @ ?params" by (simp add: str_def)
  then show ?thesis
    unfolding v parse_signature_input_def strip_prefix_append
    using start sp pp by simp
qed

section \<open>Signing and verifying fit together\<close>

lemma hex_digit_range: "n < 16 \<Longrightarrow> hex_digit n < 0x80 \<and> hex_digit n \<noteq> semicolon"
proof -
  assume "n < 16"
  then have u: "unat n < 16" by (simp add: word_less_nat_alt)
  then have "unat (48 + n) = 48 + unat n" "unat (87 + n) = 87 + unat n" by (simp_all add: unat_word_ariths)
  moreover have "unat (hex_digit n) \<noteq> 59 \<Longrightarrow> hex_digit n \<noteq> 59" by auto
  ultimately show ?thesis using u
    by (auto simp: hex_digit_def word_less_nat_alt)
qed

abbreviation ascii :: "rstr \<Rightarrow> bool" where
  "ascii s \<equiv> list_all (\<lambda>c. c < 0x80) s"

lemma keyid_chars: "ascii (keyid_for_cert K cert)" "semicolon \<notin> set (keyid_for_cert K cert)"
  using hex_digit_range nibble_less
  by (auto simp: keyid_for_cert_def cert_fingerprint_hex_def hex_byte_def str_def list_all_iff)

lemma alg_name_chars: "alg_name_for_scheme s = Some alg \<Longrightarrow> ascii alg \<and> semicolon \<notin> set alg"
  by (cases s) (auto simp: str_def)

lemma digits_ascii: "ascii (display_u64 n)"
proof -
  have "d < 0x80" if "d \<le> 57" for d :: u8 using that by (rule le_less_trans) simp
  then show ?thesis
    using dec_digits_props [of "unat n"] by (auto simp: display_u64_def list_all_iff is_ascii_digit_def)
qed

lemma signature_input_ascii: "ascii keyid \<Longrightarrow> ascii alg \<Longrightarrow> ascii (signature_input_value created keyid alg)"
  using digits_ascii [of created]
  by (simp add: signature_input_value_def SIGNATURE_LABEL_def COVERED_def str_def)

text \<open>What signing and verifying need of the crates: base64 decodes what it encodes and is ASCII, and
  the certificate carries the authority's key.\<close>

locale publisher_laws = authority_laws +
  assumes b64_roundtrip: "b64_decode K (b64_encode K d) = Some d"
    and b64_ascii: "list_all (\<lambda>c. c < 0x80) (b64_encode K d)"
    and certificate_key: "certificates auth = cert # cs \<Longrightarrow> x509_spki K cert = Some (public_key auth)"
begin

lemma verify_own_digest:
  "verify_content_digest K (content_digest_value K dns) dns' =
    (if ring_sha256 K dns = ring_sha256 K dns' then Inr () else Inl DigestMismatch)"
  by (simp add: verify_content_digest_def content_digest_value_def b64_roundtrip)

lemma parse_own_signature: "parse_signature K (signature_value K sig) = Inr sig"
  by (simp add: parse_signature_def signature_value_def b64_roundtrip)

lemma sign_verify:
  assumes "fields_sign K created dns auth = Inr f" "certificates auth = cert # cs"
  shows "fields_verify K f dns' cert =
    (if ring_sha256 K dns = ring_sha256 K dns' then Inr True else Inl DigestMismatch)"
proof -
  let ?digest = "content_digest_value K dns" and ?keyid = "keyid_for_cert K cert"
  from assms obtain scheme alg base sig where s: "canonical_scheme_for_spki K (public_key auth) = Some scheme"
    "alg_name_for_scheme scheme = Some alg" "signature_base ?digest (signature_input_value created ?keyid alg) = Inr base"
    "authority_sign auth (scheme_code K scheme) base = Inr sig"
    and f: "f = \<lparr>content_digest = ?digest, signature_input = signature_input_value created ?keyid alg,
      fields_signature = signature_value K sig\<rparr>"
    by (auto simp: fields_sign_def Let_def split: option.splits sum.splits)
  have utf: "valid_utf8 ?digest" "valid_utf8 (signature_input_value created ?keyid alg)" "valid_utf8 (signature_value K sig)"
    using b64_ascii keyid_chars(1) alg_name_chars [OF s(2)]
    by (auto intro!: valid_utf8_ascii signature_input_ascii
        simp: content_digest_value_def signature_value_def DIGEST_PREFIX_def SIGNATURE_PREFIX_def str_def)
  have "scheme_for_alg_name alg = Some scheme"
    using s(2) by (cases scheme) (auto simp: scheme_for_alg_name_def str_def)
  moreover have "\<not> fields_is_empty f" by (simp add: f fields_is_empty_def content_digest_value_def DIGEST_PREFIX_def str_def)
  moreover note parse_signature_input_value [where keyid = ?keyid and alg = alg and created = created, OF keyid_chars(2)] alg_name_chars [OF s(2)]
  moreover have "sigin_verify K (public_key auth) scheme base sig = Inr True" by (rule sign_verifies [OF s(1,4)])
  ultimately show ?thesis
    using s(3) utf certificate_key [OF assms(2)]
    by (simp add: fields_verify_def f field_str_def verify_own_digest parse_own_signature)
qed

end

interpretation refp: publisher_laws ref_crypto ref_authority
proof
  show "b64_decode ref_crypto (b64_encode ref_crypto d) = Some d" for d
    by (simp add: ref_crypto_def ref_b64_roundtrip)
  show "list_all (\<lambda>c. c < 0x80) (b64_encode ref_crypto d)" for d
    by (simp add: ref_crypto_def ref_b64_ascii)
  show "certificates ref_authority = cert # cs \<Longrightarrow> x509_spki ref_crypto cert = Some (public_key ref_authority)" for cert cs
    by (auto simp: ref_authority_def ref_crypto_def)
qed

section \<open>Properties\<close>

text \<open>C23: What a publisher signs, a client accepts, and nothing else: the fields made for a packet verify
  for every packet with the same digest under the publisher's certificate, and every packet with
  another digest is answered with a digest mismatch.\<close>

theorem publisher_sign_verify:
  assumes "publisher_laws K auth" and "fields_sign K created dns auth = Inr f" and "certificates auth = cert # cs"
  shows "fields_verify K f dns' cert = (if ring_sha256 K dns = ring_sha256 K dns' then Inr True else Inl DigestMismatch)"
  by (rule publisher_laws.sign_verify [OF assms])

lemma length_ref_b64 [simp]: "length (ref_b64_encode d) = 2 * length d"
  by (induction d) (simp_all add: ref_b64_encode_def)

lemma ref_fields_sign:
  assumes "length dns < 1000"
  shows "\<exists>f. fields_sign ref_crypto 1 dns ref_authority = Inr f \<and> length (content_digest f) < 65536 \<and>
    length (signature_input f) < 65536 \<and> length (fields_signature f) < 65536"
proof -
  have ed: "canonical_scheme_for_spki ref_crypto (public_key ref_authority) = Some ED25519"
    by (simp add: canonical_scheme_for_spki_def ref_crypto_def)
  have "signature_base d (signature_input_value 1 (keyid_for_cert ref_crypto [1]) (str ''ed25519'')) =
      Inr ([dquote] @ str ''content-digest'' @ [dquote] @ str '': '' @ d @ [10] @
          [dquote] @ str ''@signature-params'' @ [dquote] @ str '': '' @
          drop 4 (signature_input_value 1 (keyid_for_cert ref_crypto [1]) (str ''ed25519'')))" for d
    using parse_signature_input_value [where keyid = "keyid_for_cert ref_crypto [1]" and
      alg = "str ''ed25519''" and created = 1, OF keyid_chars(2)]
    by (simp add: signature_base_def str_def)
  then show ?thesis
    using ed assms
    by (simp add: fields_sign_def ref_authority_def Let_def content_digest_value_def signature_input_value_def signature_value_def
        keyid_for_cert_def cert_fingerprint_hex_def hex_byte_def display_u64_def dec_digits.simps ref_crypto_def
        DIGEST_PREFIX_def SIGNATURE_PREFIX_def SIGNATURE_LABEL_def COVERED_def str_def)
qed

theorem publisher_sign_verify_witness:
  "\<exists>f. fields_sign ref_crypto 1 [7] ref_authority = Inr f \<and> fields_verify ref_crypto f [7] [1] = Inr True \<and>
     fields_verify ref_crypto f [8] [1] = Inl DigestMismatch"
proof -
  have c: "certificates ref_authority = [1] # []" by (simp add: ref_authority_def)
  obtain f where f: "fields_sign ref_crypto 1 [7] ref_authority = Inr f" using ref_fields_sign [of "[7]"] by auto
  have "ring_sha256 ref_crypto [7] \<noteq> ring_sha256 ref_crypto [8]" by (simp add: ref_crypto_def)
  with f publisher_sign_verify [OF refp.publisher_laws_axioms f c, of "[7]"]
    publisher_sign_verify [OF refp.publisher_laws_axioms f c, of "[8]"] show ?thesis by auto
qed

text \<open>C24: A positive answer of \<open>verify\<close> is justified by every check: the digest field decodes to the
  digest of these very bytes, the key identifier is that of the certificate, the named algorithm is
  a supported scheme, and the signature verifies under the certificate's key over the signature
  base, which contains the digest field and the signature parameters.\<close>

theorem publisher_verify_sound:
  assumes "fields_verify K f dns cert = Inr True"
  shows "\<exists>enc parsed scheme sig base spki.
    content_digest f = DIGEST_PREFIX @ enc @ [colon] \<and> b64_decode K enc = Some (ring_sha256 K dns) \<and>
    parse_signature_input (signature_input f) = Inr parsed \<and> p_keyid parsed = keyid_for_cert K cert \<and>
    scheme_for_alg_name (p_alg parsed) = Some scheme \<and> parse_signature K (fields_signature f) = Inr sig \<and>
    signature_base (content_digest f) (signature_input f) = Inr base \<and> x509_spki K cert = Some spki \<and>
    sigin_verify K spki scheme base sig = Inr True"
proof -
  have digest: "verify_content_digest K d dns = Inr () \<Longrightarrow>
      \<exists>enc. d = DIGEST_PREFIX @ enc @ [colon] \<and> b64_decode K enc = Some (ring_sha256 K dns)" for d
    by (auto simp: verify_content_digest_def bind_eq_Some_conv strip_prefix_Some strip_suffix_Some
        split: option.splits if_splits)
  from assms obtain parsed scheme sig base spki where
    d: "verify_content_digest K (content_digest f) dns = Inr ()"
    and "parse_signature_input (signature_input f) = Inr parsed" "p_keyid parsed = keyid_for_cert K cert"
    "scheme_for_alg_name (p_alg parsed) = Some scheme" "parse_signature K (fields_signature f) = Inr sig"
    "signature_base (content_digest f) (signature_input f) = Inr base" "x509_spki K cert = Some spki"
    "sigin_verify K spki scheme base sig = Inr True"
    by (auto simp: fields_verify_def try_then_Inr field_str_def case_option_Inr case_sum_Inr split: if_split_asm)
  with digest [OF d] show ?thesis by blast
qed

theorem publisher_verify_sound_witness:
  "\<exists>f. fields_verify ref_crypto f [7] [1] = Inr True \<and> (\<exists>enc parsed scheme sig base spki.
    content_digest f = DIGEST_PREFIX @ enc @ [colon] \<and> b64_decode ref_crypto enc = Some (ring_sha256 ref_crypto [7]) \<and>
    parse_signature_input (signature_input f) = Inr parsed \<and> p_keyid parsed = keyid_for_cert ref_crypto [1] \<and>
    scheme_for_alg_name (p_alg parsed) = Some scheme \<and> parse_signature ref_crypto (fields_signature f) = Inr sig \<and>
    signature_base (content_digest f) (signature_input f) = Inr base \<and> x509_spki ref_crypto [1] = Some spki \<and>
    sigin_verify ref_crypto spki scheme base sig = Inr True)"
proof -
  have c: "certificates ref_authority = [1] # []" by (simp add: ref_authority_def)
  obtain f where f: "fields_sign ref_crypto 1 [7] ref_authority = Inr f" using ref_fields_sign [of "[7]"] by auto
  have "fields_verify ref_crypto f [7] [1] = Inr True" using refp.sign_verify [OF f c, of "[7]"] by simp
  with publisher_verify_sound [OF this] show ?thesis by blast
qed

end
