(* ===== verification/Wire.thy ===== *)
theory Wire
  imports Signature
begin

text \<open>
  The multi-record response body (\<^verbatim>\<open>src/core/wire.rs\<close>): a count and, per record, five
  length-prefixed fields. The formats are instances of \<open>wire_format\<close>, so that reading back a whole
  body is the interface's \<open>dec_many\<close>. The \<^verbatim>\<open>expect\<close> on the record count is \<open>None\<close>.
\<close>

record ResponseRecord =
  signature_fields :: SignatureFields
  rec_dns :: bytes
  rec_cert :: bytes

definition ResponseRecord_new :: "SignatureFields \<Rightarrow> bytes \<Rightarrow> bytes \<Rightarrow> ResponseRecord" where
  "ResponseRecord_new sf dns cert = \<lparr>signature_fields = sf, rec_dns = dns, rec_cert = cert\<rparr>"

definition ResponseRecord_unsigned :: "bytes \<Rightarrow> bytes \<Rightarrow> ResponseRecord" where
  "ResponseRecord_unsigned dns cert = ResponseRecord_new SignatureFields_empty dns cert"

definition record_cert_fingerprint_hex :: "crypto \<Rightarrow> ResponseRecord \<Rightarrow> rstr option" where
  "record_cert_fingerprint_hex K r =
     (if rec_cert r = [] then None else Some (concat (map hex_byte (ring_sha256 K (rec_cert r)))))"

definition publisher_certificate_chain_key :: "home \<Rightarrow> ResponseRecord \<Rightarrow> CertificateChainKey option" where
  "publisher_certificate_chain_key H r = (if rec_cert r = [] then None else extract_chain_key H [rec_cert r])"

record MultiResponse =
  mr_records :: "ResponseRecord list"

definition multi_encoding_size :: "MultiResponse \<Rightarrow> nat" where
  "multi_encoding_size m = 4 + sum_list (map (\<lambda>r.
     4 + length (content_digest (signature_fields r)) + 4 + length (signature_input (signature_fields r)) +
     4 + length (fields_signature (signature_fields r)) + 4 + length (rec_dns r) + 4 + length (rec_cert r)) (mr_records m))"

definition put_field :: "codec \<Rightarrow> bytes \<Rightarrow> bytes \<Rightarrow> bytes" where
  "put_field C buf v = buf_put_slice C (buf_put_u32 C buf (of_nat (length v))) v"

definition put_response_record :: "codec \<Rightarrow> bytes \<Rightarrow> ResponseRecord \<Rightarrow> bytes" where
  "put_response_record C buf r =
     (let buf = put_field C buf (content_digest (signature_fields r));
          buf = put_field C buf (signature_input (signature_fields r));
          buf = put_field C buf (fields_signature (signature_fields r));
          buf = put_field C buf (rec_dns r)
      in put_field C buf (rec_cert r))"

definition put_multi_response :: "codec \<Rightarrow> bytes \<Rightarrow> MultiResponse \<Rightarrow> bytes" where
  "put_multi_response C buf m =
     fold (\<lambda>r buf. put_response_record C buf r) (mr_records m) (buf_put_u32 C buf (of_nat (length (mr_records m))))"

definition encode :: "codec \<Rightarrow> MultiResponse \<Rightarrow> bytes" where
  "encode C m = put_multi_response C [] m"

fun encode_records_loop :: "codec \<Rightarrow> bytes \<Rightarrow> nat \<Rightarrow> ResponseRecord list \<Rightarrow> (bytes \<times> nat) option" where
  "encode_records_loop C buf count [] = Some (buf, count)"
| "encode_records_loop C buf count (r # rs) =
     (if count + 1 < 2 ^ 32 then encode_records_loop C (put_response_record C buf r) (count + 1) rs else None)"

definition encode_records :: "codec \<Rightarrow> ResponseRecord list \<Rightarrow> bytes option" where
  "encode_records C rs =
     map_option (\<lambda>(buf, count). to_be 4 (of_nat count :: u32) @ drop 4 buf)
       (encode_records_loop C (buf_put_u32 C [] 0) 0 rs)"

definition be_field :: "codec \<Rightarrow> bytes \<Rightarrow> bytes ires" where
  "be_field C input = andthen (nom_be_u32 C input) (\<lambda>input len.
     andthen (nom_take C (unat len) input) (\<lambda>input v. Inr (input, v)))"

definition be_response_record :: "codec \<Rightarrow> bytes \<Rightarrow> ResponseRecord ires" where
  "be_response_record C input =
     andthen (be_field C input) (\<lambda>rest digest.
     andthen (be_field C rest) (\<lambda>rest inp.
     andthen (be_field C rest) (\<lambda>rest sig.
     andthen (be_field C rest) (\<lambda>rest dns.
     andthen (be_field C rest) (\<lambda>rest cert.
     Inr (rest, \<lparr>signature_fields = \<lparr>content_digest = digest, signature_input = inp, fields_signature = sig\<rparr>,
       rec_dns = dns, rec_cert = cert\<rparr>))))))"

definition be_multi_response :: "codec \<Rightarrow> bytes \<Rightarrow> MultiResponse ires" where
  "be_multi_response C input = andthen (nom_be_u32 C input) (\<lambda>input count.
     andthen (parse_count (be_response_record C) (unat count) input) (\<lambda>input records.
     Inr (input, \<lparr>mr_records = records\<rparr>)))"

section \<open>The formats\<close>

declare to_be_numeral [simp del]

definition field_bytes :: "bytes \<Rightarrow> bytes" where
  "field_bytes v = to_be 4 (of_nat (length v) :: u32) @ v"

definition response_bytes :: "ResponseRecord \<Rightarrow> bytes" where
  "response_bytes r = field_bytes (content_digest (signature_fields r)) @ field_bytes (signature_input (signature_fields r)) @
     field_bytes (fields_signature (signature_fields r)) @ field_bytes (rec_dns r) @ field_bytes (rec_cert r)"

definition field_ok :: "bytes \<Rightarrow> bool" where
  "field_ok v \<longleftrightarrow> length v < 2 ^ 32"

definition response_ok :: "ResponseRecord \<Rightarrow> bool" where
  "response_ok r \<longleftrightarrow> field_ok (content_digest (signature_fields r)) \<and> field_ok (signature_input (signature_fields r)) \<and>
     field_ok (fields_signature (signature_fields r)) \<and> field_ok (rec_dns r) \<and> field_ok (rec_cert r)"

context codec_laws
begin

lemma put_field_bytes: "put_field C buf v = buf @ field_bytes v"
  by (simp add: put_field_def field_bytes_def put_laws)

lemma put_response_bytes: "put_response_record C buf r = buf @ response_bytes r"
  by (simp add: put_response_record_def response_bytes_def put_field_bytes Let_def)

lemma fold_put_response: "fold (\<lambda>r buf. put_response_record C buf r) rs buf = buf @ concat (map response_bytes rs)"
  by (induction rs arbitrary: buf) (simp_all add: put_response_bytes)

lemma encode_bytes: "encode C m = to_be 4 (of_nat (length (mr_records m)) :: u32) @ concat (map response_bytes (mr_records m))"
  by (simp add: encode_def put_multi_response_def fold_put_response put_laws)

lemma encode_records_loop_bytes:
  "count + length rs < 2 ^ 32 \<Longrightarrow>
   encode_records_loop C buf count rs = Some (buf @ concat (map response_bytes rs), count + length rs)"
  by (induction rs arbitrary: buf count) (simp_all add: put_response_bytes)

lemma be_field_bytes: "field_ok v \<Longrightarrow> be_field C (field_bytes v @ r) = Inr (r, v)"
proof -
  assume "field_ok v"
  then have "unat (of_nat (length v) :: u32) = length v" by (simp add: field_ok_def unat_of_nat)
  then show ?thesis by (simp add: be_field_def field_bytes_def read_laws)
qed

lemma be_response_bytes: "response_ok r \<Longrightarrow> be_response_record C (response_bytes r @ t) = Inr (t, r)"
  by (cases r; cases "signature_fields r") (simp add: response_ok_def be_response_record_def response_bytes_def be_field_bytes)

end

sublocale codec_laws \<subseteq> fld: wire_format field_bytes "be_field C" field_ok
  by unfold_locales (rule be_field_bytes)

sublocale codec_laws \<subseteq> resp: wire_format response_bytes "be_response_record C" response_ok
  by unfold_locales (rule be_response_bytes)

context codec_laws
begin

lemma be_multi_bytes:
  assumes "list_all response_ok (mr_records m)" "length (mr_records m) < 2 ^ 32"
  shows "be_multi_response C (encode C m @ r) = Inr (r, m)"
proof -
  have "unat (of_nat (length (mr_records m)) :: u32) = length (mr_records m)" using assms(2) by (simp add: unat_of_nat)
  then show ?thesis
    using resp.dec_many [OF assms(1), of r] by (cases m) (simp add: be_multi_response_def encode_bytes read_laws)
qed

end

section \<open>Properties\<close>

text \<open>C31: A multi-record body with fields and count below \<open>2 ^ 32\<close> is decoded to the records it was made
  from; its length is what \<open>encoding_size\<close> says; and \<open>encode_records\<close>, which writes the count last,
  produces the same bytes without panicking.\<close>

theorem multi_response_roundtrip:
  assumes "codec_laws C" and "list_all response_ok (mr_records m)" and "length (mr_records m) < 2 ^ 32"
  shows "be_multi_response C (encode C m @ r) = Inr (r, m) \<and> length (encode C m) = multi_encoding_size m \<and>
    encode_records C (mr_records m) = Some (encode C m)"
proof (intro conjI)
  show "be_multi_response C (encode C m @ r) = Inr (r, m)"
    by (rule codec_laws.be_multi_bytes [OF assms])
  show "length (encode C m) = multi_encoding_size m"
    by (simp add: codec_laws.encode_bytes [OF assms(1)] multi_encoding_size_def length_concat response_bytes_def
        field_bytes_def comp_def add.assoc)
  show "encode_records C (mr_records m) = Some (encode C m)"
    using codec_laws.encode_records_loop_bytes [OF assms(1), of 0 "mr_records m"] assms(3)
    by (simp add: encode_records_def codec_laws.encode_bytes [OF assms(1)] codec_laws.put_laws [OF assms(1)])
qed

theorem multi_response_roundtrip_witness:
  "be_multi_response ref_codec (encode ref_codec \<lparr>mr_records = [ResponseRecord_unsigned [1, 2] [3]]\<rparr> @ [9]) =
     Inr ([9], \<lparr>mr_records = [ResponseRecord_unsigned [1, 2] [3]]\<rparr>) \<and>
   length (encode ref_codec \<lparr>mr_records = [ResponseRecord_unsigned [1, 2] [3]]\<rparr>) =
     multi_encoding_size \<lparr>mr_records = [ResponseRecord_unsigned [1, 2] [3]]\<rparr> \<and>
   encode_records ref_codec (mr_records \<lparr>mr_records = [ResponseRecord_unsigned [1, 2] [3]]\<rparr>) =
     Some (encode ref_codec \<lparr>mr_records = [ResponseRecord_unsigned [1, 2] [3]]\<rparr>)"
  by (rule multi_response_roundtrip [OF refc.codec_laws_axioms])
    (simp_all add: response_ok_def field_ok_def ResponseRecord_unsigned_def ResponseRecord_new_def SignatureFields_empty_def)

end
