(* ===== verification/Api.thy ===== *)
theory Api
  imports Publishers Wire
begin

text \<open>
  What the two network resolvers share (\<^verbatim>\<open>src/api.rs\<close>): validation of the server origin, the lookup
  request, the decoding of a lookup response into candidate groups, and its freshness. A URL is given
  by what the accessors of the \<^verbatim>\<open>url\<close> crate return; the lookup request by the arguments handed to it.
  A header map sends a header name to its values in order, each as the result of \<^verbatim>\<open>to_str\<close> (\<open>None\<close> when the
  value is not visible ASCII). Durations are seconds.
\<close>

declare to_be_numeral [simp del]

definition MAX_LOOKUP_RESPONSE_BYTES :: nat where "MAX_LOOKUP_RESPONSE_BYTES = 1024 * 1024"
definition MAX_RESPONSE_RECORDS :: nat where "MAX_RESPONSE_RECORDS = 256"

section \<open>Origins and requests\<close>

record Url =
  url_scheme :: rstr
  url_host :: "rstr option"
  url_username :: rstr
  url_password :: "rstr option"
  url_path :: rstr
  url_query :: "rstr option"
  url_fragment :: "rstr option"

datatype InvalidServerOrigin = NotHttps | MissingHost | HasCredentials | HasPathQueryOrFragment | DhttpOrigin

definition in_dhttp :: "rstr \<Rightarrow> bool" where
  "in_dhttp host \<longleftrightarrow> host = str ''dhttp.net'' \<or> ends_with (str ''.dhttp.net'') host"

definition validate_server_origin :: "Url \<Rightarrow> bool \<Rightarrow> InvalidServerOrigin + unit" where
  "validate_server_origin url reject_dhttp =
     (if url_scheme url \<noteq> str ''https'' then Inl NotHttps
      else case url_host url of
        None \<Rightarrow> Inl MissingHost
      | Some host \<Rightarrow>
          if url_username url \<noteq> [] \<or> url_password url \<noteq> None then Inl HasCredentials
          else if url_path url \<noteq> str ''/'' \<or> url_query url \<noteq> None \<or> url_fragment url \<noteq> None then Inl HasPathQueryOrFragment
          else
            let host = to_ascii_lowercase (trim_end_matches dot host)
            in if reject_dhttp \<and> in_dhttp host then Inl DhttpOrigin else Inr ())"

record request =
  req_origin :: Url
  req_path :: rstr
  req_pairs :: "(rstr \<times> rstr) list"

definition lookup_url :: "Url \<Rightarrow> rstr \<Rightarrow> EndpointLookup \<Rightarrow> request" where
  "lookup_url server_origin name lookup =
     \<lparr>req_origin = server_origin, req_path = str ''/api/v2/lookup'',
      req_pairs = (str ''host'', name) # append_endpoint_lookup_query lookup\<rparr>"

definition exact_override :: "EndpointLookup \<Rightarrow> CertificateSequence option \<Rightarrow> EndpointLookup" where
  "exact_override lookup sq =
     (case sq of
        None \<Rightarrow> lookup
      | Some s \<Rightarrow>
          let exact = with_family (family lookup) (lookup_exact s)
          in case record_limit lookup of Some limit \<Rightarrow> with_record_limit limit exact | None \<Rightarrow> exact)"

section \<open>Freshness\<close>

type_synonym headers = "rstr \<Rightarrow> rstr option list"

definition header_get :: "headers \<Rightarrow> rstr \<Rightarrow> rstr option" where
  "header_get hs name = (case hs name of v # _ \<Rightarrow> v | [] \<Rightarrow> None)"

text \<open>\<^verbatim>\<open>str::trim\<close> on header text, which is ASCII.\<close>

definition is_ascii_whitespace :: "u8 \<Rightarrow> bool" where
  "is_ascii_whitespace b \<longleftrightarrow> b = 32 \<or> (9 \<le> b \<and> b \<le> 13)"

definition trim :: "rstr \<Rightarrow> rstr" where
  "trim s = rev (dropWhile is_ascii_whitespace (rev (dropWhile is_ascii_whitespace s)))"

definition CACHE_CONTROL :: rstr where "CACHE_CONTROL = str ''cache-control''"
definition AGE :: rstr where "AGE = str ''age''"

definition forbids_caching :: "rstr \<Rightarrow> bool" where
  "forbids_caching directive \<longleftrightarrow>
     (let name = trim (hd (split_on 61 (trim directive)))
      in eq_ignore_ascii_case name (str ''no-store'') \<or> eq_ignore_ascii_case name (str ''no-cache''))"

definition max_age_directive :: "rstr \<Rightarrow> u64 option" where
  "max_age_directive directive =
     (case split_once 61 (trim directive) of
        None \<Rightarrow> None
      | Some (name, v) \<Rightarrow> if eq_ignore_ascii_case name (str ''max-age'') then parse_u64 (trim_matches 34 v) else None)"

definition freshness :: "nat \<Rightarrow> headers \<Rightarrow> nat" where
  "freshness dns_ttl hs =
     (if list_ex (\<lambda>v. list_ex forbids_caching (split_on 44 v)) (List.map_filter (\<lambda>v. v) (hs CACHE_CONTROL)) then 0
      else
        let max_age = map_option unat (Option.bind (header_get hs CACHE_CONTROL)
                        (\<lambda>v. find_map max_age_directive (split_on 44 v)));
            age = (case Option.bind (header_get hs AGE) parse_u64 of Some a \<Rightarrow> unat a | None \<Rightarrow> 0)
        in (case max_age of Some m \<Rightarrow> min dns_ttl m | None \<Rightarrow> dns_ttl) - age)"

section \<open>Decoding a response\<close>

datatype LookupDecodeError = TooManyRecords nat | MultiResponseInvalid | ParseRecords nom_err

datatype LookupSemanticError = Decode LookupDecodeError | NoRecordFound | NoUsableRecord

record LookupAnswer =
  candidates :: EndpointCandidates
  answer_ttl :: nat

text \<open>What one answer contributes: the endpoint record, if it is one and carries the name.\<close>

definition answer_candidate :: "rstr \<Rightarrow> CertificateChainKey option \<Rightarrow> ResourceRecord \<Rightarrow> u32 TaggedEndpointCandidate option" where
  "answer_candidate name fallback rr =
     (case rdata rr of
        RData.E record \<Rightarrow>
          if rr_name rr = name then Some \<lparr>tag = ttl rr, tec_record = record, fallback_chain_key = fallback\<rparr> else None
      | _ \<Rightarrow> None)"

fun decode_records ::
  "codec \<Rightarrow> home \<Rightarrow> crypto \<Rightarrow> rstr \<Rightarrow> ResponseRecord list \<Rightarrow> nat \<Rightarrow> u32 TaggedEndpointCandidate list \<Rightarrow>
   LookupDecodeError + nat \<times> u32 TaggedEndpointCandidate list" where
  "decode_records C H K name [] rejected eps = Inr (rejected, eps)"
| "decode_records C H K name (response # rest) rejected eps =
     (let fallback = publisher_certificate_chain_key H response in
      if \<not> fields_is_empty (signature_fields response) \<and>
         fields_verify K (signature_fields response) (rec_dns response) (rec_cert response) \<noteq> Inr True
      then decode_records C H K name rest (rejected + 1) eps
      else case be_packet C H (rec_dns response) of
        Inl e \<Rightarrow> Inl (ParseRecords e)
      | Inr (remain, packet) \<Rightarrow>
          if remain \<noteq> [] then Inl MultiResponseInvalid
          else decode_records C H K name rest rejected (eps @ List.map_filter (answer_candidate name fallback) (answers packet)))"

definition decode_candidate_groups ::
  "codec \<Rightarrow> home \<Rightarrow> crypto \<Rightarrow> rstr \<Rightarrow> bytes \<Rightarrow> LookupDecodeError + u32 candidate_groups \<times> nat" where
  "decode_candidate_groups C H K name body =
     (if length body < 4 then Inl MultiResponseInvalid
      else
        let count = unat (from_be (take 4 body) :: u32) in
        if count > MAX_RESPONSE_RECORDS then Inl (TooManyRecords MAX_RESPONSE_RECORDS)
        else case be_multi_response C body of
          Inl _ \<Rightarrow> Inl MultiResponseInvalid
        | Inr (remain, multi) \<Rightarrow>
            if remain \<noteq> [] then Inl MultiResponseInvalid
            else case decode_records C H K name (mr_records multi) 0 [] of
              Inl e \<Rightarrow> Inl e
            | Inr (rejected, eps) \<Rightarrow> Inr (grouped_endpoint_candidates H eps, rejected))"

fun dedup_records :: "DquicEndpointAddr list \<Rightarrow> (u32 \<times> DquicEndpointAddr) list \<Rightarrow> (u32 \<times> DquicEndpointAddr) list" where
  "dedup_records known [] = []"
| "dedup_records known ((t, e) # rest) =
     (if e \<in> set known then dedup_records known rest else (t, e) # dedup_records (e # known) rest)"

definition take_limit :: "nat option \<Rightarrow> 'a list \<Rightarrow> 'a list" where
  "take_limit limit xs = (case limit of Some n \<Rightarrow> take n xs | None \<Rightarrow> xs)"

definition min_ttl :: "u32 option \<Rightarrow> u32 \<Rightarrow> u32 option" where
  "min_ttl current t = Some (case current of Some c \<Rightarrow> min c t | None \<Rightarrow> t)"

fun build_groups ::
  "nat option \<Rightarrow> Source \<Rightarrow> u32 candidate_groups \<Rightarrow> u32 option \<times> EndpointCandidateGroup list \<Rightarrow>
   u32 option \<times> EndpointCandidateGroup list" where
  "build_groups limit source [] st = st"
| "build_groups limit source ((key, records) # rest) (ti, cands) =
     (let kept = take_limit limit (dedup_records [] records);
          ti = foldl min_ttl ti (map fst kept);
          eps = map snd kept;
          cands = (if eps \<noteq> [] then cands @ [\<lparr>chain = key, endpoints = eps, sources = [source]\<rparr>] else cands)
      in build_groups limit source rest (ti, cands))"

definition decode_lookup_response ::
  "codec \<Rightarrow> home \<Rightarrow> crypto \<Rightarrow> (DquicEndpointAddr \<Rightarrow> SocketAddr) \<Rightarrow> rstr \<Rightarrow> EndpointLookup \<Rightarrow> Source \<Rightarrow> headers \<Rightarrow> bytes \<Rightarrow>
   LookupSemanticError + LookupAnswer" where
  "decode_lookup_response C H K addr_of name lookup source hs body =
     (case decode_candidate_groups C H K name body of
        Inl e \<Rightarrow> Inl (Decode e)
      | Inr (gs, rejected) \<Rightarrow>
          let gs = select_group_pairs (filter_endpoint_candidate_groups addr_of gs (family lookup)) (sequences lookup);
              (ti, cands) = build_groups (record_limit lookup) source gs (None, [])
          in if cands = [] then Inl (if rejected = 0 then NoRecordFound else NoUsableRecord)
             else Inr \<lparr>candidates = \<lparr>groups = cands\<rparr>,
                       answer_ttl = freshness (case ti of Some v \<Rightarrow> unat v | None \<Rightarrow> 0) hs\<rparr>)"

section \<open>Lemmas\<close>

text \<open>A record is accepted when it is unsigned or its signature verifies.\<close>

definition accepted :: "crypto \<Rightarrow> ResponseRecord \<Rightarrow> bool" where
  "accepted K r \<longleftrightarrow> fields_is_empty (signature_fields r) \<or>
     fields_verify K (signature_fields r) (rec_dns r) (rec_cert r) = Inr True"

text \<open>A candidate comes from an accepted record of the body.\<close>

definition comes_from :: "codec \<Rightarrow> home \<Rightarrow> crypto \<Rightarrow> rstr \<Rightarrow> ResponseRecord list \<Rightarrow> u32 TaggedEndpointCandidate \<Rightarrow> bool" where
  "comes_from C H K name records c \<longleftrightarrow> (\<exists>response \<in> set records. \<exists>packet. \<exists>rr \<in> set (answers packet).
     accepted K response \<and> be_packet C H (rec_dns response) = Inr ([], packet) \<and> rr_name rr = name \<and>
     rdata rr = RData.E (tec_record c) \<and> ttl rr = tag c \<and> fallback_chain_key c = publisher_certificate_chain_key H response)"

lemma answer_candidate_Some:
  "answer_candidate name fb rr = Some c \<longleftrightarrow>
     rr_name rr = name \<and> rdata rr = RData.E (tec_record c) \<and> tag c = ttl rr \<and> fallback_chain_key c = fb"
  by (cases c) (auto simp: answer_candidate_def split: RData.splits)

lemma decode_records_step:
  "decode_records C H K name (r # rest) rejected eps =
     (if \<not> accepted K r then decode_records C H K name rest (rejected + 1) eps
      else case be_packet C H (rec_dns r) of
        Inl e \<Rightarrow> Inl (ParseRecords e)
      | Inr (remain, packet) \<Rightarrow>
          if remain \<noteq> [] then Inl MultiResponseInvalid
          else decode_records C H K name rest rejected
            (eps @ List.map_filter (answer_candidate name (publisher_certificate_chain_key H r)) (answers packet)))"
  by (simp add: accepted_def Let_def)

declare decode_records.simps(2) [simp del]

lemma comes_from_record:
  assumes "accepted K r" and "be_packet C H (rec_dns r) = Inr ([], packet)"
    and "c \<in> set (List.map_filter (answer_candidate name (publisher_certificate_chain_key H r)) (answers packet))"
  shows "comes_from C H K name (r # rest) c"
proof -
  obtain rr where "rr \<in> set (answers packet)" "answer_candidate name (publisher_certificate_chain_key H r) rr = Some c"
    using assms(3) by (auto simp: List.map_filter_def)
  then show ?thesis using assms(1,2) unfolding comes_from_def answer_candidate_Some
    by (intro bexI [of _ r] exI [of _ packet] bexI [of _ rr]) simp_all
qed

lemma comes_from_Cons: "comes_from C H K name rest c \<Longrightarrow> comes_from C H K name (r # rest) c"
  by (auto simp: comes_from_def)

lemma decode_records_sound:
  assumes "decode_records C H K name rs rejected eps = Inr (n, eps')" and "c \<in> set eps'"
  shows "c \<in> set eps \<or> comes_from C H K name rs c"
  using assms
proof (induction rs arbitrary: rejected eps)
  case (Cons r rest)
  show ?case
  proof (cases "accepted K r")
    case False
    with Cons show ?thesis by (auto simp: decode_records_step intro: comes_from_Cons)
  next
    case True
    then obtain packet where p: "be_packet C H (rec_dns r) = Inr ([], packet)"
      using Cons.prems(1) by (auto simp: decode_records_step split: sum.splits if_splits)
    let ?new = "List.map_filter (answer_candidate name (publisher_certificate_chain_key H r)) (answers packet)"
    have "decode_records C H K name rest rejected (eps @ ?new) = Inr (n, eps')"
      using Cons.prems(1) True p by (simp add: decode_records_step)
    from Cons.IH [OF this Cons.prems(2)] comes_from_record [OF True p, of c name rest] comes_from_Cons
    show ?thesis by auto
  qed
qed simp

lemma dedup_records_props:
  "distinct (map snd (dedup_records known rs)) \<and> set (dedup_records known rs) \<subseteq> set rs \<and>
   snd ` set (dedup_records known rs) = snd ` set rs - set known"
  by (induction known rs rule: dedup_records.induct) auto

lemma take_limit_props:
  "set (take_limit l xs) \<subseteq> set xs" "distinct (map f xs) \<Longrightarrow> distinct (map f (take_limit l xs))"
  "length (take_limit l xs) \<le> (case l of Some n \<Rightarrow> n | None \<Rightarrow> length xs)"
  by (auto simp: take_limit_def take_map [symmetric] dest: in_set_takeD split: option.split)

definition kept_records :: "nat option \<Rightarrow> (u32 \<times> DquicEndpointAddr) list \<Rightarrow> (u32 \<times> DquicEndpointAddr) list" where
  "kept_records limit rs = take_limit limit (dedup_records [] rs)"

lemma kept_records_props:
  "set (kept_records limit rs) \<subseteq> set rs" "distinct (map snd (kept_records limit rs))"
  "limit = Some n \<Longrightarrow> length (kept_records limit rs) \<le> n"
  using dedup_records_props [of "[]" rs] take_limit_props(1) [of limit "dedup_records [] rs"]
    take_limit_props(2) [of snd "dedup_records [] rs" limit] take_limit_props(3) [of limit "dedup_records [] rs"]
  by (auto simp: kept_records_def)

lemma build_groups_spec:
  "build_groups limit source gs (ti, cands) =
     (foldl min_ttl ti (concat (map (\<lambda>(_, rs). map fst (kept_records limit rs)) gs)),
      cands @ map (\<lambda>(k, rs). \<lparr>chain = k, endpoints = map snd (kept_records limit rs), sources = [source]\<rparr>)
        (filter (\<lambda>(_, rs). kept_records limit rs \<noteq> []) gs))"
  by (induction gs arbitrary: ti cands) (auto simp: kept_records_def Let_def)

lemma foldl_min_ttl:
  assumes "t \<in> set ts"
  shows "\<exists>m. foldl min_ttl ti ts = Some m \<and> m \<le> t"
proof -
  have le: "\<exists>m. foldl min_ttl (Some c) ts = Some m \<and> m \<le> c" for c ts
  proof (induction ts arbitrary: c)
    case (Cons a ts)
    from Cons.IH [of "min c a"] show ?case by (auto simp: min_ttl_def)
  qed simp
  show ?thesis using assms
  proof (induction ts arbitrary: ti)
    case (Cons x ts)
    show ?case
    proof (cases "t = x")
      case True
      obtain c where "min_ttl ti x = Some c" "c \<le> x" by (cases ti) (auto simp: min_ttl_def)
      then show ?thesis using le [of c ts] True by (auto intro: order_trans)
    qed (use Cons in auto)
  qed simp
qed

lemma filtered_group:
  assumes "(k, eps) \<in> set (select_group_pairs (filter_endpoint_candidate_groups addr_of gs fam) q)"
  shows "\<exists>eps0. (k, eps0) \<in> set gs \<and> set eps \<subseteq> set eps0 \<and> (\<forall>(t, e) \<in> set eps. endpoint_matches_family addr_of e fam)"
proof -
  have "(k, eps) \<in> set (filter_endpoint_candidate_groups addr_of gs fam)"
    using assms by (auto simp: select_group_pairs_def dest: in_set_takeD split: SequenceQuery.splits)
  then show ?thesis
    by (auto simp: filter_endpoint_candidate_groups_def endpoint_matches_family_def split: if_splits)
qed

lemma filtered_distinct:
  assumes "distinct (map fst gs)"
  shows "distinct (map fst (select_group_pairs (filter_endpoint_candidate_groups addr_of gs fam) q))"
proof -
  have "distinct (map fst (map (\<lambda>(k, eps). (k, filter (\<lambda>(_, e). endpoint_matches_family addr_of e fam) eps)) gs))"
    using assms by (simp add: comp_def case_prod_unfold)
  from distinct_map_filter [OF this, of "\<lambda>(_, eps). eps \<noteq> []"]
  have "distinct (map fst (filter_endpoint_candidate_groups addr_of gs fam))"
    using assms by (simp add: filter_endpoint_candidate_groups_def Let_def)
  then show ?thesis
    by (simp add: select_group_pairs_def distinct_map_filter flip: take_map split: SequenceQuery.splits)
qed

lemma freshness_le: "freshness t hs \<le> t"
  by (auto simp: freshness_def Let_def min_def split: option.splits)

lemma candidate_groups_member:
  assumes "(k, eps) \<in> set (grouped_endpoint_candidates H cs)" and "(t, e) \<in> set eps"
  shows "\<exists>c \<in> set cs. effective_chain_key H (tec_record c) (fallback_chain_key c) = k \<and> is_primary_chain_key H k \<and>
    tag c = t \<and> try_into_dquic (tec_record c) = Some e"
proof -
  have "(k, t, e) \<in> set (List.map_filter (contribution H) cs)"
    using assms by (auto simp: grouped_spec group_by_key_lookup values_of_def)
  then show ?thesis by (auto simp: List.map_filter_def contribution_def Let_def split: if_splits)
qed

lemma decode_lookup_cases:
  assumes "decode_lookup_response C H K addr_of name lookup source hs body = Inr ans"
  obtains multi rejected eps gs where
    "be_multi_response C body = Inr ([], multi)" "decode_records C H K name (mr_records multi) 0 [] = Inr (rejected, eps)"
    "gs = select_group_pairs (filter_endpoint_candidate_groups addr_of (grouped_endpoint_candidates H eps) (family lookup)) (sequences lookup)"
    "groups (candidates ans) = snd (build_groups (record_limit lookup) source gs (None, []))" "groups (candidates ans) \<noteq> []"
    "answer_ttl ans = freshness (case fst (build_groups (record_limit lookup) source gs (None, [])) of Some v \<Rightarrow> unat v | None \<Rightarrow> 0) hs"
  using assms
  by (auto simp: decode_lookup_response_def decode_candidate_groups_def Let_def split: sum.splits prod.splits if_splits)

text \<open>Completeness: what the published endpoints of one authority decode to.\<close>

lemma group_by_key_single: "ds \<noteq> [] \<Longrightarrow> group_by_key (map (\<lambda>d. (k, f d)) ds) = [(k, map f ds)]"
proof -
  assume "ds \<noteq> []"
  then have "first_occurrences (map (\<lambda>d. k) ds) = [k]"
  proof (induction ds rule: rev_induct)
    case (snoc d ds)
    then show ?case by (cases "ds = []") (auto simp: first_occurrences_def image_constant_conv)
  qed simp
  then show ?thesis by (simp add: group_by_key_def values_of_def comp_def)
qed

lemma dedup_distinct: "distinct (map snd rs) \<Longrightarrow> set (map snd rs) \<inter> set known = {} \<Longrightarrow> dedup_records known rs = rs"
  by (induction known rs rule: dedup_records.induct) auto

lemma min_ttl_const: "ds \<noteq> [] \<Longrightarrow> foldl min_ttl None (map (\<lambda>d. t) ds) = Some t"
proof -
  have "foldl min_ttl (Some t) (map (\<lambda>d. t) ds) = Some t" for ds by (induction ds) (simp_all add: min_ttl_def)
  then show "ds \<noteq> [] \<Longrightarrow> ?thesis" by (cases ds) (simp_all add: min_ttl_def)
qed

lemma answer_candidates_records:
  "List.map_filter (answer_candidate name fb) (answer_records [(name, eps)]) =
     map (\<lambda>ep. \<lparr>tag = 300, tec_record = ep, fallback_chain_key = fb\<rparr>) eps"
  by (induction eps) (simp_all add: answer_records_def List.map_filter_simps answer_candidate_def)

lemma decode_published:
  assumes "codec_laws C" and "home_laws H" and "accepted K r" and "response_ok r"
    and "be_packet C H (rec_dns r) = Inr ([], p)"
    and "answers p = answer_records [(name, map (\<lambda>d. stamp key (the (try_from_dquic d))) ds)]"
    and "seq_ok H (key_sequence key)" and "list_all dquic_ok ds" and "distinct ds" and "ds \<noteq> []"
  shows "decode_lookup_response C H K addr_of name (lookup_exact (key_sequence key)) source hs (encode C \<lparr>mr_records = [r]\<rparr>) =
    Inr \<lparr>candidates = \<lparr>groups = [\<lparr>chain = primary_chain_key (key_sequence key), endpoints = ds, sources = [source]\<rparr>]\<rparr>,
         answer_ttl = freshness 300 hs\<rparr>"
proof -
  let ?body = "encode C \<lparr>mr_records = [r]\<rparr>" and ?k = "primary_chain_key (key_sequence key)"
  have body: "?body = to_be 4 (1 :: u32) @ response_bytes r"
    using assms(1,4) by (simp add: codec_laws.encode_bytes)
  have multi: "be_multi_response C ?body = Inr ([], \<lparr>mr_records = [r]\<rparr>)"
    using codec_laws.be_multi_bytes [OF assms(1), of "\<lparr>mr_records = [r]\<rparr>" "[]"] assms(4) by simp
  have dec: "decode_records C H K name [r] 0 [] = Inr (0, map (\<lambda>d. \<lparr>tag = 300, tec_record = stamp key (the (try_from_dquic d)),
      fallback_chain_key = publisher_certificate_chain_key H r\<rparr>) ds)"
    using assms(3,5,6) by (simp add: decode_records_step answer_candidates_records comp_def)
  have grp: "grouped_endpoint_candidates H (map (\<lambda>d. \<lparr>tag = 300, tec_record = stamp key (the (try_from_dquic d)),
      fallback_chain_key = publisher_certificate_chain_key H r\<rparr>) ds) = [(?k, map (\<lambda>d. (300, d)) ds)]"
    by (simp add: grouped_spec map_filter_contribution_stamp [OF assms(2,8,7)] group_by_key_single [OF assms(10)] del: chain_key_simps)
  have "unat (from_be (take 4 ?body) :: u32) = 1" and len: "\<not> length ?body < 4"
    by (simp_all add: body from_be_to_be_full)
  then have cg: "decode_candidate_groups C H K name ?body = Inr ([(?k, map (\<lambda>d. (300, d)) ds)], 0)"
    by (simp add: decode_candidate_groups_def MAX_RESPONSE_RECORDS_def multi dec grp del: chain_key_simps)
  have kept: "kept_records None (map (\<lambda>d. (300, d)) ds) = map (\<lambda>d. (300, d)) ds"
    using assms(9) by (simp add: kept_records_def take_limit_def dedup_distinct comp_def)
  have sel: "select_group_pairs (filter_endpoint_candidate_groups addr_of [(?k, map (\<lambda>d. (300 :: u32, d)) ds)] None)
      (Exact (key_sequence key)) = [(?k, map (\<lambda>d. (300, d)) ds)]"
    by (simp add: select_group_pairs_def filter_endpoint_candidate_groups_def)
  show ?thesis
    using assms(10)
    by (simp add: decode_lookup_response_def cg lookup_exact_def sel build_groups_spec kept comp_def min_ttl_const del: chain_key_simps)
qed

text \<open>The directive \<open>max-age=m\<close>.\<close>

lemma digit_bytes:
  assumes "b \<in> set (dec_digits n)"
  shows "b \<noteq> 44" "b \<noteq> 61" "b \<noteq> 34" "\<not> is_ascii_whitespace b"
proof -
  have "is_ascii_digit b" using assms dec_digits_props [of n] by (simp add: list_all_iff)
  then show "b \<noteq> 44" "b \<noteq> 61" "b \<noteq> 34" "\<not> is_ascii_whitespace b"
    by (auto simp: is_ascii_digit_def is_ascii_whitespace_def word_le_nat_alt)
qed

lemma dropWhile_none: "\<forall>x \<in> set xs. \<not> P x \<Longrightarrow> dropWhile P xs = xs"
  by (cases xs) auto

lemma trim_none: "\<forall>b \<in> set s. \<not> is_ascii_whitespace b \<Longrightarrow> trim s = s"
  by (simp add: trim_def dropWhile_none)

lemma trim_matches_none: "c \<notin> set s \<Longrightarrow> trim_matches c s = s"
  by (subgoal_tac "\<forall>x \<in> set s. x \<noteq> c") (auto simp: trim_matches_def trim_end_matches_def dropWhile_none)

lemma split_once_append: "c \<notin> set a \<Longrightarrow> split_once c (a @ c # b) = Some (a, b)"
  by (induction a) (auto simp: split_once_def)

lemma max_age_field:
  fixes m :: u64
  defines "v \<equiv> str ''max-age='' @ display_u64 m"
  shows "split_on 44 v = [v]" "max_age_directive v = Some m" "\<not> forbids_caching v"
proof -
  have v: "v = str ''max-age'' @ 61 # display_u64 m" by (simp add: v_def str_def)
  have d: "b \<noteq> 44 \<and> b \<noteq> 61 \<and> b \<noteq> 34 \<and> \<not> is_ascii_whitespace b" if "b \<in> set (display_u64 m)" for b
    using digit_bytes [of b "unat m"] that by (simp add: display_u64_def)
  have name: "44 \<notin> set (str ''max-age'')" "61 \<notin> set (str ''max-age'')" "\<forall>b \<in> set (str ''max-age''). \<not> is_ascii_whitespace b"
    by (simp_all add: str_def is_ascii_whitespace_def)
  have ws: "\<forall>b \<in> set v. \<not> is_ascii_whitespace b" using d name(3) by (auto simp: v is_ascii_whitespace_def)
  have tr: "trim v = v" "trim (str ''max-age'') = str ''max-age''"
    by (rule trim_none [OF ws], rule trim_none [OF name(3)])
  show "split_on 44 v = [v]" using d name(1) by (intro split_on_single) (auto simp: v)
  have "trim_matches 34 (display_u64 m) = display_u64 m" using d by (intro trim_matches_none) blast
  then show "max_age_directive v = Some m"
    using tr name(2) by (simp add: max_age_directive_def v split_once_append parse_display_u64 eq_ignore_ascii_case_def)
  have "hd (split_on 61 (trim v)) = str ''max-age''" using tr name(2) by (simp add: v split_on_append)
  then show "\<not> forbids_caching v"
    using tr by (simp add: forbids_caching_def eq_ignore_ascii_case_def to_ascii_lowercase_def str_def ascii_lower_def)
qed

section \<open>Properties\<close>

text \<open>Which server a resolver accepts. The origin is accepted exactly when it is an \<^verbatim>\<open>https\<close> URL with a host and
  with nothing but the host and port in it; the H3 resolver in addition refuses every origin in the
  DHTTP domain, however it is capitalised and dotted, so that looking up its own server cannot recurse
  through it.\<close>

theorem server_origin_accepted:
  "validate_server_origin url rd = Inr () \<longleftrightarrow>
     url_scheme url = str ''https'' \<and> url_username url = [] \<and> url_password url = None \<and> url_path url = str ''/'' \<and>
     url_query url = None \<and> url_fragment url = None \<and>
     (case url_host url of None \<Rightarrow> False
      | Some host \<Rightarrow> \<not> (rd \<and> in_dhttp (to_ascii_lowercase (trim_end_matches dot host))))"
  by (auto simp: validate_server_origin_def Let_def split: option.splits)

text \<open>C16: What a client may rely on in a decoded lookup response, whatever bytes the server sent. The
  groups have different chains, all primary; each holds at least one and at most the requested number
  of endpoints, none twice. Every endpoint stands in an endpoint record of the asked name, in a
  completely parsed packet of a record that is unsigned or whose signature verifies under its
  certificate; its chain is that record's; it has the requested family; and the answer is not
  cached longer than that record's time to live.\<close>

theorem lookup_answer_trusted:
  assumes "decode_lookup_response C H K addr_of name lookup source hs body = Inr ans"
    and "g \<in> set (groups (candidates ans))" and "e \<in> set (endpoints g)"
  shows "distinct (map chain (groups (candidates ans))) \<and> is_primary_chain_key H (chain g) \<and> sources g = [source] \<and>
    distinct (endpoints g) \<and> (case record_limit lookup of Some n \<Rightarrow> length (endpoints g) \<le> n | None \<Rightarrow> True) \<and>
    endpoint_matches_family addr_of e (family lookup) \<and>
    (\<exists>multi response packet rr ep.
      be_multi_response C body = Inr ([], multi) \<and> response \<in> set (mr_records multi) \<and>
      (fields_is_empty (signature_fields response) \<or>
       fields_verify K (signature_fields response) (rec_dns response) (rec_cert response) = Inr True) \<and>
      be_packet C H (rec_dns response) = Inr ([], packet) \<and> rr \<in> set (answers packet) \<and> rr_name rr = name \<and>
      rdata rr = RData.E ep \<and> try_into_dquic ep = Some e \<and> answer_ttl ans \<le> unat (ttl rr) \<and>
      effective_chain_key H ep (publisher_certificate_chain_key H response) = chain g)"
proof -
  obtain multi rejected eps gs where multi: "be_multi_response C body = Inr ([], multi)"
    and dec: "decode_records C H K name (mr_records multi) 0 [] = Inr (rejected, eps)"
    and gs: "gs = select_group_pairs (filter_endpoint_candidate_groups addr_of (grouped_endpoint_candidates H eps) (family lookup)) (sequences lookup)"
    and grp: "groups (candidates ans) = snd (build_groups (record_limit lookup) source gs (None, []))"
    and ttl: "answer_ttl ans = freshness (case fst (build_groups (record_limit lookup) source gs (None, [])) of Some v \<Rightarrow> unat v | None \<Rightarrow> 0) hs"
    by (rule decode_lookup_cases [OF assms(1)])
  let ?kept = "kept_records (record_limit lookup)"
  obtain rs where g: "(chain g, rs) \<in> set gs" "endpoints g = map snd (?kept rs)" "sources g = [source]"
    using assms(2) by (auto simp: grp build_groups_spec)
  have "distinct (map fst (grouped_endpoint_candidates H eps))" by (simp add: grouped_spec)
  then have dis: "distinct (map fst gs)" unfolding gs by (rule filtered_distinct)
  have chains: "map chain (groups (candidates ans)) = map fst (filter (\<lambda>(_, rs). ?kept rs \<noteq> []) gs)"
    by (simp add: grp build_groups_spec case_prod_unfold comp_def)
  obtain t where t: "(t, e) \<in> set (?kept rs)" using assms(3) g(2) by auto
  then have te: "(t, e) \<in> set rs" using kept_records_props(1) by blast
  obtain eps0 where eps0: "(chain g, eps0) \<in> set (grouped_endpoint_candidates H eps)" "(t, e) \<in> set eps0"
    "endpoint_matches_family addr_of e (family lookup)"
    using filtered_group [OF g(1) [unfolded gs]] te by blast
  obtain c where c: "c \<in> set eps" "effective_chain_key H (tec_record c) (fallback_chain_key c) = chain g"
    "is_primary_chain_key H (chain g)" "tag c = t" "try_into_dquic (tec_record c) = Some e"
    using candidate_groups_member [OF eps0(1,2)] by blast
  have "comes_from C H K name (mr_records multi) c" using decode_records_sound [OF dec c(1)] by simp
  then obtain response packet rr where src: "response \<in> set (mr_records multi)" "rr \<in> set (answers packet)"
    "accepted K response" "be_packet C H (rec_dns response) = Inr ([], packet)" "rr_name rr = name"
    "rdata rr = RData.E (tec_record c)" "ttl rr = tag c" "fallback_chain_key c = publisher_certificate_chain_key H response"
    by (auto simp: comes_from_def)
  have "t \<in> set (concat (map (\<lambda>(_, rs). map fst (?kept rs)) gs))" using g(1) t by force
  from foldl_min_ttl [OF this, of None]
  obtain m where "fst (build_groups (record_limit lookup) source gs (None, [])) = Some m" "m \<le> t"
    by (auto simp: build_groups_spec)
  then have "answer_ttl ans \<le> unat t"
    using freshness_le [of "unat m" hs] by (simp add: ttl word_le_nat_alt)
  then show ?thesis
    using dis chains distinct_map_filter g(2,3) kept_records_props(2,3) eps0(3) multi src c
    by (auto simp: accepted_def split: option.split)
qed

text \<open>A response with one unsigned record of the reference authority.\<close>

definition demo_key :: CertificateChainKey where
  "demo_key = \<lparr>key_sequence = 1, key_usage = ClientAndServer\<rparr>"

definition demo_packet :: bytes where
  "demo_packet = the (to_bytes ref_codec (answer 0 [(str ''com'', map (\<lambda>d. stamp demo_key (the (try_from_dquic d))) demo_published)]))"

definition demo_response :: ResponseRecord where
  "demo_response = ResponseRecord_unsigned demo_packet []"

lemma demo_published_ok: "list_all dquic_ok demo_published" "distinct demo_published" "demo_published \<noteq> []"
  "seq_ok ref_home (key_sequence demo_key)" "length demo_published \<le> 65535"
  by (simp_all add: demo_published_def dquic_ok_def direct_v4_def nat_v4_def addr_ok_def is_ipv6_def FLAG_defs
      seq_ok_def ref_home_def demo_key_def)

lemma demo_packet_length: "length demo_packet < 1000"
  by code_simp

lemma demo_response_ok: "accepted ref_crypto demo_response" "response_ok demo_response"
  using demo_packet_length
  by (simp_all add: accepted_def response_ok_def field_ok_def demo_response_def ResponseRecord_unsigned_def ResponseRecord_new_def
      fields_is_empty_def SignatureFields_empty_def)

lemma demo_packet_read:
  "\<exists>p. be_packet ref_codec ref_home (rec_dns demo_response) = Inr ([], p) \<and>
     answers p = answer_records [(str ''com'', map (\<lambda>d. stamp demo_key (the (try_from_dquic d))) demo_published)]"
proof -
  let ?eps = "map (\<lambda>d. stamp demo_key (the (try_from_dquic d))) demo_published"
  have "rdata_ok ref_home (RData.E ep)" if "ep \<in> set ?eps" for ep
    using that stamped_endpoint(1) [OF refh.home_laws_axioms _ demo_published_ok(4)] demo_published_ok(1)
    unfolding list_all_iff by auto
  moreover have "length (answer_records [(str ''com'', ?eps)]) \<le> 65535"
    using demo_published_ok(5) by (simp add: answer_records_def)
  ultimately show ?thesis
    using answer_reads_back [OF refc.codec_laws_axioms, of "[(str ''com'', ?eps)]" ref_home 0]
    by (auto simp: com_fits demo_response_def demo_packet_def ResponseRecord_unsigned_def ResponseRecord_new_def)
qed

fun demo_addr_of :: "DquicEndpointAddr \<Rightarrow> SocketAddr" where
  "demo_addr_of (Direct a) = a"
| "demo_addr_of (Mediate agt outer) = outer"

lemma demo_decoded:
  "decode_lookup_response ref_codec ref_home ref_crypto demo_addr_of (str ''com'') (lookup_exact 1) source hs
     (encode ref_codec \<lparr>mr_records = [demo_response]\<rparr>) =
   Inr \<lparr>candidates = \<lparr>groups = [\<lparr>chain = primary_chain_key 1, endpoints = demo_published, sources = [source]\<rparr>]\<rparr>,
        answer_ttl = freshness 300 hs\<rparr>"
proof -
  obtain p where "be_packet ref_codec ref_home (rec_dns demo_response) = Inr ([], p)"
    "answers p = answer_records [(str ''com'', map (\<lambda>d. stamp demo_key (the (try_from_dquic d))) demo_published)]"
    using demo_packet_read by blast
  from decode_published [OF refc.codec_laws_axioms refh.home_laws_axioms demo_response_ok this demo_published_ok(4,1,2,3),
      of demo_addr_of source hs]
  show ?thesis by (simp add: demo_key_def)
qed

lemma demo_body_length: "length (encode ref_codec \<lparr>mr_records = [demo_response]\<rparr>) < 2000"
  using demo_packet_length
  by (simp add: refc.encode_bytes response_bytes_def field_bytes_def demo_response_def ResponseRecord_unsigned_def ResponseRecord_new_def SignatureFields_empty_def)

theorem lookup_answer_trusted_witness:
  "\<exists>ans. decode_lookup_response ref_codec ref_home ref_crypto demo_addr_of (str ''com'') (lookup_exact 1) Source.System (\<lambda>_. [])
       (encode ref_codec \<lparr>mr_records = [demo_response]\<rparr>) = Inr ans \<and>
     (\<exists>(packet :: Packet) rr ep. rr \<in> set (answers packet) \<and> rdata rr = RData.E ep \<and> try_into_dquic ep = Some (hd demo_published) \<and>
        answer_ttl ans \<le> unat (ttl rr))"
proof -
  have mem: "hd demo_published \<in> set demo_published" using demo_published_ok(3) by simp
  let ?g = "\<lparr>chain = primary_chain_key 1, endpoints = demo_published, sources = [Source.System]\<rparr>"
  obtain packet :: Packet and rr ep where "rr \<in> set (answers packet)" "rdata rr = RData.E ep" "try_into_dquic ep = Some (hd demo_published)"
      "freshness 300 (\<lambda>_. []) \<le> unat (ttl rr)"
    using lookup_answer_trusted [OF demo_decoded [of Source.System "\<lambda>_. []"], of ?g "hd demo_published"] mem by simp blast
  then show ?thesis using demo_decoded [of Source.System "\<lambda>_. []"] by fastforce
qed

text \<open>Freshness. The lifetime of an answer is never longer than the records allow; any
  \<^verbatim>\<open>no-store\<close> or \<^verbatim>\<open>no-cache\<close> directive, in whichever \<^verbatim>\<open>Cache-Control\<close> field it stands, makes it zero; and for a field
  \<open>max-age=m\<close> and an \<^verbatim>\<open>Age\<close> field \<open>a\<close> it is the smaller of the record lifetime and \<open>m\<close>, less \<open>a\<close>.\<close>

theorem freshness_spec:
  "freshness t hs \<le> t \<and>
   (list_ex (\<lambda>v. case v of Some s \<Rightarrow> list_ex forbids_caching (split_on 44 s) | None \<Rightarrow> False) (hs CACHE_CONTROL) \<longrightarrow>
     freshness t hs = 0) \<and>
   freshness t (hs(CACHE_CONTROL := [Some (str ''max-age='' @ display_u64 m)], AGE := [Some (display_u64 a)])) =
     min t (unat m) - unat a"
proof (intro conjI impI)
  show "freshness t hs \<le> t" by (rule freshness_le)
next
  assume "list_ex (\<lambda>v. case v of Some s \<Rightarrow> list_ex forbids_caching (split_on 44 s) | None \<Rightarrow> False) (hs CACHE_CONTROL)"
  then have "list_ex (\<lambda>v. list_ex forbids_caching (split_on 44 v)) (List.map_filter (\<lambda>v. v) (hs CACHE_CONTROL))"
    by (auto simp: list_ex_iff List.map_filter_def split: option.splits)
  then show "freshness t hs = 0" by (simp add: freshness_def)
next
  show "freshness t (hs(CACHE_CONTROL := [Some (str ''max-age='' @ display_u64 m)], AGE := [Some (display_u64 a)])) =
     min t (unat m) - unat a"
    using max_age_field [of m]
    by (simp add: freshness_def header_get_def parse_display_u64 List.map_filter_simps CACHE_CONTROL_def AGE_def str_def)
qed

theorem freshness_spec_witness:
  "freshness 300 (\<lambda>n. if n = CACHE_CONTROL then [Some (str ''max-age=60''), Some (str ''NO-CACHE'')] else []) = 0"
proof -
  let ?hs = "\<lambda>n. if n = CACHE_CONTROL then [Some (str ''max-age=60''), Some (str ''NO-CACHE'')] else []"
  have "list_ex (\<lambda>v. case v of Some s \<Rightarrow> list_ex forbids_caching (split_on 44 s) | None \<Rightarrow> False) (?hs CACHE_CONTROL)"
    by (simp add: str_def forbids_caching_def trim_def is_ascii_whitespace_def eq_ignore_ascii_case_def to_ascii_lowercase_def ascii_lower_def)
  then show ?thesis using freshness_spec [of 300 ?hs 0 0] by blast
qed

end
