(* ===== verification/LookupCache.thy ===== *)
theory LookupCache
  imports Api
begin

text \<open>
  The cache of positive lookup answers: \<^verbatim>\<open>src/h3/cache.rs\<close>, and the same cache written inline in
  \<^verbatim>\<open>src/http.rs\<close>. The concurrent map is a map; the clock is the argument \<open>now\<close>, in nanoseconds. The
  interface the two resolvers rely on is the locale \<open>expiring_cache\<close>: the entries alive at a time, and
  how reading and writing change them; it is interpreted on both caches.
\<close>

section \<open>The interface\<close>

text \<open>\<open>live c t\<close> are the entries that may be served at time \<open>t\<close>.\<close>

locale expiring_cache =
  fixes get :: "nat \<Rightarrow> 'k \<Rightarrow> 'c \<Rightarrow> 'c \<times> 'v option"
    and insert :: "nat \<Rightarrow> 'k \<Rightarrow> 'v \<Rightarrow> nat \<Rightarrow> 'c \<Rightarrow> 'c"
    and live :: "'c \<Rightarrow> nat \<Rightarrow> 'k \<rightharpoonup> 'v"
  assumes get_value: "snd (get now k c) = live c now k"
    and get_keeps: "now \<le> t \<Longrightarrow> live (fst (get now k c)) t = live c t"
    and insert_live: "0 < d \<Longrightarrow> live (insert now k v d c) t = (live c t)(k := if t < now + d then Some v else None)"
    and insert_zero: "insert now k v 0 c = c"
    and get_shrinks: "live (fst (get now k c)) t j = Some v \<Longrightarrow> live c t j = Some v"
    and live_expires: "t \<le> u \<Longrightarrow> live c u k = Some v \<Longrightarrow> live c t k = Some v"
begin

text \<open>A cached answer is served until it expires, however often the cache is read in between, and not
  longer.\<close>

definition read_all :: "(nat \<times> 'k) list \<Rightarrow> 'c \<Rightarrow> 'c" where
  "read_all = fold (\<lambda>(now, k) c. fst (get now k c))"

lemma read_all_keeps: "\<forall>(n, _) \<in> set rs. n \<le> t \<Longrightarrow> live (read_all rs c) t = live c t"
  by (induction rs arbitrary: c) (auto simp: read_all_def get_keeps)

lemma served_until_expiry:
  assumes "0 < d" and "\<forall>(n, _) \<in> set rs. n \<le> t"
  shows "snd (get t k (read_all rs (insert now k v d c))) = (if t < now + d then Some v else None)"
  by (simp add: get_value read_all_keeps [OF assms(2)] insert_live [OF assms(1)])

text \<open>What a resolver does on a miss, fetching at \<open>now\<close> and writing \<open>later\<close>: from then on the answer is served
  exactly until it expires.\<close>

lemma fetched_then_served:
  assumes "snd (get now k c) = None" and "now \<le> later" and "later \<le> t"
  shows "snd (get t k (insert later k v d (fst (get now k c)))) = (if t < later + d then Some v else None)"
proof (cases "d = 0")
  case True
  have "live c t k = None"
    using assms live_expires [of now t c k] by (cases "live c t k") (auto simp: get_value)
  then show ?thesis using True assms by (simp add: get_value insert_zero get_keeps)
next
  case False
  then show ?thesis by (simp add: get_value insert_live)
qed

text \<open>A cache returns only what was put into it: a property of the entries that holds for everything inserted
  holds for everything served.\<close>

definition all_entries :: "('k \<Rightarrow> 'v \<Rightarrow> bool) \<Rightarrow> 'c \<Rightarrow> bool" where
  "all_entries P c \<longleftrightarrow> (\<forall>t k v. live c t k = Some v \<longrightarrow> P k v)"

lemma get_all_entries: "all_entries P c \<Longrightarrow> all_entries P (fst (get now k c))"
  using get_shrinks unfolding all_entries_def by blast

lemma served_entry: "all_entries P c \<Longrightarrow> snd (get now k c) = Some v \<Longrightarrow> P k v"
  by (simp add: all_entries_def get_value)

lemma insert_all_entries: "all_entries P c \<Longrightarrow> P k v \<Longrightarrow> all_entries P (insert now k v d c)"
  by (cases "d = 0") (auto simp: all_entries_def insert_zero insert_live split: if_splits)

lemma other_keys: "k' \<noteq> k \<Longrightarrow> snd (get t k' (insert now k v d c)) = snd (get t k' c)"
  by (cases "d = 0") (simp_all add: get_value insert_zero insert_live)

end

section \<open>The cache of the H3 resolver\<close>

record LookupKey =
  lk_name :: rstr
  lk_lookup :: EndpointLookup

definition LookupKey_new :: "rstr \<Rightarrow> EndpointLookup \<Rightarrow> LookupKey" where
  "LookupKey_new name lookup = \<lparr>lk_name = to_ascii_lowercase (trim_end_matches dot name), lk_lookup = lookup\<rparr>"

record CachedAnswer =
  ca_candidates :: EndpointCandidates
  expires_at :: nat

record LookupCache =
  positive :: "LookupKey \<rightharpoonup> CachedAnswer"

definition LookupCache_default :: LookupCache where
  "LookupCache_default = \<lparr>positive = Map.empty\<rparr>"

definition cache_get :: "nat \<Rightarrow> LookupKey \<Rightarrow> LookupCache \<Rightarrow> LookupCache \<times> EndpointCandidates option" where
  "cache_get now k c =
     (case positive c k of
        None \<Rightarrow> (c, None)
      | Some ans \<Rightarrow>
          if expires_at ans > now then (c, Some (ca_candidates ans))
          else (c\<lparr>positive := (positive c)(k := None)\<rparr>, None))"

definition cache_insert :: "nat \<Rightarrow> LookupKey \<Rightarrow> EndpointCandidates \<Rightarrow> nat \<Rightarrow> LookupCache \<Rightarrow> LookupCache" where
  "cache_insert now k cands d c =
     (if d \<noteq> 0 then c\<lparr>positive := (positive c)(k \<mapsto> \<lparr>ca_candidates = cands, expires_at = now + d\<rparr>)\<rparr> else c)"

definition invalidate_name :: "rstr \<Rightarrow> LookupCache \<Rightarrow> LookupCache" where
  "invalidate_name name c =
     (let name = trim_end_matches dot name
      in c\<lparr>positive := (\<lambda>k. if eq_ignore_ascii_case (lk_name k) name then None else positive c k)\<rparr>)"

definition cache_clear :: "LookupCache \<Rightarrow> LookupCache" where
  "cache_clear c = c\<lparr>positive := Map.empty\<rparr>"

definition cache_live :: "LookupCache \<Rightarrow> nat \<Rightarrow> LookupKey \<rightharpoonup> EndpointCandidates" where
  "cache_live c t k = (case positive c k of Some a \<Rightarrow> if t < expires_at a then Some (ca_candidates a) else None | None \<Rightarrow> None)"

interpretation h3c: expiring_cache cache_get cache_insert cache_live
proof
  show "snd (cache_get now k c) = cache_live c now k" for now k c
    by (simp add: cache_get_def cache_live_def split: option.split)
  show "cache_live (fst (cache_get now k c)) t = cache_live c t" if "now \<le> t" for now k c t
    using that by (auto simp: cache_get_def cache_live_def fun_eq_iff split: option.split)
qed (auto simp: cache_get_def cache_insert_def cache_live_def fun_eq_iff split: option.splits if_splits)

section \<open>The cache of the HTTP resolver\<close>

type_synonym http_cache = "LookupKey \<rightharpoonup> CachedAnswer"

definition CacheKey_new :: "rstr \<Rightarrow> EndpointLookup \<Rightarrow> LookupKey" where
  "CacheKey_new name lookup = \<lparr>lk_name = to_ascii_lowercase (trim_end_matches dot name), lk_lookup = lookup\<rparr>"

definition http_cache_get :: "nat \<Rightarrow> LookupKey \<Rightarrow> http_cache \<Rightarrow> http_cache \<times> EndpointCandidates option" where
  "http_cache_get now k c =
     (case c k of
        Some ans \<Rightarrow> if expires_at ans > now then (c, Some (ca_candidates ans)) else (c(k := None), None)
      | None \<Rightarrow> (c, None))"

definition http_cache_insert :: "nat \<Rightarrow> LookupKey \<Rightarrow> EndpointCandidates \<Rightarrow> nat \<Rightarrow> http_cache \<Rightarrow> http_cache" where
  "http_cache_insert now k cands d c = (if d \<noteq> 0 then c(k \<mapsto> \<lparr>ca_candidates = cands, expires_at = now + d\<rparr>) else c)"

definition http_cache_live :: "http_cache \<Rightarrow> nat \<Rightarrow> LookupKey \<rightharpoonup> EndpointCandidates" where
  "http_cache_live c t k = (case c k of Some a \<Rightarrow> if t < expires_at a then Some (ca_candidates a) else None | None \<Rightarrow> None)"

interpretation httpc: expiring_cache http_cache_get http_cache_insert http_cache_live
proof
  show "snd (http_cache_get now k c) = http_cache_live c now k" for now k c
    by (simp add: http_cache_get_def http_cache_live_def split: option.split)
  show "http_cache_live (fst (http_cache_get now k c)) t = http_cache_live c t" if "now \<le> t" for now k c t
    using that by (auto simp: http_cache_get_def http_cache_live_def fun_eq_iff split: option.split)
qed (auto simp: http_cache_get_def http_cache_insert_def http_cache_live_def fun_eq_iff split: option.splits if_splits)

section \<open>Lemmas\<close>

text \<open>Every key made for a name, in whatever case and with whatever trailing dots, is gone after the
  name is invalidated, and no other key is.\<close>

definition same_host :: "rstr \<Rightarrow> rstr \<Rightarrow> bool" where
  "same_host a b \<longleftrightarrow> to_ascii_lowercase (trim_end_matches dot a) = to_ascii_lowercase (trim_end_matches dot b)"

lemma invalidate_name_live:
  "cache_live (invalidate_name name c) t (LookupKey_new n lookup) =
     (if same_host n name then None else cache_live c t (LookupKey_new n lookup))"
  by (simp add: invalidate_name_def cache_live_def LookupKey_new_def eq_ignore_ascii_case_def same_host_def Let_def)

end
