(* ===== verification/H3Lookup.thy ===== *)
theory H3Lookup
  imports LookupCache
begin

text \<open>
  Lookups over DHTTP/3 (\<^verbatim>\<open>src/h3.rs\<close> and \<^verbatim>\<open>src/h3/lookup.rs\<close>). The transport is an argument: what each
  attempt of a request gives, a timeout, a failure of the request, or a response with its status,
  headers and body frames. Names accepted by \<^verbatim>\<open>rustls\<close>, the codec, the certificate formats and the
  cryptography are the parameters of the components used here; \<open>origin_ascii\<close> is the serialised origin
  of a URL.
\<close>

definition LOOKUP_REQUEST_ATTEMPTS :: nat where "LOOKUP_REQUEST_ATTEMPTS = 3"

section \<open>The resolver\<close>

datatype H3LookupError =
  InvalidName | Request | Body | Timeout nat | ResponseTooLarge nat | Status nat
| Decode LookupDecodeError | NoRecordFound | NoUsableRecord

record 'e H3Resolver =
  server_origin :: Url
  endpoint :: "'e option"
  h3_cache :: LookupCache

definition H3Resolver_new :: "Url \<Rightarrow> 'e \<Rightarrow> InvalidServerOrigin + 'e H3Resolver" where
  "H3Resolver_new origin ep =
     (case validate_server_origin origin True of
        Inl e \<Rightarrow> Inl e
      | Inr _ \<Rightarrow> Inr \<lparr>server_origin = origin, endpoint = Some ep, h3_cache = LookupCache_default\<rparr>)"

definition H3Resolver_anonymous :: "Url \<Rightarrow> InvalidServerOrigin + 'e H3Resolver" where
  "H3Resolver_anonymous origin =
     (case validate_server_origin origin True of
        Inl e \<Rightarrow> Inl e
      | Inr _ \<Rightarrow> Inr \<lparr>server_origin = origin, endpoint = None, h3_cache = LookupCache_default\<rparr>)"

definition h3_clear_cache :: "'e H3Resolver \<Rightarrow> 'e H3Resolver" where
  "h3_clear_cache r = r\<lparr>h3_cache := cache_clear (h3_cache r)\<rparr>"

section \<open>Bodies\<close>

datatype frame = Data bytes | Trailers | FrameError

datatype ReadBodyError = BodyFailed | TooLarge

fun read_body_limited :: "nat \<Rightarrow> bytes \<Rightarrow> frame list \<Rightarrow> ReadBodyError + bytes" where
  "read_body_limited limit bs [] = Inr bs"
| "read_body_limited limit bs (FrameError # rest) = Inl BodyFailed"
| "read_body_limited limit bs (Trailers # rest) = read_body_limited limit bs rest"
| "read_body_limited limit bs (Data d # rest) =
     (if length d > limit - length bs then Inl TooLarge else read_body_limited limit (bs @ d) rest)"

record response =
  resp_status :: nat
  resp_headers :: headers
  resp_body :: "frame list"

section \<open>Requests\<close>

text \<open>\<open>None\<close> is a failed request.\<close>

definition lookup_response :: "response option \<Rightarrow> H3LookupError + headers \<times> bytes" where
  "lookup_response result =
     (case result of
        None \<Rightarrow> Inl Request
      | Some response \<Rightarrow>
          if resp_status response = 200 then
            (case read_body_limited MAX_LOOKUP_RESPONSE_BYTES [] (resp_body response) of
               Inl BodyFailed \<Rightarrow> Inl Body
             | Inl TooLarge \<Rightarrow> Inl (ResponseTooLarge MAX_LOOKUP_RESPONSE_BYTES)
             | Inr body \<Rightarrow> Inr (resp_headers response, body))
          else if resp_status response = 404 then Inl NoRecordFound
          else Inl (Status (resp_status response)))"

datatype outcome = TimedOut | Completed "response option"

text \<open>\<open>attempts i\<close> is what attempt \<open>i\<close> gives; the first component counts the requests made. \<open>None\<close> is the
  \<^verbatim>\<open>unreachable!\<close> after the loop.\<close>

function retry_from :: "(nat \<Rightarrow> outcome) \<Rightarrow> nat \<Rightarrow> (nat \<times> (H3LookupError + headers \<times> bytes)) option" where
  "retry_from attempts attempt =
     (if attempt > LOOKUP_REQUEST_ATTEMPTS then None
      else case attempts attempt of
        Completed result \<Rightarrow>
          (case lookup_response result of
             Inr response \<Rightarrow> Some (attempt, Inr response)
           | Inl error \<Rightarrow>
               if (error = Request \<or> error = Body) \<and> attempt < LOOKUP_REQUEST_ATTEMPTS
               then retry_from attempts (attempt + 1)
               else Some (attempt, Inl error))
      | TimedOut \<Rightarrow>
          if attempt < LOOKUP_REQUEST_ATTEMPTS then retry_from attempts (attempt + 1)
          else Some (attempt, Inl (Timeout LOOKUP_REQUEST_ATTEMPTS)))"
  by pat_completeness auto
termination by (relation "measure (\<lambda>(_, attempt). LOOKUP_REQUEST_ATTEMPTS - attempt)") auto

declare retry_from.simps [simp del]

definition lookup_response_with_retry :: "(nat \<Rightarrow> outcome) \<Rightarrow> (nat \<times> (H3LookupError + headers \<times> bytes)) option" where
  "lookup_response_with_retry attempts = retry_from attempts 1"

section \<open>Lookups\<close>

fun map_semantic_error :: "LookupSemanticError \<Rightarrow> H3LookupError" where
  "map_semantic_error (LookupSemanticError.Decode source) = H3LookupError.Decode source"
| "map_semantic_error LookupSemanticError.NoRecordFound = H3LookupError.NoRecordFound"
| "map_semantic_error LookupSemanticError.NoUsableRecord = H3LookupError.NoUsableRecord"

definition NANOS :: nat where "NANOS = 1000000000"

record env =
  env_codec :: codec
  env_home :: home
  env_crypto :: crypto
  env_dns_name :: "rstr \<Rightarrow> bool"
  env_addr_of :: "DquicEndpointAddr \<Rightarrow> SocketAddr"
  env_origin_ascii :: "Url \<Rightarrow> rstr"

text \<open>\<open>now\<close> is the time of the cache read and \<open>later\<close> that of the cache write; the number is the count of
  requests sent. The outer \<open>option\<close> is a panic.\<close>

definition h3_lookup_candidates ::
  "env \<Rightarrow> (request \<Rightarrow> nat \<Rightarrow> outcome) \<Rightarrow> nat \<Rightarrow> nat \<Rightarrow> 'e H3Resolver \<Rightarrow> rstr \<Rightarrow> EndpointLookup \<Rightarrow>
   ('e H3Resolver \<times> nat \<times> (H3LookupError + EndpointCandidates)) option" where
  "h3_lookup_candidates V net now later r name requested =
     (case endpoint_lookup_name_and_sequence (env_dns_name V) (env_home V) name of
        None \<Rightarrow> Some (r, 0, Inl InvalidName)
      | Some (name, legacy_sequence) \<Rightarrow>
          if (case url_host (server_origin r) of
                Some host \<Rightarrow> eq_ignore_ascii_case (trim_end_matches dot host) (trim_end_matches dot name)
              | None \<Rightarrow> False)
          then Some (r, 0, Inl H3LookupError.NoRecordFound)
          else
            let lookup = exact_override requested legacy_sequence;
                k = LookupKey_new name lookup
            in case cache_get now k (h3_cache r) of
                 (c, Some cached) \<Rightarrow> Some (r\<lparr>h3_cache := c\<rparr>, 0, Inr cached)
               | (c, None) \<Rightarrow>
                   (case lookup_response_with_retry (net (lookup_url (server_origin r) name lookup)) of
                      None \<Rightarrow> None
                    | Some (n, Inl error) \<Rightarrow> Some (r\<lparr>h3_cache := c\<rparr>, n, Inl error)
                    | Some (n, Inr (hs, body)) \<Rightarrow>
                        (case decode_lookup_response (env_codec V) (env_home V) (env_crypto V) (env_addr_of V) name lookup
                                (Source.H3 (env_origin_ascii V (server_origin r))) hs body of
                           Inl error \<Rightarrow> Some (r\<lparr>h3_cache := c\<rparr>, n, Inl (map_semantic_error error))
                         | Inr ans \<Rightarrow>
                             Some (r\<lparr>h3_cache := cache_insert later k (candidates ans) (answer_ttl ans * NANOS) c\<rparr>, n,
                                   Inr (candidates ans)))))"

definition flat_records :: "Source \<Rightarrow> EndpointCandidates \<Rightarrow> src_record list" where
  "flat_records source cands = concat (map (\<lambda>g. map (\<lambda>e. (source, e)) (endpoints g)) (groups cands))"

definition h3_host :: "rstr \<Rightarrow> rstr" where
  "h3_host hostname =
     to_ascii_lowercase (trim_end_matches dot
       (case rsplit_once colon hostname of
          Some (host, suffix) \<Rightarrow> if colon \<notin> set host \<and> all_digits suffix then host else hostname
        | None \<Rightarrow> hostname))"

definition h3_lookup ::
  "env \<Rightarrow> (request \<Rightarrow> nat \<Rightarrow> outcome) \<Rightarrow> nat \<Rightarrow> nat \<Rightarrow> 'e H3Resolver \<Rightarrow> rstr \<Rightarrow> Family option \<Rightarrow>
   ('e H3Resolver \<times> nat \<times> (H3LookupError + src_record list)) option" where
  "h3_lookup V net now later r hostname fam =
     (if \<not> in_dhttp (h3_host hostname) then Some (r, 0, Inl H3LookupError.NoRecordFound)
      else map_option (\<lambda>(r, n, res). (r, n, case res of Inl e \<Rightarrow> Inl e
             | Inr cands \<Rightarrow> Inr (flat_records (Source.H3 (env_origin_ascii V (server_origin r))) cands)))
           (h3_lookup_candidates V net now later r hostname (with_family fam EndpointLookup_default)))"

section \<open>Lemmas\<close>

text \<open>The data of a sequence of frames.\<close>

definition data_of :: "frame list \<Rightarrow> bytes" where
  "data_of fs = concat (List.map_filter (\<lambda>f. case f of Data d \<Rightarrow> Some d | _ \<Rightarrow> None) fs)"

lemma data_of_simps [simp]:
  "data_of [] = []" "data_of (FrameError # fs) = data_of fs" "data_of (Trailers # fs) = data_of fs" "data_of (Data d # fs) = d @ data_of fs"
  by (simp_all add: data_of_def List.map_filter_simps)

lemma read_body_limited_spec:
  assumes "length bs \<le> limit"
  shows "read_body_limited limit bs fs = Inr body \<longleftrightarrow> FrameError \<notin> set fs \<and> body = bs @ data_of fs \<and> length body \<le> limit"
  using assms
proof (induction limit bs fs rule: read_body_limited.induct)
  case (4 limit bs d rest)
  show ?case
  proof (cases "length d > limit - length bs")
    case True
    then show ?thesis using 4(2) by auto
  next
    case False
    then show ?thesis using 4 by simp
  qed
qed auto

lemma read_body_limited_fails:
  assumes "read_body_limited limit bs fs = Inl e" and "length bs \<le> limit"
  shows "\<exists>i. i < length fs \<and> FrameError \<notin> set (take i fs) \<and> length bs + length (data_of (take i fs)) \<le> limit \<and>
    (case fs ! i of FrameError \<Rightarrow> e = BodyFailed | Data d \<Rightarrow> e = TooLarge \<and> limit < length bs + length (data_of (take i fs)) + length d
     | Trailers \<Rightarrow> False)"
  using assms
proof (induction limit bs fs rule: read_body_limited.induct)
  case (2 limit bs rest)
  then show ?case by (intro exI [of _ 0]) simp
next
  case (3 limit bs rest)
  then obtain i where "i < length rest" "FrameError \<notin> set (take i rest)" "length bs + length (data_of (take i rest)) \<le> limit"
    "case rest ! i of FrameError \<Rightarrow> e = BodyFailed | Data d \<Rightarrow> e = TooLarge \<and> limit < length bs + length (data_of (take i rest)) + length d
     | Trailers \<Rightarrow> False" by auto
  then show ?case by (intro exI [of _ "Suc i"]) (simp split: frame.splits)
next
  case (4 limit bs d rest)
  show ?case
  proof (cases "length d > limit - length bs")
    case True
    then show ?thesis using 4(2,3) by (intro exI [of _ 0]) auto
  next
    case False
    then have "length (bs @ d) \<le> limit" "read_body_limited limit (bs @ d) rest = Inl e" using 4(2,3) by auto
    from 4(1) [OF False this(2,1)] obtain i where
      "i < length rest" "FrameError \<notin> set (take i rest)" "length (bs @ d) + length (data_of (take i rest)) \<le> limit"
      "case rest ! i of FrameError \<Rightarrow> e = BodyFailed | Data x \<Rightarrow> e = TooLarge \<and> limit < length (bs @ d) + length (data_of (take i rest)) + length x
       | Trailers \<Rightarrow> False" by blast
    then show ?thesis by (intro exI [of _ "Suc i"]) (simp add: add.assoc split: frame.splits)
  qed
qed simp

lemmas retry_from_simps = retry_from.simps LOOKUP_REQUEST_ATTEMPTS_def

definition transient :: "outcome \<Rightarrow> bool" where
  "transient oc \<longleftrightarrow> (case oc of TimedOut \<Rightarrow> True
     | Completed result \<Rightarrow> lookup_response result = Inl Request \<or> lookup_response result = Inl Body)"

definition final_result :: "outcome \<Rightarrow> H3LookupError + headers \<times> bytes" where
  "final_result oc = (case oc of TimedOut \<Rightarrow> Inl (Timeout LOOKUP_REQUEST_ATTEMPTS) | Completed result \<Rightarrow> lookup_response result)"

lemma retry_from_step:
  "retry_from attempts n =
     (if n > 3 then None
      else if transient (attempts n) \<and> n < 3 then retry_from attempts (Suc n)
      else Some (n, final_result (attempts n)))"
  by (auto simp: retry_from_simps transient_def final_result_def split: outcome.split sum.split)

lemma retry_spec:
  "lookup_response_with_retry attempts =
     Some (if \<not> transient (attempts 1) then (1, final_result (attempts 1))
           else if \<not> transient (attempts 2) then (2, final_result (attempts 2))
           else (3, final_result (attempts 3)))"
proof -
  have "retry_from attempts 3 = Some (3, final_result (attempts 3))" by (subst retry_from_step) simp
  moreover have "retry_from attempts 2 = (if transient (attempts 2) then retry_from attempts 3 else Some (2, final_result (attempts 2)))"
    by (subst retry_from_step) simp
  moreover have "retry_from attempts 1 = (if transient (attempts 1) then retry_from attempts 2 else Some (1, final_result (attempts 1)))"
    by (subst retry_from_step) (simp add: numeral_2_eq_2)
  ultimately show ?thesis by (simp add: lookup_response_with_retry_def)
qed

lemma retry_count: "lookup_response_with_retry attempts = Some (n, res) \<Longrightarrow> 1 \<le> n \<and> n \<le> 3"
  by (auto simp: retry_spec split: if_splits)

text \<open>How a lookup that is valid and not for the server itself proceeds.\<close>

definition own_origin :: "'e H3Resolver \<Rightarrow> rstr \<Rightarrow> bool" where
  "own_origin r name \<longleftrightarrow> (case url_host (server_origin r) of
     Some host \<Rightarrow> eq_ignore_ascii_case (trim_end_matches dot host) (trim_end_matches dot name) | None \<Rightarrow> False)"

lemma h3_lookup_candidates_cases:
  fixes requested :: EndpointLookup
  assumes "endpoint_lookup_name_and_sequence (env_dns_name V) (env_home V) name = Some (host, sq)" and "\<not> own_origin r host"
  defines "lookup \<equiv> exact_override requested sq"
  shows "h3_lookup_candidates V net now later r name requested =
    (case cache_get now (LookupKey_new host lookup) (h3_cache r) of
       (c, Some cached) \<Rightarrow> Some (r\<lparr>h3_cache := c\<rparr>, 0, Inr cached)
     | (c, None) \<Rightarrow>
        (case the (lookup_response_with_retry (net (lookup_url (server_origin r) host lookup))) of
           (n, Inl error) \<Rightarrow> Some (r\<lparr>h3_cache := c\<rparr>, n, Inl error)
         | (n, Inr (hs, body)) \<Rightarrow>
            (case decode_lookup_response (env_codec V) (env_home V) (env_crypto V) (env_addr_of V) host lookup
                    (Source.H3 (env_origin_ascii V (server_origin r))) hs body of
               Inl error \<Rightarrow> Some (r\<lparr>h3_cache := c\<rparr>, n, Inl (map_semantic_error error))
             | Inr ans \<Rightarrow> Some (r\<lparr>h3_cache := cache_insert later (LookupKey_new host lookup) (candidates ans) (answer_ttl ans * NANOS) c\<rparr>,
                 n, Inr (candidates ans)))))"
  using assms(1,2)
  by (auto simp: h3_lookup_candidates_def own_origin_def lookup_def Let_def retry_spec split: option.splits prod.splits sum.splits)

lemma h3_lookup_candidates_frame:
  assumes "h3_lookup_candidates V net now later r name requested = Some (r1, n, res)"
  shows "server_origin r1 = server_origin r \<and> endpoint r1 = endpoint r"
  using assms by (auto simp: h3_lookup_candidates_def Let_def split: option.splits prod.splits sum.splits if_splits)

lemma h3_fetched:
  assumes "h3_lookup_candidates V net now later r name requested = Some (r1, n, Inr cands)" and "n \<noteq> 0"
  obtains host sq hs body ans where
    "endpoint_lookup_name_and_sequence (env_dns_name V) (env_home V) name = Some (host, sq)" "\<not> own_origin r host"
    "snd (cache_get now (LookupKey_new host (exact_override requested sq)) (h3_cache r)) = None"
    "final_result (net (lookup_url (server_origin r) host (exact_override requested sq)) n) = Inr (hs, body)"
    "decode_lookup_response (env_codec V) (env_home V) (env_crypto V) (env_addr_of V) host (exact_override requested sq)
       (Source.H3 (env_origin_ascii V (server_origin r))) hs body = Inr ans" "candidates ans = cands"
    "h3_cache r1 = cache_insert later (LookupKey_new host (exact_override requested sq)) cands (answer_ttl ans * NANOS)
       (fst (cache_get now (LookupKey_new host (exact_override requested sq)) (h3_cache r)))"
proof -
  obtain host sq where p: "endpoint_lookup_name_and_sequence (env_dns_name V) (env_home V) name = Some (host, sq)" "\<not> own_origin r host"
    using assms by (auto simp: h3_lookup_candidates_def own_origin_def split: option.splits if_splits prod.splits)
  let ?lk = "exact_override requested sq"
  obtain c res where g: "cache_get now (LookupKey_new host ?lk) (h3_cache r) = (c, res)" by fastforce
  obtain m rr where m: "lookup_response_with_retry (net (lookup_url (server_origin r) host ?lk)) = Some (m, rr)"
    using retry_spec by fastforce
  then have fin: "rr = final_result (net (lookup_url (server_origin r) host ?lk) m)" by (auto simp: retry_spec split: if_splits)
  have res: "res = None" using assms g by (cases res) (auto simp: h3_lookup_candidates_cases [OF p])
  obtain hs body ans where "rr = Inr (hs, body)" "n = m"
      "decode_lookup_response (env_codec V) (env_home V) (env_crypto V) (env_addr_of V) host ?lk
        (Source.H3 (env_origin_ascii V (server_origin r))) hs body = Inr ans"
      "candidates ans = cands" "h3_cache r1 = cache_insert later (LookupKey_new host ?lk) cands (answer_ttl ans * NANOS) c"
    using assms(1) g m res by (auto simp: h3_lookup_candidates_cases [OF p] split: sum.splits)
  then show ?thesis using that [OF p] g res fin by simp
qed

section \<open>Properties\<close>

text \<open>C29: The bounded body reader. It returns the concatenation of the data frames if no frame
  failed and the whole body fits the limit. Otherwise it stops at the first frame that failed, which it reports as a failure, or
  that would exceed the limit, which it reports as too large: the frames before that one have not failed,
  and what it holds of them when it stops is within the limit.\<close>

theorem read_body_exact:
  "case read_body_limited limit [] fs of
     Inr body \<Rightarrow> FrameError \<notin> set fs \<and> body = data_of fs \<and> length body \<le> limit
   | Inl e \<Rightarrow> \<exists>i. i < length fs \<and> FrameError \<notin> set (take i fs) \<and> length (data_of (take i fs)) \<le> limit \<and>
       (case fs ! i of FrameError \<Rightarrow> e = BodyFailed | Data d \<Rightarrow> e = TooLarge \<and> limit < length (data_of (take i fs)) + length d
        | Trailers \<Rightarrow> False)"
proof (cases "read_body_limited limit [] fs")
  case (Inl e)
  from read_body_limited_fails [OF this] show ?thesis unfolding Inl by (simp only: list.size(3) add_0 sum.case le0 simp_thms)
next
  case (Inr body)
  then have "FrameError \<notin> set fs \<and> body = data_of fs \<and> length body \<le> limit" by (auto simp: read_body_limited_spec)
  then show ?thesis unfolding Inr sum.case .
qed

text \<open>C28: A lookup request always comes to an end, whatever the network does: after at most three
  attempts the retry loop returns, and the \<^verbatim>\<open>unreachable!\<close> behind it is never reached. Only timeouts, failed
  requests and failed bodies are retried; the result is that of the last attempt made, so the first
  definitive answer is taken and a success on any of the three attempts is a success.\<close>

theorem retry_returns:
  "case lookup_response_with_retry attempts of
     None \<Rightarrow> False
   | Some (n, res) \<Rightarrow> 1 \<le> n \<and> n \<le> LOOKUP_REQUEST_ATTEMPTS \<and> list_all (\<lambda>i. transient (attempts i)) [1..<n] \<and>
       (n < LOOKUP_REQUEST_ATTEMPTS \<longrightarrow> \<not> transient (attempts n)) \<and>
       res = (case attempts n of TimedOut \<Rightarrow> Inl (Timeout LOOKUP_REQUEST_ATTEMPTS) | Completed result \<Rightarrow> lookup_response result)"
  by (auto simp: retry_spec final_result_def LOOKUP_REQUEST_ATTEMPTS_def upt_rec numeral_2_eq_2)

definition demo_attempts :: "nat \<Rightarrow> outcome" where
  "demo_attempts i = (if i = 1 then TimedOut else Completed (Some \<lparr>resp_status = 404, resp_headers = \<lambda>_. [], resp_body = []\<rparr>))"

lemma demo_transient: "transient (demo_attempts i) \<longleftrightarrow> i = 1"
  by (simp add: transient_def lookup_response_def demo_attempts_def)

theorem retry_returns_witness:
  "lookup_response_with_retry demo_attempts = Some (2, Inl H3LookupError.NoRecordFound) \<and>
   2 \<le> LOOKUP_REQUEST_ATTEMPTS \<and> list_all (\<lambda>i. transient (demo_attempts i)) [1..<2] \<and> \<not> transient (demo_attempts 2)"
proof -
  have eq: "lookup_response_with_retry demo_attempts = Some (2, Inl H3LookupError.NoRecordFound)"
    unfolding retry_spec demo_transient by (simp add: final_result_def demo_attempts_def lookup_response_def)
  then show ?thesis using retry_returns [of demo_attempts] by (simp add: LOOKUP_REQUEST_ATTEMPTS_def)
qed

text \<open>C15: Answers are cached exactly for their lifetime. When a lookup has fetched candidates from the server,
  they are those of the response of its last attempt to the request for this name and query; a later lookup of the same name returns them without
  sending any request as long as the lifetime of that response has not passed since they were stored,
  and after that it asks the server again.\<close>

theorem h3_cached_lookup:
  assumes "h3_lookup_candidates V net now later r name requested = Some (r1, n, Inr cands)" and "n \<noteq> 0" and "now \<le> later"
  shows "\<exists>host sq resp hs body ans.
    endpoint_lookup_name_and_sequence (env_dns_name V) (env_home V) name = Some (host, sq) \<and>
    net (lookup_url (server_origin r) host (exact_override requested sq)) n = Completed (Some resp) \<and> lookup_response (Some resp) = Inr (hs, body) \<and>
    decode_lookup_response (env_codec V) (env_home V) (env_crypto V) (env_addr_of V) host (exact_override requested sq)
      (Source.H3 (env_origin_ascii V (server_origin r))) hs body = Inr ans \<and> candidates ans = cands \<and>
    (\<forall>t \<ge> later. \<forall>net' later'. case h3_lookup_candidates V net' t later' r1 name requested of
       None \<Rightarrow> False
     | Some (r2, m, res) \<Rightarrow> if t < later + answer_ttl ans * NANOS then m = 0 \<and> res = Inr cands else 1 \<le> m \<and> m \<le> 3)"
proof -
  obtain host sq hs body ans where f:
    "endpoint_lookup_name_and_sequence (env_dns_name V) (env_home V) name = Some (host, sq)" "\<not> own_origin r host"
    "snd (cache_get now (LookupKey_new host (exact_override requested sq)) (h3_cache r)) = None"
    "decode_lookup_response (env_codec V) (env_home V) (env_crypto V) (env_addr_of V) host (exact_override requested sq)
       (Source.H3 (env_origin_ascii V (server_origin r))) hs body = Inr ans" "candidates ans = cands"
    "h3_cache r1 = cache_insert later (LookupKey_new host (exact_override requested sq)) cands (answer_ttl ans * NANOS)
       (fst (cache_get now (LookupKey_new host (exact_override requested sq)) (h3_cache r)))"
    "final_result (net (lookup_url (server_origin r) host (exact_override requested sq)) n) = Inr (hs, body)"
    by (rule h3_fetched [OF assms(1,2)])
  obtain resp where "net (lookup_url (server_origin r) host (exact_override requested sq)) n = Completed (Some resp)"
      "lookup_response (Some resp) = Inr (hs, body)"
    using f(7) by (auto simp: final_result_def split: outcome.splits) (auto simp: lookup_response_def split: option.splits)
  moreover have own: "\<not> own_origin r1 host"
    using f(2) h3_lookup_candidates_frame [OF assms(1)] by (simp add: own_origin_def)
  moreover have "case h3_lookup_candidates V net' t later' r1 name requested of
       None \<Rightarrow> False
     | Some (r2, m, res) \<Rightarrow> if t < later + answer_ttl ans * NANOS then m = 0 \<and> res = Inr cands else 1 \<le> m \<and> m \<le> 3"
    if "later \<le> t" for t net' later'
  proof -
    let ?k = "LookupKey_new host (exact_override requested sq)"
    obtain c got where g: "cache_get t ?k (h3_cache r1) = (c, got)" by fastforce
    have got: "got = (if t < later + answer_ttl ans * NANOS then Some cands else None)"
      using h3c.fetched_then_served [OF f(3) assms(3) that, of cands "answer_ttl ans * NANOS"] g f(6) by simp
    obtain m rr where m: "lookup_response_with_retry (net' (lookup_url (server_origin r1) host (exact_override requested sq))) = Some (m, rr)"
      using retry_spec by fastforce
    note retry_count [OF m]
    then show ?thesis using g got m
      by (auto simp: h3_lookup_candidates_cases [OF f(1) own] split: sum.splits option.splits prod.splits)
  qed
  ultimately show ?thesis using f(1,4,5) by blast
qed

text \<open>A server that answers every lookup with the response of the reference authority.\<close>

definition demo_env :: env where
  "demo_env = \<lparr>env_codec = ref_codec, env_home = ref_home, env_crypto = ref_crypto, env_dns_name = (\<lambda>_. True),
     env_addr_of = demo_addr_of, env_origin_ascii = (\<lambda>_. str ''https://dns.example'')\<rparr>"

lemma demo_env_sel [simp]: "env_codec demo_env = ref_codec" "env_home demo_env = ref_home" "env_crypto demo_env = ref_crypto"
  "env_dns_name demo_env = (\<lambda>_. True)" "env_addr_of demo_env = demo_addr_of" "env_origin_ascii demo_env = (\<lambda>_. str ''https://dns.example'')"
  by (simp_all add: demo_env_def)

definition demo_origin :: Url where
  "demo_origin = \<lparr>url_scheme = str ''https'', url_host = Some (str ''dns.example''), url_username = [], url_password = None,
     url_path = str ''/'', url_query = None, url_fragment = None\<rparr>"

definition demo_resolver :: "'e H3Resolver" where
  "demo_resolver = \<lparr>server_origin = demo_origin, endpoint = None, h3_cache = LookupCache_default\<rparr>"

definition demo_net :: "request \<Rightarrow> nat \<Rightarrow> outcome" where
  "demo_net req i = Completed (Some \<lparr>resp_status = 200, resp_headers = \<lambda>_. [],
     resp_body = [Data (encode ref_codec \<lparr>mr_records = [demo_response]\<rparr>)]\<rparr>)"

definition demo_candidates :: EndpointCandidates where
  "demo_candidates = \<lparr>groups = [\<lparr>chain = primary_chain_key 1, endpoints = demo_published,
     sources = [Source.H3 (str ''https://dns.example'')]\<rparr>]\<rparr>"

lemma demo_name: "endpoint_lookup_name_and_sequence (\<lambda>_. True) ref_home (str ''com:1'') = Some (str ''com'', Some 1)"
  by (simp add: endpoint_lookup_name_and_sequence_def rsplit_once_def split_once_def str_def all_digits_def is_ascii_digit_def
      parse_u64_def digits_value_def ref_home_def resolvable_name_def)

lemma demo_fresh: "freshness 300 (\<lambda>_. []) = 300"
  by (simp add: freshness_def header_get_def List.map_filter_simps)

lemma demo_first_lookup:
  "\<exists>r1. h3_lookup_candidates demo_env demo_net 0 5 demo_resolver (str ''com:1'') EndpointLookup_default = Some (r1, 1, Inr demo_candidates)"
proof -
  let ?b = "encode ref_codec \<lparr>mr_records = [demo_response]\<rparr>"
  have name: "endpoint_lookup_name_and_sequence (env_dns_name demo_env) (env_home demo_env) (str ''com:1'') = Some (str ''com'', Some 1)"
    by (simp add: demo_name)
  have own: "\<not> own_origin demo_resolver (str ''com'')"
    by (simp add: own_origin_def demo_resolver_def demo_origin_def eq_ignore_ascii_case_def trim_end_matches_def str_def to_ascii_lowercase_def ascii_lower_def)
  have lk: "exact_override EndpointLookup_default (Some 1) = lookup_exact 1"
    by (simp add: exact_override_def EndpointLookup_default_def lookup_exact_def with_family_def)
  have "\<not> 1024 * 1024 < length ?b" using demo_body_length by simp
  then have body: "lookup_response (Some \<lparr>resp_status = 200, resp_headers = \<lambda>_. [], resp_body = [Data ?b]\<rparr>) = Inr (\<lambda>_. [], ?b)"
    by (simp add: lookup_response_def MAX_LOOKUP_RESPONSE_BYTES_def)
  then have tr: "\<not> transient (demo_net req i)" "final_result (demo_net req i) = Inr (\<lambda>_. [], ?b)" for req i
    by (simp_all add: transient_def final_result_def demo_net_def)
  have miss: "cache_get 0 k (h3_cache demo_resolver) = (LookupCache_default, None)" for k
    by (simp add: cache_get_def demo_resolver_def LookupCache_default_def)
  show ?thesis
    using demo_decoded [of "Source.H3 (str ''https://dns.example'')" "\<lambda>_. []"]
    by (simp add: h3_lookup_candidates_cases [OF name own] lk miss retry_spec tr demo_candidates_def del: chain_key_simps)
qed

theorem h3_cached_lookup_witness:
  "\<exists>r1 :: nat H3Resolver. h3_lookup_candidates demo_env demo_net 0 5 demo_resolver (str ''com:1'') EndpointLookup_default = Some (r1, 1, Inr demo_candidates) \<and>
     (case h3_lookup_candidates demo_env (\<lambda>_ _. TimedOut) 7 8 r1 (str ''com:1'') EndpointLookup_default of
        None \<Rightarrow> False | Some (r2, m, res) \<Rightarrow> m = 0 \<and> res = Inr demo_candidates \<or> 1 \<le> m \<and> m \<le> 3)"
proof -
  obtain r1 :: "nat H3Resolver" where r1: "h3_lookup_candidates demo_env demo_net 0 5 demo_resolver (str ''com:1'') EndpointLookup_default = Some (r1, 1, Inr demo_candidates)"
    using demo_first_lookup by blast
  from h3_cached_lookup [OF r1] obtain d where "\<forall>t \<ge> 5. \<forall>net' later'. case h3_lookup_candidates demo_env net' t later' r1 (str ''com:1'') EndpointLookup_default of
       None \<Rightarrow> False
     | Some (r2, m, res) \<Rightarrow> if t < 5 + d then m = 0 \<and> res = Inr demo_candidates else 1 \<le> m \<and> m \<le> 3"
    by auto
  from this [rule_format, of 7 "\<lambda>_ _. TimedOut" 8] have "case h3_lookup_candidates demo_env (\<lambda>_ _. TimedOut) 7 8 r1 (str ''com:1'') EndpointLookup_default of
      None \<Rightarrow> False | Some (r2, m, res) \<Rightarrow> m = 0 \<and> res = Inr demo_candidates \<or> 1 \<le> m \<and> m \<le> 3"
    by (auto split: option.splits prod.splits if_splits)
  with r1 show ?thesis by blast
qed

end
