(* ===== verification/H3Publish.thy ===== *)
theory H3Publish
  imports H3Lookup
begin

text \<open>
  Publication over DHTTP/3 (\<^verbatim>\<open>src/h3/publish.rs\<close>): the publish request, the lease in the response, and
  the whole publication, which ends by invalidating what the cache holds for the name. The named
  endpoint is its name and what building its signing authority returned; the transport is an argument
  that says how far posting a request gets. Leases are in milliseconds. Arguments stand for name
  validation by \<^verbatim>\<open>dhttp_home\<close>, header values accepted by \<^verbatim>\<open>http\<close>, and the range of the clock.
\<close>

definition PUBLISH_API_PATH :: rstr where "PUBLISH_API_PATH = str ''/api/v2/publish''"
definition DNS_PACKET_LIMIT :: nat where "DNS_PACKET_LIMIT = 65535"
definition STATUS_BODY_LIMIT :: nat where "STATUS_BODY_LIMIT = 4096"

section \<open>Requests and leases\<close>

datatype H3PublishError =
  IdentityRequired | InvalidLease | Credentials | InvalidName | IdentityNameMismatch
| EncodePacket EncodeAuthorityDnsPacketError | PacketTooLarge nat | SignRequest SignatureFieldsError
| Request | Upload | Body | ResponseTooLarge nat | Status nat rstr

definition publish_url :: "Url \<Rightarrow> rstr \<Rightarrow> request" where
  "publish_url origin name = \<lparr>req_origin = origin, req_path = PUBLISH_API_PATH, req_pairs = [(str ''host'', name)]\<rparr>"

definition LEASE_HEADER :: rstr where "LEASE_HEADER = str ''dhttp-dns-lease-millis''"

definition publish_lease :: "(nat \<Rightarrow> bool) \<Rightarrow> headers \<Rightarrow> bool \<Rightarrow> H3PublishError + nat" where
  "publish_lease in_clock hs is_empty =
     (case hs LEASE_HEADER of
        [] \<Rightarrow> Inr (if is_empty then 0 else 300 * 1000)
      | v # others \<Rightarrow>
          if others \<noteq> [] then Inl InvalidLease
          else (case v of
            None \<Rightarrow> Inl InvalidLease
          | Some v \<Rightarrow>
              if v = [] \<or> \<not> list_all is_ascii_digit v then Inl InvalidLease
              else (case parse_u64 v of
                None \<Rightarrow> Inl InvalidLease
              | Some millis \<Rightarrow>
                  if is_empty \<noteq> (millis = 0) then Inl InvalidLease
                  else if \<not> in_clock (unat millis) then Inl InvalidLease
                  else Inr (unat millis))))"

section \<open>Publication\<close>

record dhttp_endpoint =
  dep_name :: rstr
  local_authority :: "unit + authority"

record publish_request =
  pr_url :: request
  pr_headers :: "(rstr \<times> bytes) list"
  pr_packet :: bytes

datatype post_outcome = WriteFailed | ShutdownFailed | ResponseFailed | Responded response

definition publish_request_of :: "Url \<Rightarrow> rstr \<Rightarrow> SignatureFields \<Rightarrow> bytes \<Rightarrow> publish_request" where
  "publish_request_of origin name sf packet =
     \<lparr>pr_url = publish_url origin name,
      pr_headers = [(str ''content-type'', str ''application/octet-stream''), (CONTENT_DIGEST_HEADER, content_digest sf),
        (SIGNATURE_INPUT_HEADER, signature_input sf), (SIGNATURE_HEADER, fields_signature sf)],
      pr_packet = packet\<rparr>"

text \<open>A failed \<^verbatim>\<open>expect\<close> on a header value, and a panic while encoding, is \<open>None\<close>.\<close>

definition publish_endpoints ::
  "env \<Rightarrow> (rstr \<Rightarrow> bool) \<Rightarrow> (bytes \<Rightarrow> bool) \<Rightarrow> (nat \<Rightarrow> bool) \<Rightarrow> u64 \<Rightarrow> (publish_request \<Rightarrow> post_outcome) \<Rightarrow>
   dhttp_endpoint H3Resolver \<Rightarrow> rstr \<Rightarrow> DquicEndpointAddr list \<Rightarrow> (dhttp_endpoint H3Resolver \<times> (H3PublishError + nat)) option" where
  "publish_endpoints V valid_name header_value in_clock created post r name ds =
     (if \<not> valid_name name then Some (r, Inl InvalidName)
      else case endpoint r of
        None \<Rightarrow> Some (r, Inl IdentityRequired)
      | Some ep \<Rightarrow>
      if dep_name ep \<noteq> name then Some (r, Inl IdentityNameMismatch)
      else case local_authority ep of
        Inl _ \<Rightarrow> Some (r, Inl Credentials)
      | Inr identity \<Rightarrow>
      (case dns_packet_for_authority (env_codec V) (env_home V) identity name ds of
        None \<Rightarrow> None
      | Some (Inl e) \<Rightarrow> Some (r, Inl (EncodePacket e))
      | Some (Inr packet) \<Rightarrow>
      if length packet > DNS_PACKET_LIMIT then Some (r, Inl (PacketTooLarge DNS_PACKET_LIMIT))
      else (case fields_sign (env_crypto V) created packet identity of
        Inl e \<Rightarrow> Some (r, Inl (SignRequest e))
      | Inr sf \<Rightarrow>
      if \<not> (header_value (content_digest sf) \<and> header_value (signature_input sf) \<and> header_value (fields_signature sf))
      then None
      else (case post (publish_request_of (server_origin r) name sf packet) of
        WriteFailed \<Rightarrow> Some (r, Inl Request)
      | ShutdownFailed \<Rightarrow> Some (r, Inl Upload)
      | ResponseFailed \<Rightarrow> Some (r, Inl Request)
      | Responded response \<Rightarrow>
      if resp_status response \<noteq> 200 then
        (case read_body_limited STATUS_BODY_LIMIT [] (resp_body response) of
           Inl BodyFailed \<Rightarrow> Some (r, Inl Body)
         | Inl TooLarge \<Rightarrow> Some (r, Inl (ResponseTooLarge STATUS_BODY_LIMIT))
         | Inr body \<Rightarrow> Some (r, Inl (Status (resp_status response) (str_trim (from_utf8_lossy body)))))
      else (case publish_lease in_clock (resp_headers response) (ds = []) of
        Inl e \<Rightarrow> Some (r, Inl e)
      | Inr lease \<Rightarrow> Some (r\<lparr>h3_cache := invalidate_name name (h3_cache r)\<rparr>, Inr lease))))))"

section \<open>Lemmas\<close>

lemma publish_lease_Inr:
  assumes "publish_lease in_clock hs is_empty = Inr lease"
  shows "(lease = 0 \<longleftrightarrow> is_empty) \<and> (hs LEASE_HEADER \<noteq> [] \<longrightarrow> in_clock lease \<and> lease < 2 ^ 64)"
  using assms unsigned_less [where 'a = nat and 'b = 64]
  by (auto simp: publish_lease_def unat_eq_zero split: list.splits option.splits if_splits)

lemma publish_endpoints_Inr:
  assumes "publish_endpoints V valid_name header_value in_clock created post r name ds = Some (r1, Inr lease)"
  obtains ep identity packet sf response where
    "valid_name name" "endpoint r = Some ep" "dep_name ep = name" "local_authority ep = Inr identity"
    "dns_packet_for_authority (env_codec V) (env_home V) identity name ds = Some (Inr packet)"
    "length packet \<le> DNS_PACKET_LIMIT" "fields_sign (env_crypto V) created packet identity = Inr sf"
    "post (publish_request_of (server_origin r) name sf packet) = Responded response" "resp_status response = 200"
    "publish_lease in_clock (resp_headers response) (ds = []) = Inr lease"
    "r1 = r\<lparr>h3_cache := invalidate_name name (h3_cache r)\<rparr>"
  using assms
  by (auto simp: publish_endpoints_def Let_def split: if_splits option.splits sum.splits post_outcome.splits ReadBodyError.splits)

lemma publish_endpoints_Inl:
  assumes "publish_endpoints V valid_name header_value in_clock created post r name ds = Some (r1, Inl e)"
  shows "r1 = r"
  using assms
  by (auto simp: publish_endpoints_def Let_def split: if_splits option.splits sum.splits post_outcome.splits ReadBodyError.splits)

section \<open>Properties\<close>

text \<open>C14: What a successful publication means. The resolver has a named endpoint for exactly this name; a request
  was answered with success whose packet fits the limit, is signed so that a client accepts it under
  the publisher's certificate, and reads back as the endpoints in order, under the publisher's
  sequence; the lease is zero exactly when nothing is published; and afterwards the cache holds
  no answer for the name in any spelling, while other names keep theirs. A failed publication of such a resolver
  leaves it as it was. The endpoints are such as a record can hold: an IPv6 address has no flow information and no scope.\<close>

theorem publish_sound:
  assumes "codec_laws (env_codec V)" and "home_laws (env_home V)"
    and "endpoint r = Some ep" and "local_authority ep = Inr identity" and "publisher_laws (env_crypto V) identity"
    and "extract_chain_key (env_home V) (certificates identity) = Some key" and "certificates identity = cert # cs"
    and "name_fits name" and "length ds \<le> 65535" and "list_all dquic_ok ds"
    and "publish_endpoints V valid_name header_value in_clock created post r name ds = Some (r1, res)"
  shows "case res of
      Inl e \<Rightarrow> r1 = r
    | Inr lease \<Rightarrow> dep_name ep = name \<and> (lease = 0 \<longleftrightarrow> ds = []) \<and>
        (\<exists>packet sf response p eps.
           post (publish_request_of (server_origin r) name sf packet) = Responded response \<and> resp_status response = 200 \<and>
           length packet \<le> 65535 \<and> fields_verify (env_crypto V) sf packet cert = Inr True \<and>
           be_packet (env_codec V) (env_home V) packet = Inr ([], p) \<and> map rdata (answers p) = map RData.E eps \<and>
           eps = map (\<lambda>d. stamp key (the (try_from_dquic d))) ds) \<and>
        (\<forall>t n lookup. cache_live (h3_cache r1) t (LookupKey_new n lookup) =
           (if same_host n name then None else cache_live (h3_cache r) t (LookupKey_new n lookup)))"
proof (cases res)
  case (Inl e)
  then show ?thesis using publish_endpoints_Inl assms(11) by simp
next
  case (Inr lease)
  obtain packet sf response where pub: "dep_name ep = name"
    "dns_packet_for_authority (env_codec V) (env_home V) identity name ds = Some (Inr packet)"
    "length packet \<le> DNS_PACKET_LIMIT" "fields_sign (env_crypto V) created packet identity = Inr sf"
    "post (publish_request_of (server_origin r) name sf packet) = Responded response" "resp_status response = 200"
    "publish_lease in_clock (resp_headers response) (ds = []) = Inr lease"
    "r1 = r\<lparr>h3_cache := invalidate_name name (h3_cache r)\<rparr>"
    using publish_endpoints_Inr [OF assms(11) [unfolded Inr]] assms(3,4) by (metis option.inject sum.inject(2))
  obtain p where p: "be_packet (env_codec V) (env_home V) packet = Inr ([], p)"
    "answers p = answer_records [(name, map (\<lambda>d. stamp key (the (try_from_dquic d))) ds)]"
    using authority_packet_read [OF assms(1,2) pub(2) assms(6,8,9,10)] by blast
  have "fields_verify (env_crypto V) sf packet cert = Inr True"
    using publisher_laws.sign_verify [OF assms(5) pub(4) assms(7), of packet] by simp
  moreover have "map rdata (answers p) = map RData.E (map (\<lambda>d. stamp key (the (try_from_dquic d))) ds)"
    by (simp add: p(2) answer_records_def)
  ultimately show ?thesis
    using pub p(1) publish_lease_Inr [OF pub(7)]
    by (auto simp: Inr DNS_PACKET_LIMIT_def invalidate_name_live)
qed

text \<open>A publication by the reference authority that the server grants a lease of thirty seconds.\<close>

definition demo_publisher :: "dhttp_endpoint H3Resolver" where
  "demo_publisher = \<lparr>server_origin = demo_origin, endpoint = Some \<lparr>dep_name = str ''com'', local_authority = Inr ref_authority\<rparr>,
     h3_cache = LookupCache_default\<rparr>"

definition demo_post :: "publish_request \<Rightarrow> post_outcome" where
  "demo_post req = Responded \<lparr>resp_status = 200,
     resp_headers = (\<lambda>n. if n = LEASE_HEADER then [Some (str ''30000'')] else []), resp_body = []\<rparr>"

lemma demo_authority_key: "extract_chain_key ref_home (certificates ref_authority) = Some demo_key"
  by (simp add: ref_home_def ref_authority_def demo_key_def)

lemma demo_dns_packet: "dns_packet_for_authority ref_codec ref_home ref_authority (str ''com'') demo_published = Some (Inr demo_packet)"
proof -
  have "dns_endpoints_for_authority ref_home ref_authority (str ''com'') demo_published =
      Inr (map (\<lambda>d. stamp demo_key (the (try_from_dquic d))) demo_published)"
    using demo_authority_key refh.is_primary_iff [of demo_key]
    by (simp add: dns_endpoints_for_authority_def encode_endpoints_spec demo_published_def demo_key_def ref_authority_def)
  then show ?thesis
    using refc.to_bytes_total by (auto simp: dns_packet_for_authority_def demo_packet_def)
qed

lemma demo_publish:
  "\<exists>r1. publish_endpoints demo_env (\<lambda>_. True) (\<lambda>_. True) (\<lambda>_. True) 1 demo_post demo_publisher (str ''com'') demo_published = Some (r1, Inr 30000)"
proof -
  obtain f where "fields_sign ref_crypto 1 demo_packet ref_authority = Inr f" using ref_fields_sign [OF demo_packet_length] by blast
  moreover have "publish_lease (\<lambda>_. True) (\<lambda>n. if n = LEASE_HEADER then [Some (str ''30000'')] else []) False = Inr 30000"
    by (simp add: publish_lease_def str_def is_ascii_digit_def parse_u64_def digits_value_def)
  ultimately show ?thesis
    using demo_packet_length demo_published_ok(3)
    by (simp add: publish_endpoints_def demo_publisher_def demo_dns_packet DNS_PACKET_LIMIT_def demo_post_def)
qed

theorem publish_sound_witness:
  "\<exists>r1. publish_endpoints demo_env (\<lambda>_. True) (\<lambda>_. True) (\<lambda>_. True) 1 demo_post demo_publisher (str ''com'') demo_published =
       Some (r1, Inr 30000) \<and>
     (\<exists>packet sf. fields_verify ref_crypto sf packet [1] = Inr True \<and> length packet \<le> 65535) \<and>
     cache_live (h3_cache r1) 0 (LookupKey_new (str ''COM.'') EndpointLookup_default) = None"
proof -
  obtain r1 where r1: "publish_endpoints demo_env (\<lambda>_. True) (\<lambda>_. True) (\<lambda>_. True) 1 demo_post demo_publisher (str ''com'') demo_published =
      Some (r1, Inr 30000)" using demo_publish by blast
  have ep: "endpoint demo_publisher = Some \<lparr>dep_name = str ''com'', local_authority = Inr ref_authority\<rparr>"
    "certificates ref_authority = [1] # []" "local_authority \<lparr>dep_name = str ''com'', local_authority = Inr ref_authority\<rparr> = Inr ref_authority"
    by (simp_all add: demo_publisher_def ref_authority_def)
  have V: "codec_laws (env_codec demo_env)" "home_laws (env_home demo_env)" "publisher_laws (env_crypto demo_env) ref_authority"
    "extract_chain_key (env_home demo_env) (certificates ref_authority) = Some demo_key"
    using refc.codec_laws_axioms refh.home_laws_axioms refp.publisher_laws_axioms demo_authority_key by simp_all
  have "same_host (str ''COM.'') (str ''com'')"
    by (simp add: same_host_def trim_end_matches_def str_def to_ascii_lowercase_def ascii_lower_def)
  with publish_sound [OF V(1,2) ep(1,3) V(3,4) ep(2) com_fits demo_published_ok(5,1) r1]
  have "\<exists>packet sf. fields_verify ref_crypto sf packet [1] = Inr True \<and> length packet \<le> 65535"
    "cache_live (h3_cache r1) 0 (LookupKey_new (str ''COM.'') EndpointLookup_default) = None"
    by auto
  with r1 show ?thesis by blast
qed

end
