(* ===== verification/HttpLookup.thy ===== *)
theory HttpLookup
  imports H3Lookup
begin

text \<open>
  Lookups over HTTPS (\<^verbatim>\<open>src/http.rs\<close>): the resolver with its cache, the bounded fetch of a response and
  the cached lookup. The HTTP client is an argument: whether the request times out, fails, or gives a
  response with its status, headers and body chunks. Building the TLS client is represented by the
  number of usable trust roots and by whether the client could be built.
\<close>

datatype BuildHttpResolverError = InvalidOrigin InvalidServerOrigin | NoUsableTrustRoots | BuildClient

datatype HttpLookupError =
  Request | Timeout | ResponseTooLarge nat | Status nat | Decode LookupDecodeError | NoRecordFound | NoUsableRecord

record HttpResolver =
  http_origin :: Url
  http_answers :: http_cache

definition build_http_client :: "nat \<Rightarrow> bool \<Rightarrow> BuildHttpResolverError + unit" where
  "build_http_client valid built =
     (if valid = 0 then Inl NoUsableTrustRoots else if built then Inr () else Inl BuildClient)"

definition HttpResolver_new :: "nat \<Rightarrow> bool \<Rightarrow> Url \<Rightarrow> BuildHttpResolverError + HttpResolver" where
  "HttpResolver_new valid built origin =
     (case validate_server_origin origin False of
        Inl e \<Rightarrow> Inl (InvalidOrigin e)
      | Inr _ \<Rightarrow>
          (case build_http_client valid built of
             Inl e \<Rightarrow> Inl e
           | Inr _ \<Rightarrow> Inr \<lparr>http_origin = origin, http_answers = Map.empty\<rparr>))"

definition http_clear_cache :: "HttpResolver \<Rightarrow> HttpResolver" where
  "http_clear_cache r = r\<lparr>http_answers := Map.empty\<rparr>"

definition http_source :: "env \<Rightarrow> HttpResolver \<Rightarrow> Source" where
  "http_source V r = Source.Http (env_origin_ascii V (http_origin r))"

section \<open>Fetching\<close>

text \<open>A chunk is \<open>None\<close> when reading it fails.\<close>

record http_response =
  hr_status :: nat
  hr_headers :: headers
  hr_chunks :: "bytes option list"

fun read_chunks :: "bytes \<Rightarrow> bytes option list \<Rightarrow> HttpLookupError + bytes" where
  "read_chunks body [] = Inr body"
| "read_chunks body (None # rest) = Inl HttpLookupError.Request"
| "read_chunks body (Some chunk # rest) =
     (if length chunk > MAX_LOOKUP_RESPONSE_BYTES - length body
      then Inl (HttpLookupError.ResponseTooLarge MAX_LOOKUP_RESPONSE_BYTES)
      else read_chunks (body @ chunk) rest)"

definition fetch :: "http_response option \<Rightarrow> HttpLookupError + headers \<times> bytes" where
  "fetch result =
     (case result of
        None \<Rightarrow> Inl HttpLookupError.Request
      | Some response \<Rightarrow>
          if hr_status response = 200 then
            (case read_chunks [] (hr_chunks response) of
               Inl e \<Rightarrow> Inl e
             | Inr body \<Rightarrow> Inr (hr_headers response, body))
          else if hr_status response = 404 then Inl HttpLookupError.NoRecordFound
          else Inl (HttpLookupError.Status (hr_status response)))"

datatype http_outcome = HttpTimedOut | HttpCompleted "http_response option"

fun http_map_semantic_error :: "LookupSemanticError \<Rightarrow> HttpLookupError" where
  "http_map_semantic_error (LookupSemanticError.Decode source) = HttpLookupError.Decode source"
| "http_map_semantic_error LookupSemanticError.NoRecordFound = HttpLookupError.NoRecordFound"
| "http_map_semantic_error LookupSemanticError.NoUsableRecord = HttpLookupError.NoUsableRecord"

text \<open>The boolean tells whether the server was asked.\<close>

definition http_lookup_candidates ::
  "env \<Rightarrow> (request \<Rightarrow> http_outcome) \<Rightarrow> nat \<Rightarrow> nat \<Rightarrow> HttpResolver \<Rightarrow> rstr \<Rightarrow> EndpointLookup \<Rightarrow>
   HttpResolver \<times> bool \<times> (HttpLookupError + EndpointCandidates)" where
  "http_lookup_candidates V net now later r name requested =
     (case endpoint_lookup_name_and_sequence (env_dns_name V) (env_home V) name of
        None \<Rightarrow> (r, False, Inl HttpLookupError.NoRecordFound)
      | Some (name, legacy_sequence) \<Rightarrow>
          let lookup = exact_override requested legacy_sequence;
              k = CacheKey_new name lookup
          in case http_cache_get now k (http_answers r) of
               (c, Some cached) \<Rightarrow> (r\<lparr>http_answers := c\<rparr>, False, Inr cached)
             | (c, None) \<Rightarrow>
                 (case net (lookup_url (http_origin r) name lookup) of
                    HttpTimedOut \<Rightarrow> (r\<lparr>http_answers := c\<rparr>, True, Inl HttpLookupError.Timeout)
                  | HttpCompleted result \<Rightarrow>
                      (case fetch result of
                         Inl e \<Rightarrow> (r\<lparr>http_answers := c\<rparr>, True, Inl e)
                       | Inr (hs, body) \<Rightarrow>
                           (case decode_lookup_response (env_codec V) (env_home V) (env_crypto V) (env_addr_of V) name lookup
                                   (http_source V r) hs body of
                              Inl e \<Rightarrow> (r\<lparr>http_answers := c\<rparr>, True, Inl (http_map_semantic_error e))
                            | Inr ans \<Rightarrow>
                                (r\<lparr>http_answers := http_cache_insert later k (candidates ans) (answer_ttl ans * NANOS) c\<rparr>, True,
                                 Inr (candidates ans))))))"

definition http_lookup ::
  "env \<Rightarrow> (request \<Rightarrow> http_outcome) \<Rightarrow> nat \<Rightarrow> nat \<Rightarrow> HttpResolver \<Rightarrow> rstr \<Rightarrow> Family option \<Rightarrow>
   HttpResolver \<times> bool \<times> (HttpLookupError + src_record list)" where
  "http_lookup V net now later r hostname fam =
     (case http_lookup_candidates V net now later r hostname (with_family fam EndpointLookup_default) of
        (r, asked, Inl e) \<Rightarrow> (r, asked, Inl e)
      | (r, asked, Inr cands) \<Rightarrow> (r, asked, Inr (flat_records (http_source V r) cands)))"

section \<open>Lemmas\<close>

lemma read_chunks_bounded:
  "read_chunks bs cs = Inr body \<Longrightarrow> length bs \<le> MAX_LOOKUP_RESPONSE_BYTES \<Longrightarrow>
   body = bs @ concat (List.map_filter (\<lambda>c. c) cs) \<and> length body \<le> MAX_LOOKUP_RESPONSE_BYTES"
proof (induction bs cs rule: read_chunks.induct)
  case (3 bs chunk rest)
  have fits: "\<not> length chunk > MAX_LOOKUP_RESPONSE_BYTES - length bs" using 3(2) by (auto split: if_splits)
  then have "length (bs @ chunk) \<le> MAX_LOOKUP_RESPONSE_BYTES" using 3(3) by simp
  with 3(1) [OF fits] 3(2) fits show ?case by (auto simp: List.map_filter_simps)
qed (auto simp: List.map_filter_simps)

lemma http_fetched:
  assumes "http_lookup_candidates V net now later r name requested = (r1, True, Inr cands)"
  obtains host sq response body ans where
    "endpoint_lookup_name_and_sequence (env_dns_name V) (env_home V) name = Some (host, sq)"
    "snd (http_cache_get now (CacheKey_new host (exact_override requested sq)) (http_answers r)) = None"
    "net (lookup_url (http_origin r) host (exact_override requested sq)) = HttpCompleted (Some response)"
    "fetch (Some response) = Inr (hr_headers response, body)"
    "decode_lookup_response (env_codec V) (env_home V) (env_crypto V) (env_addr_of V) host (exact_override requested sq)
       (http_source V r) (hr_headers response) body = Inr ans" "candidates ans = cands"
    "r1 = r\<lparr>http_answers := http_cache_insert later (CacheKey_new host (exact_override requested sq)) cands (answer_ttl ans * NANOS)
       (fst (http_cache_get now (CacheKey_new host (exact_override requested sq)) (http_answers r)))\<rparr>"
proof -
  obtain host sq where name: "endpoint_lookup_name_and_sequence (env_dns_name V) (env_home V) name = Some (host, sq)"
    using assms by (auto simp: http_lookup_candidates_def split: option.splits)
  let ?lk = "exact_override requested sq"
  obtain c got where g: "http_cache_get now (CacheKey_new host ?lk) (http_answers r) = (c, got)" by fastforce
  have "got = None" using assms name g by (cases got) (auto simp: http_lookup_candidates_def Let_def)
  moreover from this obtain result hs body ans where
    "net (lookup_url (http_origin r) host ?lk) = HttpCompleted result" "fetch result = Inr (hs, body)"
    "decode_lookup_response (env_codec V) (env_home V) (env_crypto V) (env_addr_of V) host ?lk (http_source V r) hs body = Inr ans"
    "candidates ans = cands" "r1 = r\<lparr>http_answers := http_cache_insert later (CacheKey_new host ?lk) cands (answer_ttl ans * NANOS) c\<rparr>"
    using assms name g by (auto simp: http_lookup_candidates_def Let_def split: http_outcome.splits sum.splits)
  moreover from this(2) obtain response where "result = Some response" "hs = hr_headers response"
    by (auto simp: fetch_def split: option.splits if_splits sum.splits)
  ultimately show ?thesis using that [OF name] g by simp
qed

section \<open>Properties\<close>

text \<open>The HTTP resolver caches like the H3 resolver: candidates fetched from the server come from a
  decoded response of at most the maximal size; for the lifetime of that response the same lookup is
  answered from the cache without asking the server, and not after it.\<close>

theorem http_cached_lookup:
  assumes "http_lookup_candidates V net now later r name requested = (r1, True, Inr cands)" and "now \<le> later"
  shows "\<exists>host lookup hs body ans.
    decode_lookup_response (env_codec V) (env_home V) (env_crypto V) (env_addr_of V) host lookup (http_source V r) hs body = Inr ans \<and>
    candidates ans = cands \<and> length body \<le> MAX_LOOKUP_RESPONSE_BYTES \<and>
    (\<forall>t \<ge> later. \<forall>net' later'. case http_lookup_candidates V net' t later' r1 name requested of
       (r2, asked, res) \<Rightarrow> if t < later + answer_ttl ans * NANOS then \<not> asked \<and> res = Inr cands else asked)"
proof -
  obtain host sq response body ans where f:
    "endpoint_lookup_name_and_sequence (env_dns_name V) (env_home V) name = Some (host, sq)"
    "snd (http_cache_get now (CacheKey_new host (exact_override requested sq)) (http_answers r)) = None"
    "fetch (Some response) = Inr (hr_headers response, body)"
    "decode_lookup_response (env_codec V) (env_home V) (env_crypto V) (env_addr_of V) host (exact_override requested sq)
       (http_source V r) (hr_headers response) body = Inr ans" "candidates ans = cands"
    "r1 = r\<lparr>http_answers := http_cache_insert later (CacheKey_new host (exact_override requested sq)) cands (answer_ttl ans * NANOS)
       (fst (http_cache_get now (CacheKey_new host (exact_override requested sq)) (http_answers r)))\<rparr>"
    by (rule http_fetched [OF assms(1)])
  have "read_chunks [] (hr_chunks response) = Inr body"
    using f(3) by (auto simp: fetch_def split: if_splits sum.splits)
  then have len: "length body \<le> MAX_LOOKUP_RESPONSE_BYTES" using read_chunks_bounded by fastforce
  have "case http_lookup_candidates V net' t later' r1 name requested of
       (r2, asked, res) \<Rightarrow> if t < later + answer_ttl ans * NANOS then \<not> asked \<and> res = Inr cands else asked"
    if "later \<le> t" for t net' later'
  proof -
    let ?k = "CacheKey_new host (exact_override requested sq)"
    obtain c got where g: "http_cache_get t ?k (http_answers r1) = (c, got)" by fastforce
    have "got = (if t < later + answer_ttl ans * NANOS then Some cands else None)"
      using httpc.fetched_then_served [OF f(2) assms(2) that, of cands "answer_ttl ans * NANOS"] g f(6) by simp
    then show ?thesis using g f(1)
      by (auto simp: http_lookup_candidates_def Let_def split: http_outcome.splits sum.splits)
  qed
  then show ?thesis using f(4,5) len
    by (intro exI [of _ host] exI [of _ "exact_override requested sq"] exI [of _ "hr_headers response"] exI [of _ body] exI [of _ ans]) simp
qed

definition demo_http_net :: "request \<Rightarrow> http_outcome" where
  "demo_http_net req = HttpCompleted (Some \<lparr>hr_status = 200, hr_headers = \<lambda>_. [],
     hr_chunks = [Some (encode ref_codec \<lparr>mr_records = [demo_response]\<rparr>)]\<rparr>)"

definition demo_http :: HttpResolver where
  "demo_http = \<lparr>http_origin = demo_origin, http_answers = Map.empty\<rparr>"

definition demo_http_candidates :: EndpointCandidates where
  "demo_http_candidates = \<lparr>groups = [\<lparr>chain = primary_chain_key 1, endpoints = demo_published,
     sources = [Source.Http (str ''https://dns.example'')]\<rparr>]\<rparr>"

lemma demo_http_first:
  "\<exists>r1. http_lookup_candidates demo_env demo_http_net 0 5 demo_http (str ''com:1'') EndpointLookup_default = (r1, True, Inr demo_http_candidates)"
proof -
  let ?b = "encode ref_codec \<lparr>mr_records = [demo_response]\<rparr>"
  have "\<not> 1024 * 1024 < length ?b" using demo_body_length by simp
  then have body: "fetch (Some \<lparr>hr_status = 200, hr_headers = \<lambda>_. [], hr_chunks = [Some ?b]\<rparr>) = Inr (\<lambda>_. [], ?b)"
    by (simp add: fetch_def MAX_LOOKUP_RESPONSE_BYTES_def)
  have lk: "exact_override EndpointLookup_default (Some 1) = lookup_exact 1"
    by (simp add: exact_override_def EndpointLookup_default_def lookup_exact_def with_family_def)
  have miss: "http_cache_get 0 k (http_answers demo_http) = (Map.empty, None)" for k
    by (simp add: http_cache_get_def demo_http_def)
  show ?thesis
    using demo_decoded [of "Source.Http (str ''https://dns.example'')" "\<lambda>_. []"]
    by (simp add: http_lookup_candidates_def demo_name lk miss demo_http_net_def body http_source_def demo_http_candidates_def del: chain_key_simps)
qed

theorem http_cached_lookup_witness:
  "\<exists>r1. http_lookup_candidates demo_env demo_http_net 0 5 demo_http (str ''com:1'') EndpointLookup_default = (r1, True, Inr demo_http_candidates) \<and>
     (case http_lookup_candidates demo_env (\<lambda>_. HttpTimedOut) 7 8 r1 (str ''com:1'') EndpointLookup_default of
        (r2, asked, res) \<Rightarrow> res = Inr demo_http_candidates \<or> asked)"
proof -
  obtain r1 where r1: "http_lookup_candidates demo_env demo_http_net 0 5 demo_http (str ''com:1'') EndpointLookup_default = (r1, True, Inr demo_http_candidates)"
    using demo_http_first by blast
  from http_cached_lookup [OF r1] obtain d where "\<forall>t \<ge> 5. \<forall>net' later'. case http_lookup_candidates demo_env net' t later' r1 (str ''com:1'') EndpointLookup_default of
       (r2, asked, res) \<Rightarrow> if t < 5 + d then \<not> asked \<and> res = Inr demo_http_candidates else asked"
    by auto
  from this [rule_format, of 7 "\<lambda>_. HttpTimedOut" 8] r1 show ?thesis
    by (auto split: prod.splits if_splits)
qed

end
