(* ===== verification/MdnsProtocol.thy ===== *)
theory MdnsProtocol
  imports Publishers
begin

text \<open>
  The multicast protocol (\<^verbatim>\<open>src/mdns/protocol.rs\<close>): receiving datagrams, broadcasting, the router that
  hands queries to the responder and responses to the lookup that asked, and the query loop. The
  socket is its datagrams; a bounded channel of \<^verbatim>\<open>flume\<close> is a list that refuses to grow beyond its bound.
  \<open>is_query\<close> is the code's test of the QR bit, which is set on responses.
\<close>

definition MULTICAST_PORT :: u16 where "MULTICAST_PORT = 5353"
definition MULTICAST_ADDR_V4 :: Ipv4Addr where "MULTICAST_ADDR_V4 = 0xE00000FB"
definition MULTICAST_ADDR_V6 :: Ipv6Addr where "MULTICAST_ADDR_V6 = 0xFF0200000000000000000000000000FB"
definition MAX_DEQUE_SIZE :: nat where "MAX_DEQUE_SIZE = 64"
definition MAX_MDNS_DNS_MESSAGE_LEN :: nat where "MAX_MDNS_DNS_MESSAGE_LEN = 9000"

type_synonym message = "SocketAddr \<times> Packet"

section \<open>Datagrams\<close>

text \<open>The argument is the sequence of datagrams the socket yields before it fails. A datagram that does
  not fit the buffer is cut to it.\<close>

fun mdns_receive :: "codec \<Rightarrow> home \<Rightarrow> (SocketAddr \<times> bytes) list \<Rightarrow> (message \<times> (SocketAddr \<times> bytes) list) option" where
  "mdns_receive C H [] = None"
| "mdns_receive C H ((source, datagram) # rest) =
     (let recv_buffer = take (MAX_MDNS_DNS_MESSAGE_LEN + 1) datagram in
      if length recv_buffer > MAX_MDNS_DNS_MESSAGE_LEN then mdns_receive C H rest
      else case be_packet C H recv_buffer of
        Inl _ \<Rightarrow> mdns_receive C H rest
      | Inr (_, packet) \<Rightarrow> Some ((source, packet), rest))"

text \<open>The datagram sent and where to, when the socket does not fail; \<open>None\<close> is a panic while encoding.\<close>

definition broadcast_packet :: "codec \<Rightarrow> IpAddr \<Rightarrow> Packet \<Rightarrow> (SocketAddr \<times> bytes) option" where
  "broadcast_packet C local_ip packet =
     map_option (\<lambda>buf. (case local_ip of
         IpV4 _ \<Rightarrow> V4 (SocketAddrV4 MULTICAST_ADDR_V4 MULTICAST_PORT)
       | IpV6 _ \<Rightarrow> V6 (SocketAddrV6 MULTICAST_ADDR_V6 MULTICAST_PORT 0 0), buf)) (to_bytes C packet)"

text \<open>The whole method: \<open>local_addr\<close> is what the socket says of its own address and \<open>send_to\<close> whether it accepts a
  datagram. The result comes with what was sent. Both callers, the query and the responder, discard the result, so that
  a failure is to them a datagram that is lost.\<close>

definition try_broadcast :: "codec \<Rightarrow> ('e + IpAddr) \<Rightarrow> (SocketAddr \<times> bytes \<Rightarrow> 'e option) \<Rightarrow> Packet \<Rightarrow>
    (('e + unit) \<times> (SocketAddr \<times> bytes) list) option" where
  "try_broadcast C local_addr send_to packet =
     (case to_bytes C packet of
        None \<Rightarrow> None
      | Some buf \<Rightarrow> (case local_addr of
        Inl e \<Rightarrow> Some (Inl e, [])
      | Inr local_ip \<Rightarrow>
          let target = (case local_ip of
              IpV4 _ \<Rightarrow> V4 (SocketAddrV4 MULTICAST_ADDR_V4 MULTICAST_PORT)
            | IpV6 _ \<Rightarrow> V6 (SocketAddrV6 MULTICAST_ADDR_V6 MULTICAST_PORT 0 0))
          in case send_to (target, buf) of
               Some e \<Rightarrow> Some (Inl e, [])
             | None \<Rightarrow> Some (Inr (), [(target, buf)])))"

lemma try_broadcast_sends:
  assumes "try_broadcast C local_addr send_to packet = Some (res, sent)"
  shows "(case res of Inl _ \<Rightarrow> sent = []
    | Inr _ \<Rightarrow> \<exists>ip d. local_addr = Inr ip \<and> broadcast_packet C ip packet = Some d \<and> send_to d = None \<and> sent = [d])"
  using assms by (auto simp: try_broadcast_def broadcast_packet_def Let_def split: option.splits sum.splits)

section \<open>The router\<close>

text \<open>Response channels are numbered as they are made; \<open>queries\<close> holds the sender of each registered
  query.\<close>

record PacketRouter =
  requests :: "message list"
  queries :: "u16 \<rightharpoonup> nat"
  channels :: "message list list"

definition PacketRouter_new :: PacketRouter where
  "PacketRouter_new = \<lparr>requests = [], queries = Map.empty, channels = []\<rparr>"

definition try_send :: "'a \<Rightarrow> 'a list \<Rightarrow> 'a list option" where
  "try_send x ch = (if length ch < MAX_DEQUE_SIZE then Some (ch @ [x]) else None)"

definition receive_query :: "PacketRouter \<Rightarrow> (message \<times> PacketRouter) option" where
  "receive_query r = (case requests r of [] \<Rightarrow> None | m # ms \<Rightarrow> Some (m, r\<lparr>requests := ms\<rparr>))"

definition register_query :: "u16 \<Rightarrow> PacketRouter \<Rightarrow> nat \<times> PacketRouter" where
  "register_query query_id r =
     (let ch = length (channels r)
      in (ch, r\<lparr>queries := (queries r)(query_id \<mapsto> ch), channels := channels r @ [[]]\<rparr>))"

text \<open>Polling and dropping the stream that \<open>register_query\<close> returned.\<close>

definition next_response :: "nat \<Rightarrow> PacketRouter \<Rightarrow> (message \<times> PacketRouter) option" where
  "next_response ch r = (case channels r ! ch of [] \<Rightarrow> None | m # ms \<Rightarrow> Some (m, r\<lparr>channels := (channels r)[ch := ms]\<rparr>))"

definition drop_responses :: "u16 \<Rightarrow> PacketRouter \<Rightarrow> PacketRouter" where
  "drop_responses query_id r = r\<lparr>queries := (queries r)(query_id := None)\<rparr>"

definition deliver :: "message \<Rightarrow> PacketRouter \<Rightarrow> PacketRouter" where
  "deliver m r =
     (let packet = snd m in
      if is_query packet then
        if packet_id packet = 0 then r
        else (case queries r (packet_id packet) of
                Some ch \<Rightarrow>
                  (case try_send m (channels r ! ch) of
                     Some ms \<Rightarrow> r\<lparr>channels := (channels r)[ch := ms]\<rparr>
                   | None \<Rightarrow> r)
              | None \<Rightarrow> r)
      else
        (case try_send m (requests r) of
           Some ms \<Rightarrow> r\<lparr>requests := ms\<rparr>
         | None \<Rightarrow>
             let r = r\<lparr>requests := tl (requests r)\<rparr>
             in (case try_send m (requests r) of Some ms \<Rightarrow> r\<lparr>requests := ms\<rparr> | None \<Rightarrow> r)))"

section \<open>The routing task\<close>

lemma mdns_receive_rest: "mdns_receive C H ds = Some (m, rest) \<Longrightarrow> length rest < length ds"
proof (induction ds)
  case (Cons d ds)
  then show ?case by (cases d) (auto simp: Let_def split: if_splits sum.splits)
qed simp

text \<open>The loop of the task that \<^verbatim>\<open>MdnsProtocol::new\<close> returns, until the socket fails.\<close>

function route :: "codec \<Rightarrow> home \<Rightarrow> (SocketAddr \<times> bytes) list \<Rightarrow> PacketRouter \<Rightarrow> PacketRouter" where
  "route C H ds r = (case mdns_receive C H ds of None \<Rightarrow> r | Some (m, rest) \<Rightarrow> route C H rest (deliver m r))"
  by pat_completeness auto
termination
  by (relation "measure (\<lambda>(_, _, ds, _). length ds)") (auto dest: mdns_receive_rest)

declare route.simps [simp del]

text \<open>The messages in a sequence of datagrams: those that fit and parse.\<close>

definition received :: "codec \<Rightarrow> home \<Rightarrow> (SocketAddr \<times> bytes) list \<Rightarrow> message list" where
  "received C H = List.map_filter (\<lambda>(source, datagram).
     if length datagram > MAX_MDNS_DNS_MESSAGE_LEN then None
     else case be_packet C H datagram of Inl _ \<Rightarrow> None | Inr (_, packet) \<Rightarrow> Some (source, packet))"

lemma received_receive: "received C H ds = (case mdns_receive C H ds of None \<Rightarrow> [] | Some (m, rest) \<Rightarrow> m # received C H rest)"
proof (induction ds)
  case (Cons d rest)
  obtain source datagram where d: "d = (source, datagram)" by (cases d)
  have "take (MAX_MDNS_DNS_MESSAGE_LEN + 1) datagram = datagram" if "\<not> length datagram > MAX_MDNS_DNS_MESSAGE_LEN" using that by simp
  then show ?case
    using Cons d by (cases "length datagram > MAX_MDNS_DNS_MESSAGE_LEN")
      (auto simp: received_def List.map_filter_simps Let_def split: sum.splits)
qed (simp add: received_def List.map_filter_simps)

lemma route_delivers: "route C H ds r = fold deliver (received C H ds) r"
proof (induction C H ds r rule: route.induct)
  case (1 C H ds r)
  then show ?case by (auto simp: route.simps [of C H ds r] received_receive [of C H ds] split: option.splits)
qed

section \<open>Queries\<close>

datatype query_error = Disconnected | QueryIdZero | TimedOut

definition records_for :: "rstr \<Rightarrow> Packet \<Rightarrow> EndpointAddr list" where
  "records_for local_name packet =
     List.map_filter (\<lambda>rr. case rdata rr of RData.E e \<Rightarrow> Some e | _ \<Rightarrow> None)
       (filter (\<lambda>rr. rr_name rr = local_name) (answers packet))"

text \<open>\<open>attempts\<close> is what waiting for a response gives on each attempt, \<open>None\<close> for a timeout or the end of
  the stream.\<close>

fun query_attempts :: "rstr \<Rightarrow> message option list \<Rightarrow> query_error + SocketAddr \<times> EndpointAddr list" where
  "query_attempts local_name [] = Inl TimedOut"
| "query_attempts local_name (None # rest) = query_attempts local_name rest"
| "query_attempts local_name (Some (source, packet) # rest) =
     (let eps = records_for local_name packet in
      if eps \<noteq> [] then Inr (source, eps) else query_attempts local_name rest)"

text \<open>\<open>rnd\<close> is the random identifier of the query and \<open>wait\<close> what each of the attempts receives.\<close>

definition mdns_query :: "bool \<Rightarrow> u16 \<Rightarrow> (nat \<Rightarrow> message option) \<Rightarrow> rstr \<Rightarrow> query_error + SocketAddr \<times> EndpointAddr list" where
  "mdns_query router_alive rnd wait local_name =
     (if \<not> router_alive then Inl Disconnected
      else
        let packet = query_with_id rnd local_name in
        if packet_id packet = 0 then Inl QueryIdZero
        else query_attempts local_name (map wait [0..<3]))"

section \<open>The abstract router\<close>

text \<open>The responder sees the newest queries, a lookup the oldest responses to it; the specification of
  both is on the whole sequence of messages.\<close>

definition newest :: "'a list \<Rightarrow> 'a list" where
  "newest xs = drop (length xs - MAX_DEQUE_SIZE) xs"

definition oldest :: "'a list \<Rightarrow> 'a list" where
  "oldest xs = take MAX_DEQUE_SIZE xs"

definition query_messages :: "message list \<Rightarrow> message list" where
  "query_messages ms = filter (\<lambda>m. \<not> is_query (snd m)) ms"

definition response_messages :: "u16 \<Rightarrow> message list \<Rightarrow> message list" where
  "response_messages q ms = filter (\<lambda>m. is_query (snd m) \<and> packet_id (snd m) = q) ms"

definition router_ok :: "PacketRouter \<Rightarrow> bool" where
  "router_ok r \<longleftrightarrow> length (requests r) \<le> MAX_DEQUE_SIZE \<and> list_all (\<lambda>ch. length ch \<le> MAX_DEQUE_SIZE) (channels r) \<and>
     queries r 0 = None \<and> (\<forall>q ch. queries r q = Some ch \<longrightarrow> ch < length (channels r)) \<and>
     (\<forall>p q ch. queries r p = Some ch \<longrightarrow> queries r q = Some ch \<longrightarrow> p = q)"

lemma newest_short: "length xs \<le> MAX_DEQUE_SIZE \<Longrightarrow> newest xs = xs"
  by (simp add: newest_def)

lemma length_oldest: "length (oldest xs) \<le> MAX_DEQUE_SIZE"
  by (simp add: oldest_def)

lemma length_newest: "length (newest xs) \<le> MAX_DEQUE_SIZE"
  by (simp add: newest_def)

lemma newest_append: "newest (newest ys @ xs) = newest (ys @ xs)"
proof (cases "length ys \<le> MAX_DEQUE_SIZE")
  case False
  then have "newest ys @ xs = drop (length ys - MAX_DEQUE_SIZE) (ys @ xs)" by (simp add: newest_def)
  moreover have "length (ys @ xs) - (length ys - MAX_DEQUE_SIZE) - MAX_DEQUE_SIZE + (length ys - MAX_DEQUE_SIZE) =
      length (ys @ xs) - MAX_DEQUE_SIZE"
    using False by simp
  ultimately show ?thesis by (simp only: newest_def length_drop drop_drop)
qed (simp add: newest_short)

lemma oldest_append: "oldest (oldest ys @ xs) = oldest (ys @ xs)"
  by (simp add: oldest_def min_def)

lemma deliver_requests:
  "length (requests r) \<le> MAX_DEQUE_SIZE \<Longrightarrow>
   requests (deliver m r) = (if is_query (snd m) then requests r else newest (requests r @ [m]))"
  by (auto simp: deliver_def try_send_def newest_def MAX_DEQUE_SIZE_def Let_def drop_Suc split: option.splits)

lemma deliver_channels:
  assumes "router_ok r"
  shows "channels (deliver m r) =
    (if is_query (snd m) then
       case queries r (packet_id (snd m)) of
         Some ch \<Rightarrow> (channels r)[ch := oldest (channels r ! ch @ [m])]
       | None \<Rightarrow> channels r
     else channels r)"
proof -
  have "oldest (channels r ! ch @ [m]) = channels r ! ch" if "ch < length (channels r)" "\<not> length (channels r ! ch) < MAX_DEQUE_SIZE" for ch
  proof -
    have "length (channels r ! ch) \<le> MAX_DEQUE_SIZE" using assms that(1) by (simp add: router_ok_def list_all_length)
    with that(2) show ?thesis by (simp add: oldest_def)
  qed
  then show ?thesis using assms
    by (auto simp: deliver_def try_send_def oldest_def Let_def router_ok_def split: option.splits)
qed

lemma deliver_queries [simp]: "queries (deliver m r) = queries r"
  by (auto simp: deliver_def Let_def split: option.splits)

lemma deliver_ok:
  assumes "router_ok r"
  shows "router_ok (deliver m r)"
proof -
  have "length (requests (deliver m r)) \<le> MAX_DEQUE_SIZE"
    using assms length_newest [of "requests r @ [m]"] by (auto simp: deliver_requests router_ok_def)
  moreover have "list_all (\<lambda>ch. length ch \<le> MAX_DEQUE_SIZE) (channels (deliver m r)) \<and> length (channels (deliver m r)) = length (channels r)"
    using assms length_oldest
    by (auto simp: deliver_channels router_ok_def list_all_iff dest!: set_update_subset_insert [THEN subsetD] split: option.splits)
  ultimately show ?thesis using assms by (auto simp: router_ok_def)
qed

lemma deliver_all:
  assumes "router_ok r" and "queries r q = Some ch"
  shows "router_ok (fold deliver ms r) \<and> queries (fold deliver ms r) = queries r \<and>
    requests (fold deliver ms r) = newest (requests r @ query_messages ms) \<and>
    channels (fold deliver ms r) ! ch = oldest (channels r ! ch @ response_messages q ms)"
  using assms
proof (induction ms arbitrary: r)
  case Nil
  then show ?case by (auto simp: newest_short router_ok_def oldest_def query_messages_def response_messages_def list_all_length)
next
  case (Cons m ms)
  have ch: "ch < length (channels r)" using Cons.prems by (simp add: router_ok_def)
  have reqs: "newest (newest (requests r @ [m]) @ xs) = newest (requests r @ m # xs)" for xs
    by (simp add: newest_append)
  have chan: "oldest (oldest (channels r ! ch @ [m]) @ xs) = oldest (channels r ! ch @ m # xs)" for xs
    using oldest_append [of "channels r ! ch @ [m]" xs] by simp
  have other: "queries r (packet_id (snd m)) = Some c \<Longrightarrow> packet_id (snd m) \<noteq> q \<Longrightarrow> c \<noteq> ch" for c
    using Cons.prems by (auto simp: router_ok_def)
  have len: "length (requests r) \<le> MAX_DEQUE_SIZE" using Cons.prems(1) by (simp add: router_ok_def)
  have c1: "channels (deliver m r) ! ch = (if is_query (snd m) \<and> packet_id (snd m) = q then oldest (channels r ! ch @ [m]) else channels r ! ch)"
    using ch other Cons.prems(2) by (auto simp: deliver_channels [OF Cons.prems(1)] nth_list_update split: option.splits)
  show ?case
    using Cons.IH [OF deliver_ok [OF Cons.prems(1)]] Cons.prems(2)
    by (simp add: deliver_requests [OF len] c1 reqs chan query_messages_def response_messages_def)
qed

section \<open>Reachable routers\<close>

inductive router_step :: "PacketRouter \<Rightarrow> PacketRouter \<Rightarrow> bool" where
  step_deliver: "router_step r (deliver m r)"
| step_register: "q \<noteq> 0 \<Longrightarrow> router_step r (snd (register_query q r))"
| step_take: "receive_query r = Some (m, r') \<Longrightarrow> router_step r r'"
| step_next: "ch < length (channels r) \<Longrightarrow> next_response ch r = Some (m, r') \<Longrightarrow> router_step r r'"
| step_drop: "router_step r (drop_responses q r)"

inductive_cases router_stepE: "router_step r r'"

lemma router_step_ok:
  assumes "router_step r r'" and "router_ok r"
  shows "router_ok r'"
  using assms
proof (induction rule: router_step.induct)
  case (step_deliver r m)
  then show ?case by (rule deliver_ok)
next
  case (step_register q r)
  have fresh: "queries r p \<noteq> Some (length (channels r))" and old: "queries r p = Some c \<Longrightarrow> c < Suc (length (channels r))" for p c
    using step_register.prems by (fastforce simp: router_ok_def)+
  show ?case using step_register fresh old
    by (auto simp: register_query_def router_ok_def Let_def)
next
  case (step_take r m r')
  then show ?case by (auto simp: receive_query_def router_ok_def split: list.splits)
next
  case (step_next ch r m r')
  then obtain ms where ms: "channels r ! ch = m # ms" "r' = r\<lparr>channels := (channels r)[ch := ms]\<rparr>"
    by (auto simp: next_response_def split: list.splits)
  have "length (channels r ! ch) \<le> MAX_DEQUE_SIZE"
    using step_next by (simp add: router_ok_def list_all_length)
  then show ?case using step_next(3) ms
    by (auto simp: router_ok_def list_all_iff dest!: set_update_subset_insert [THEN subsetD])
next
  case (step_drop r q)
  then show ?case by (auto simp: drop_responses_def router_ok_def)
qed

lemma router_reachable_ok: "router_step\<^sup>*\<^sup>* PacketRouter_new r \<Longrightarrow> router_ok r"
proof (induction rule: rtranclp_induct)
  case base
  show ?case by (simp add: router_ok_def PacketRouter_new_def)
qed (rule router_step_ok)

section \<open>Properties\<close>

text \<open>C13: The router refines two bounded buffers. In every reachable router that has a query registered the queues hold
  at most their bound, and when a sequence of messages is delivered, the responder's queue becomes the newest queries
  of all that were waiting and came, in order, the oldest being pushed out, while the stream of a
  registered query becomes the oldest of the responses that carry its identifier, later ones
  being dropped; no message reaches any other stream. The routing task delivers in this way exactly the
  datagrams that fit and parse.\<close>

theorem router_refines_buffers:
  assumes "router_step\<^sup>*\<^sup>* PacketRouter_new r" and "queries r q = Some ch"
  shows "length (requests r) \<le> MAX_DEQUE_SIZE \<and> length (channels r ! ch) \<le> MAX_DEQUE_SIZE \<and>
    requests (fold deliver ms r) = newest (requests r @ query_messages ms) \<and>
    channels (fold deliver ms r) ! ch = oldest (channels r ! ch @ response_messages q ms) \<and>
    route C H datagrams r = fold deliver (received C H datagrams) r"
proof -
  have ok: "router_ok r" by (rule router_reachable_ok [OF assms(1)])
  then have "length (channels r ! ch) \<le> MAX_DEQUE_SIZE" using assms(2) by (auto simp: router_ok_def list_all_length)
  then show ?thesis using deliver_all [OF ok assms(2), of ms] ok route_delivers [of C H datagrams r] by (simp add: router_ok_def)
qed

definition demo_message :: "u16 \<Rightarrow> message" where
  "demo_message i = (V4 (SocketAddrV4 1 2), answer i [])"

theorem router_refines_buffers_witness:
  "channels (fold deliver [demo_message 7, demo_message 8] (snd (register_query 7 PacketRouter_new))) ! 0 = [demo_message 7]"
proof -
  let ?r = "snd (register_query 7 PacketRouter_new)"
  have step: "router_step\<^sup>*\<^sup>* PacketRouter_new ?r" by (intro r_into_rtranclp step_register) simp
  have q: "queries ?r 7 = Some 0" "channels ?r ! 0 = []"
    by (simp_all add: register_query_def PacketRouter_new_def)
  have "response_messages 7 [demo_message 7, demo_message 8] = [demo_message 7]"
    by (simp add: response_messages_def demo_message_def answer_def packet_id_def is_query_def flag_query_def set_query_def
        Packet_default_def bit_simps)
  then show ?thesis
    using router_refines_buffers [OF step q(1), of "[demo_message 7, demo_message 8]"] q(2)
    by (simp add: oldest_def MAX_DEQUE_SIZE_def)
qed

text \<open>A query identifier that is drawn twice: when the first stream is dropped, the entry of the second
  goes with it, and the second lookup receives nothing any more.\<close>

lemma dropped_identifier:
  "queries (drop_responses q (snd (register_query q (snd (register_query q r))))) q = None"
  by (simp add: drop_responses_def register_query_def Let_def)

end
