(* ===== verification/MdnsService.thy ===== *)
theory MdnsService
  imports MdnsProtocol "HOL-Library.AList"
begin

text \<open>
  One multicast resolver (\<^verbatim>\<open>src/mdns/service.rs\<close> and the resolver part of \<^verbatim>\<open>src/mdns.rs\<close>): its host
  records, the responder, queries, binding and shutting down, publication, and the two lookups it
  offers to the aggregate. The records are an association list with distinct names; wherever the code
  iterates over the hash map, the order of its iterator is an argument. The constant
  \<^verbatim>\<open>dhttp_home::DHTTP_SUFFIX\<close> and the predicate \<^verbatim>\<open>dhttp_home::validate_name\<close> are the arguments \<open>suffix\<close>
  and \<open>valid_name\<close>.
\<close>

definition DHTTP_DNS_SUFFIX :: rstr where "DHTTP_DNS_SUFFIX = str ''dhttp.net''"
definition LOCAL_MDNS_SUFFIX :: rstr where "LOCAL_MDNS_SUFFIX = str ''local''"

datatype MdnsBindError = InvalidServiceName | Bind rstr IpAddr io_error | Closed
datatype MdnsPublishError = InvalidName | IdentityNameMismatch | Encode EncodeAuthorityDnsPacketError

text \<open>How a task that was joined ended.\<close>

datatype join_result = Finished | Cancelled | Panicked
datatype MdnsShutdownError = TaskFailed join_result

section \<open>The service\<close>

text \<open>\<open>proto\<close> tells whether the protocol handle is still there; the tasks live exactly as long.\<close>

record MdnsResolver =
  service_name :: rstr
  device :: rstr
  bound_ip :: IpAddr
  hosts :: "(rstr \<times> EndpointAddr list) list"
  proto :: bool

text \<open>\<open>sock\<close> is what opening the multicast socket for the device and address gives.\<close>

definition MdnsResolver_new :: "(rstr \<Rightarrow> IpAddr \<Rightarrow> io_error option) \<Rightarrow> rstr \<Rightarrow> rstr \<Rightarrow> IpAddr \<Rightarrow> io_error + MdnsResolver" where
  "MdnsResolver_new sock sname dev addr =
     (case sock dev addr of
        Some e \<Rightarrow> Inl e
      | None \<Rightarrow> Inr \<lparr>service_name = sname, device = dev, bound_ip = addr, hosts = [], proto = True\<rparr>)"

definition local_name :: "rstr \<Rightarrow> rstr \<Rightarrow> rstr \<Rightarrow> rstr" where
  "local_name suffix sname name =
     (case strip_suffix suffix name of Some prefix \<Rightarrow> prefix @ dot # sname | None \<Rightarrow> name)"

definition insert_host :: "rstr \<Rightarrow> rstr \<Rightarrow> EndpointAddr list \<Rightarrow> MdnsResolver \<Rightarrow> MdnsResolver" where
  "insert_host suffix host_name eps r =
     r\<lparr>hosts := AList.update (local_name suffix (service_name r) host_name) eps (hosts r)\<rparr>"

definition remove_host :: "rstr \<Rightarrow> rstr \<Rightarrow> MdnsResolver \<Rightarrow> MdnsResolver" where
  "remove_host suffix host_name r =
     r\<lparr>hosts := AList.delete (local_name suffix (service_name r) host_name) (hosts r)\<rparr>"

fun addr_ip :: "SocketAddr \<Rightarrow> IpAddr" where
  "addr_ip (V4 a) = IpV4 (v4_ip a)"
| "addr_ip (V6 a) = IpV6 (v6_ip a)"

fun query_io_error :: "query_error \<Rightarrow> io_error" where
  "query_io_error Disconnected = IoError (str ''mDNS socket is not listening'')"
| "query_io_error QueryIdZero = IoError (str ''Query id should not be 0'')"
| "query_io_error TimedOut = IoError (str ''timed out'')"

fun position :: "('a \<Rightarrow> bool) \<Rightarrow> 'a list \<Rightarrow> nat option" where
  "position P [] = None"
| "position P (x # xs) = (if P x then Some 0 else map_option Suc (position P xs))"

definition swap :: "nat \<Rightarrow> nat \<Rightarrow> 'a list \<Rightarrow> 'a list" where
  "swap i j xs = xs[i := xs ! j, j := xs ! i]"

text \<open>\<open>ask\<close> is the protocol's query: \<open>mdns_query\<close> with the random identifier and the responses that
  arrive.\<close>

definition service_query ::
  "rstr \<Rightarrow> (rstr \<Rightarrow> query_error + SocketAddr \<times> EndpointAddr list) \<Rightarrow> MdnsResolver \<Rightarrow> rstr \<Rightarrow> io_error + EndpointAddr list" where
  "service_query suffix ask r domain =
     (if \<not> proto r then Inl (IoError (str ''mDNS resolver is shut down''))
      else
        let domain = to_ascii_lowercase (trim_end_matches dot domain);
            lname = local_name suffix (service_name r) domain
        in case ask lname of
             Inl e \<Rightarrow> Inl (query_io_error e)
           | Inr (source, eps) \<Rightarrow>
               let eps = (case position (\<lambda>ep. addr_ip (primary ep) = addr_ip source) eps of
                            Some index \<Rightarrow> swap 0 index eps | None \<Rightarrow> eps)
               in if eps = [] then Inl (IoError (str ''empty DNS result'')) else Inr eps)"

text \<open>\<open>joined\<close> lists how the aborted tasks end.\<close>

fun join_all :: "join_result list \<Rightarrow> join_result + unit" where
  "join_all [] = Inr ()"
| "join_all (Panicked # rest) = Inl Panicked"
| "join_all (Finished # rest) = join_all rest"
| "join_all (Cancelled # rest) = join_all rest"

definition shutdown_tasks :: "join_result list \<Rightarrow> MdnsResolver \<Rightarrow> (join_result + unit) \<times> MdnsResolver" where
  "shutdown_tasks joined r =
     (if \<not> proto r then (Inr (), r) else (join_all joined, r\<lparr>proto := False\<rparr>))"

text \<open>One turn of the responder: the answer it broadcasts to a query. \<open>entries\<close> are the host records in
  the order of the map's iterator.\<close>

definition respond :: "rstr \<Rightarrow> rstr \<Rightarrow> (rstr \<times> EndpointAddr list) list \<Rightarrow> Packet \<Rightarrow> Packet option" where
  "respond suffix sname entries request =
     (let local_names = map (\<lambda>(name, _). local_name suffix sname name) entries in
      if list_ex (\<lambda>question. list_ex (\<lambda>name. contains name (q_name question)) local_names) (questions request)
      then Some (answer (packet_id request) entries) else None)"

section \<open>Binding and publication\<close>

text \<open>A turn of the responder from the datagrams that reach its socket to the one that it sends: the routing task
  queues the question, the responder takes it and answers with what \<open>entries\<close> lists. \<open>None\<close> is no answer.\<close>

definition responder_turn ::
  "codec \<Rightarrow> home \<Rightarrow> rstr \<Rightarrow> IpAddr \<Rightarrow> rstr \<Rightarrow> (rstr \<times> EndpointAddr list) list \<Rightarrow> (SocketAddr \<times> bytes) list \<Rightarrow> PacketRouter \<Rightarrow> bytes option" where
  "responder_turn C H suffix ip sname entries datagrams rr =
     (case receive_query (route C H datagrams rr) of
        None \<Rightarrow> None
      | Some ((_, question), _) \<Rightarrow>
          (case respond suffix sname entries question of
             None \<Rightarrow> None
           | Some packet \<Rightarrow> map_option snd (broadcast_packet C ip packet)))"

definition valid_service_name :: "rstr \<Rightarrow> bool" where
  "valid_service_name name \<longleftrightarrow>
     length name \<le> 253 \<and> ends_with (str ''.local'') (to_ascii_lowercase name) \<and>
     list_all (\<lambda>label. label \<noteq> [] \<and> length label \<le> 63 \<and>
       list_all (\<lambda>byte. is_ascii_alphanumeric byte \<or> byte = 45 \<or> byte = 95) label) (split_on dot name)"

definition mdns_bind :: "(rstr \<Rightarrow> IpAddr \<Rightarrow> io_error option) \<Rightarrow> rstr \<Rightarrow> rstr \<Rightarrow> IpAddr \<Rightarrow> MdnsBindError + MdnsResolver" where
  "mdns_bind sock sname dev addr =
     (if \<not> valid_service_name sname then Inl InvalidServiceName
      else case MdnsResolver_new sock sname dev addr of Inl e \<Rightarrow> Inl (Bind dev addr e) | Inr r \<Rightarrow> Inr r)"

fun ip_family :: "IpAddr \<Rightarrow> Family" where
  "ip_family (IpV4 _) = FamV4"
| "ip_family (IpV6 _) = FamV6"

definition mdns_source :: "MdnsResolver \<Rightarrow> Source" where
  "mdns_source r = Mdns (device r) (ip_family (bound_ip r))"

definition mdns_remove_name :: "rstr \<Rightarrow> rstr \<Rightarrow> MdnsResolver \<Rightarrow> MdnsResolver" where
  "mdns_remove_name suffix name r = remove_host suffix name r"

definition mdns_publish_endpoints ::
  "rstr \<Rightarrow> (rstr \<Rightarrow> bool) \<Rightarrow> home \<Rightarrow> authority \<Rightarrow> rstr \<Rightarrow> DquicEndpointAddr list \<Rightarrow> MdnsResolver \<Rightarrow>
   (MdnsPublishError + unit) \<times> MdnsResolver" where
  "mdns_publish_endpoints suffix valid_name H auth name addrs r =
     (if \<not> valid_name name then (Inl InvalidName, r)
      else if authority_name auth \<noteq> name then (Inl IdentityNameMismatch, r)
      else case dns_endpoints_for_authority H auth name addrs of
             Inl e \<Rightarrow> (Inl (Encode e), r)
           | Inr records \<Rightarrow>
               (Inr (), if records = [] then mdns_remove_name suffix name r else insert_host suffix name records r))"

definition mdns_shutdown :: "join_result list \<Rightarrow> MdnsResolver \<Rightarrow> (MdnsShutdownError + unit) \<times> MdnsResolver" where
  "mdns_shutdown joined r =
     (case shutdown_tasks joined r of (Inl e, r) \<Rightarrow> (Inl (TaskFailed e), r) | (Inr u, r) \<Rightarrow> (Inr u, r))"

section \<open>Lookups\<close>

definition authority_host :: "rstr \<Rightarrow> rstr" where
  "authority_host name =
     (case rsplit_once colon name of
        Some (host, digits) \<Rightarrow> if all_digits digits then host else name
      | None \<Rightarrow> name)"

definition mdns_lookup_parts :: "(rstr \<Rightarrow> bool) \<Rightarrow> home \<Rightarrow> rstr \<Rightarrow> (rstr \<times> CertificateSequence option) option" where
  "mdns_lookup_parts dns_name H name =
     (let authority = authority_host name;
          host = (case strip_suffix [dot] authority of Some h \<Rightarrow> h | None \<Rightarrow> authority)
      in case resolvable_name dns_name host of
           None \<Rightarrow> None
         | Some host \<Rightarrow>
             if eq_ignore_ascii_case host DHTTP_DNS_SUFFIX \<or> ends_with (str ''.dhttp.net'') (to_ascii_lowercase host)
             then endpoint_lookup_name_and_sequence dns_name H name
             else if ends_with (str ''.local'') (to_ascii_lowercase host) \<and> length host > length LOCAL_MDNS_SUFFIX
             then Some (host, None)
             else None)"

definition mdns_lookup ::
  "rstr \<Rightarrow> (rstr \<Rightarrow> bool) \<Rightarrow> home \<Rightarrow> (DquicEndpointAddr \<Rightarrow> SocketAddr) \<Rightarrow>
   (rstr \<Rightarrow> query_error + SocketAddr \<times> EndpointAddr list) \<Rightarrow> MdnsResolver \<Rightarrow> rstr \<Rightarrow> Family option \<Rightarrow> io_error + src_record list" where
  "mdns_lookup suffix dns_name H addr_of ask r hostname fam =
     (if fam \<noteq> None \<and> fam \<noteq> Some (ip_family (bound_ip r)) then Inr []
      else case mdns_lookup_parts dns_name H hostname of
        None \<Rightarrow> Inl (IoError (str ''no DNS record found''))
      | Some (domain, sq) \<Rightarrow>
          (case service_query suffix ask r domain of
             Inl e \<Rightarrow> Inl e
           | Inr records \<Rightarrow>
               Inr (map (\<lambda>endpoint. (mdns_source r, endpoint))
                     (filter (\<lambda>endpoint. endpoint_matches_family addr_of endpoint fam)
                       (selected_endpoint_addrs_for_sequence H records sq)))))"

definition exact_override :: "EndpointLookup \<Rightarrow> CertificateSequence option \<Rightarrow> EndpointLookup" where
  "exact_override lookup sq =
     (case sq of
        None \<Rightarrow> lookup
      | Some s \<Rightarrow>
          let exact = with_family (family lookup) (lookup_exact s)
          in case record_limit lookup of Some n \<Rightarrow> with_record_limit n exact | None \<Rightarrow> exact)"

fun collect_group :: "nat option \<Rightarrow> src_record list \<Rightarrow> Source list \<Rightarrow> DquicEndpointAddr list \<Rightarrow> Source list \<times> DquicEndpointAddr list" where
  "collect_group lim [] srcs eps = (srcs, eps)"
| "collect_group lim ((source, endpoint) # rest) srcs eps =
     collect_group lim rest
       (if source \<notin> set srcs then srcs @ [source] else srcs)
       (if endpoint \<notin> set eps \<and> (case lim of Some n \<Rightarrow> length eps < n | None \<Rightarrow> True)
        then eps @ [endpoint] else eps)"

definition mdns_candidate_groups ::
  "home \<Rightarrow> (DquicEndpointAddr \<Rightarrow> SocketAddr) \<Rightarrow> Source TaggedEndpointCandidate list \<Rightarrow> EndpointLookup \<Rightarrow> EndpointCandidates" where
  "mdns_candidate_groups H addr_of records lookup =
     (let gs = select_group_pairs
                 (filter_endpoint_candidate_groups addr_of (grouped_endpoint_candidates H records) (family lookup))
                 (sequences lookup);
          gs = map (\<lambda>(key, tagged).
                 let (srcs, eps) = collect_group (record_limit lookup) tagged [] []
                 in \<lparr>chain = key, endpoints = eps, sources = srcs\<rparr>) gs
      in \<lparr>groups = filter (\<lambda>group. endpoints group \<noteq> []) gs\<rparr>)"

definition mdns_lookup_candidates ::
  "rstr \<Rightarrow> (rstr \<Rightarrow> bool) \<Rightarrow> home \<Rightarrow> (DquicEndpointAddr \<Rightarrow> SocketAddr) \<Rightarrow>
   (rstr \<Rightarrow> query_error + SocketAddr \<times> EndpointAddr list) \<Rightarrow> MdnsResolver \<Rightarrow> rstr \<Rightarrow> EndpointLookup \<Rightarrow> io_error + EndpointCandidates" where
  "mdns_lookup_candidates suffix dns_name H addr_of ask r name lookup =
     (case mdns_lookup_parts dns_name H name of
        None \<Rightarrow> Inl (IoError (str ''no DNS record found''))
      | Some (domain, sq) \<Rightarrow>
          let lookup = exact_override lookup sq in
          (case service_query suffix ask r domain of
             Inl e \<Rightarrow> Inl e
           | Inr records \<Rightarrow>
               Inr (mdns_candidate_groups H addr_of
                 (map (\<lambda>rec. \<lparr>tag = mdns_source r, tec_record = rec, fallback_chain_key = None\<rparr>) records) lookup)))"


section \<open>The invariant\<close>

definition mdns_ok :: "home \<Rightarrow> MdnsResolver \<Rightarrow> bool" where
  "mdns_ok H r \<longleftrightarrow> valid_service_name (service_name r) \<and> distinct (map fst (hosts r)) \<and>
     list_all (\<lambda>(n, eps). name_fits n \<and> eps \<noteq> [] \<and> list_all (\<lambda>ep. rdata_ok H (RData.E ep)) eps) (hosts r)"

lemma mdns_bind_ok: "mdns_bind sock sname dev addr = Inr r \<Longrightarrow> mdns_ok H r \<and> proto r \<and> service_name r = sname \<and> device r = dev \<and> bound_ip r = addr"
  by (auto simp: mdns_bind_def MdnsResolver_new_def mdns_ok_def split: if_splits option.splits sum.splits)

lemma set_update_alist: "x \<in> set (AList.update k v al) \<Longrightarrow> x = (k, v) \<or> x \<in> set al"
  by (induction al) (auto split: if_splits)

lemma remove_host_ok: "mdns_ok H r \<Longrightarrow> mdns_ok H (remove_host suffix name r)"
  by (auto simp: mdns_ok_def remove_host_def list_all_iff AList.delete_eq distinct_map_filter)

lemma insert_host_ok:
  assumes "mdns_ok H r" and "name_fits (local_name suffix (service_name r) name)" and "eps \<noteq> []"
    and "list_all (\<lambda>ep. rdata_ok H (RData.E ep)) eps"
  shows "mdns_ok H (insert_host suffix name eps r)"
  using assms by (auto simp: mdns_ok_def insert_host_def list_all_iff distinct_update dest!: set_update_alist)

lemma published_records:
  assumes "home_laws H" and "dns_endpoints_for_authority H auth name ds = Inr records" and "list_all dquic_ok ds"
  shows "\<exists>key. extract_chain_key H (certificates auth) = Some key \<and> seq_ok H (key_sequence key) \<and>
    records = map (\<lambda>d. stamp key (the (try_from_dquic d))) ds \<and> list_all (\<lambda>ep. rdata_ok H (RData.E ep)) records"
proof -
  obtain key where key: "extract_chain_key H (certificates auth) = Some key"
    "records = map (\<lambda>d. stamp key (the (try_from_dquic d))) ds"
    using dns_endpoints_for_authority_cases [OF assms(2)] by metis
  have seq: "seq_ok H (key_sequence key)" using home_laws.extract_valid [OF assms(1) key(1)] by (simp add: seq_ok_def)
  then show ?thesis using key stamped_endpoint(1) [OF assms(1)] assms(3) by (auto simp: list_all_iff)
qed

lemma publish_ok:
  assumes "home_laws H" and "mdns_ok H r" and "name_fits (local_name suffix (service_name r) name)" and "list_all dquic_ok ds"
  shows "mdns_ok H (snd (mdns_publish_endpoints suffix valid_name H auth name ds r))"
proof (cases "dns_endpoints_for_authority H auth name ds")
  case (Inr records)
  then have "list_all (\<lambda>ep. rdata_ok H (RData.E ep)) records" using published_records [OF assms(1) Inr assms(4)] by auto
  with assms show ?thesis
    using remove_host_ok insert_host_ok by (simp add: mdns_publish_endpoints_def mdns_remove_name_def Inr del: rdata_ok.simps)
qed (use assms in \<open>simp add: mdns_publish_endpoints_def\<close>)

section \<open>Lemmas on the exchange\<close>

lemma position_Some: "position P xs = Some i \<Longrightarrow> i < length xs \<and> P (xs ! i)"
  by (induction xs arbitrary: i) (auto split: if_splits)

lemma swap_map: "i < length xs \<Longrightarrow> j < length xs \<Longrightarrow> swap i j (map f xs) = map f (swap i j xs)"
  by (simp add: swap_def map_update)

lemma swap_mset: "i < length xs \<Longrightarrow> j < length xs \<Longrightarrow> mset (swap i j xs) = mset xs"
  unfolding swap_def by (rule mset_swap)

lemma contains_refl [simp]: "contains s s"
  by (auto simp: contains_def list_ex_iff intro!: bexI [of _ 0])

lemma answer_header [simp]: "packet_id (answer i hs) = i" "is_query (answer i hs)"
proof -
  have add: "header_id (header (add_answer n t c u d p)) = header_id (header p)"
    "flag_query (flags (header (add_answer n t c u d p)))" for n t c u d p
    by (simp_all add: add_answer_def Let_def flag_query_def set_query_def bit_simps)
  have eps: "header_id (header (fold (\<lambda>ep p. add_answer n Type.E Class.IN 300 (RData.E ep) p) es p)) = header_id (header p)"
    "flag_query (flags (header p)) \<Longrightarrow> flag_query (flags (header (fold (\<lambda>ep p. add_answer n Type.E Class.IN 300 (RData.E ep) p) es p)))" for n es p
    by (induction es arbitrary: p) (simp_all add: add)
  have "header_id (header (fold (\<lambda>(n, eps) p. fold (\<lambda>ep p. add_answer n Type.E Class.IN 300 (RData.E ep) p) eps p) hs p)) = header_id (header p)"
    "flag_query (flags (header p)) \<Longrightarrow>
      flag_query (flags (header (fold (\<lambda>(n, eps) p. fold (\<lambda>ep p. add_answer n Type.E Class.IN 300 (RData.E ep) p) eps p) hs p)))" for p
    by (induction hs arbitrary: p) (auto simp: eps)
  then show "packet_id (answer i hs) = i" "is_query (answer i hs)"
    by (simp_all add: answer_def Let_def packet_id_def is_query_def flag_query_def set_query_def bit_simps)
qed

lemma answers_answer: "answers (answer i hs) = answer_records hs"
  by (simp add: answer_def Let_def answer_fold Packet_default_def)

lemma records_for_answer:
  assumes "distinct (map fst hs)" and "(n, eps) \<in> set hs"
  shows "records_for n (answer i hs) = eps"
proof -
  have one: "List.map_filter (\<lambda>rr. case rdata rr of RData.E e \<Rightarrow> Some e | _ \<Rightarrow> None)
       (filter (\<lambda>rr. rr_name rr = n) (answer_records [(m, es)])) = (if m = n then es else [])" for m es
    by (induction es) (auto simp: answer_records_def List.map_filter_simps)
  have cons: "answer_records (h # hs) = answer_records [h] @ answer_records hs" for h hs
    by (simp add: answer_records_def)
  have app: "List.map_filter f (xs @ ys) = List.map_filter f xs @ List.map_filter f ys" for f :: "ResourceRecord \<Rightarrow> EndpointAddr option" and xs ys
    by (simp add: List.map_filter_def)
  have none: "n \<notin> fst ` set hs \<Longrightarrow> List.map_filter (\<lambda>rr. case rdata rr of RData.E e \<Rightarrow> Some e | _ \<Rightarrow> None)
       (filter (\<lambda>rr. rr_name rr = n) (answer_records hs)) = []" for hs
  proof (induction hs)
    case (Cons h hs)
    obtain m es where "h = (m, es)" by (cases h)
    with Cons show ?case by (auto simp: cons [of "(m, es)" hs] app one)
  qed (simp add: answer_records_def List.map_filter_simps)
  from assms show ?thesis unfolding records_for_def answers_answer
  proof (induction hs)
    case (Cons h hs)
    obtain m es where "h = (m, es)" by (cases h)
    with Cons none [of hs] show ?case by (force simp: cons [of "(m, es)" hs] app one)
  qed simp
qed

lemma query_with_id_fields [simp]:
  "packet_id (query_with_id i n) = i" "questions (query_with_id i n) =
     [\<lparr>q_name = n, prefer_unicast = False, qtype = QueryType.A, qclass = QueryClass.IN\<rparr>]"
  by (simp_all add: query_with_id_def add_question_def Packet_default_def packet_id_def Let_def)

lemma query_with_id_query [simp]: "\<not> is_query (query_with_id i n)"
  by (simp add: query_with_id_def add_question_def is_query_def Let_def flag_query_def set_query_def bit_simps)

lemma query_with_id_ok: "name_fits n \<Longrightarrow> packet_ok H (query_with_id i n)"
  unfolding query_with_id_def Let_def
  by (intro add_question_ok) (simp_all add: packet_ok_def Packet_default_def Header_default_def)

lemma receive_one:
  "length bs \<le> MAX_MDNS_DNS_MESSAGE_LEN \<Longrightarrow> be_packet C H bs = Inr (x, p) \<Longrightarrow>
   mdns_receive C H ((src, bs) # rest) = Some ((src, p), rest)"
  by (simp add: min_def)

text \<open>A name under the service is its own local name: it ends in \<^verbatim>\<open>.local\<close> and not in the DHTTP suffix.\<close>

lemma local_name_service:
  assumes "suffix = str ''.dhttp.net''" and "valid_service_name sname"
  shows "local_name suffix sname (p @ dot # sname) = p @ dot # sname"
proof -
  have "ascii_lower (last sname) = 108 \<and> sname \<noteq> []"
  proof -
    obtain r where r: "to_ascii_lowercase sname = r @ str ''.local''"
      using assms(2) by (auto simp: valid_service_name_def ends_with_iff)
    then have "last (to_ascii_lowercase sname) = 108" "sname \<noteq> []" by (auto simp: str_def to_ascii_lowercase_def)
    then show ?thesis by (simp add: to_ascii_lowercase_def last_map)
  qed
  then have "strip_suffix suffix (p @ dot # sname) \<noteq> Some q" for q
    by (auto simp: strip_suffix_Some assms(1) str_def ascii_lower_def dest!: arg_cong [of _ _ last])
  then show ?thesis by (simp add: local_name_def option.case_eq_if)
qed


text \<open>What a lookup makes of an answer that lists the records of its name: they come back with the record
  at the address of the responder first.\<close>

lemma service_query_answer:
  assumes "proto q" and "to_ascii_lowercase (trim_end_matches dot domain) = name" and "rnd \<noteq> 0" and "ds \<noteq> []"
    and "records_for (local_name suffix (service_name q) name) ans = map f ds" and "wait 0 = Some (src, ans)"
  shows "\<exists>ds'. mset ds' = mset ds \<and> service_query suffix (mdns_query True rnd wait) q domain = Inr (map f ds') \<and>
    (list_ex (\<lambda>d. addr_ip (primary (f d)) = addr_ip src) ds \<longrightarrow> addr_ip (primary (f (List.hd ds'))) = addr_ip src)"
proof -
  have ask: "mdns_query True rnd wait (local_name suffix (service_name q) name) = Inr (src, map f ds)"
    using assms(3-6) by (simp add: mdns_query_def upt_rec numeral_nat)
  let ?P = "\<lambda>ep. addr_ip (primary ep) = addr_ip src"
  show ?thesis
  proof (cases "position ?P (map f ds)")
    case None
    then have "\<not> list_ex (\<lambda>d. ?P (f d)) ds" by (induction ds) (auto split: if_splits)
    with None show ?thesis using assms(1,4) ask
      by (intro exI [of _ ds]) (simp add: service_query_def Let_def assms(2))
  next
    case (Some i)
    note i = position_Some [OF Some]
    have "List.hd (swap 0 i ds) = ds ! i" using i assms(4) by (cases ds; cases i) (auto simp: swap_def)
    then show ?thesis using Some i assms(1,4) ask swap_map [of 0 ds i f] swap_mset [of 0 ds i]
      by (intro exI [of _ "swap 0 i ds"]) (auto simp: service_query_def Let_def assms(2))
  qed
qed

lemma responder_answers:
  assumes "(name, eps) \<in> set entries" and "local_name suffix sname name = name"
  shows "respond suffix sname entries (query_with_id rnd name) = Some (answer rnd entries)"
  using assms by (auto simp: respond_def list_ex_iff intro!: bexI [of _ "(name, eps)"])

lemma stamped_selected:
  assumes "home_laws H" and "list_all dquic_ok ds" and "seq_ok H (key_sequence key)"
  shows "selected_endpoint_addrs_for_sequence H (map (\<lambda>d. stamp key (the (try_from_dquic d))) ds) (Some (key_sequence key)) = ds"
  using map_filter_contribution_stamp [OF assms, of "()" None]
  by (simp add: selected_endpoint_addrs_for_sequence_def selected_endpoint_records_for_sequence_def
      selected_records_spec [OF assms(1)] comp_def values_of_def)

text \<open>A message that stands in the datagrams after others that do not concern the query is what its stream yields first.\<close>

lemma registered_delivery:
  assumes "router_ok rt" and "queries rt (packet_id p) = Some ch" and "channels rt ! ch = []" and "is_query p"
    and "length bs \<le> MAX_MDNS_DNS_MESSAGE_LEN" and "be_packet C H bs = Inr (x, p)"
    and "response_messages (packet_id p) (received C H before) = []"
  shows "\<exists>rt'. next_response ch (route C H (before @ (src, bs) # after) rt) = Some ((src, p), rt')"
proof -
  have "channels (route C H (before @ (src, bs) # after) rt) ! ch =
      oldest (response_messages (packet_id p) (received C H (before @ (src, bs) # after)))"
    using deliver_all [OF assms(1,2)] by (simp add: route_delivers assms(3))
  moreover have "received C H (before @ (src, bs) # after) = received C H before @ (src, p) # received C H after"
    using assms(5,6) by (simp add: received_def List.map_filter_def)
  ultimately have "channels (route C H (before @ (src, bs) # after) rt) ! ch = oldest ((src, p) # response_messages (packet_id p) (received C H after))"
    using assms(4,7) by (simp add: response_messages_def)
  then show ?thesis by (simp add: next_response_def oldest_def MAX_DEQUE_SIZE_def)
qed

lemma responder_turn_answers:
  assumes "router_ok rr" and "requests rr = []" and "length bs \<le> MAX_MDNS_DNS_MESSAGE_LEN" and "be_packet C H bs = Inr (x, question)"
    and "\<not> is_query question" and "respond suffix sname entries question = Some reply" and "broadcast_packet C ip reply = Some (dst, abytes)"
  shows "responder_turn C H suffix ip sname entries [(src, bs)] rr = Some abytes"
proof -
  have "mdns_receive C H [(src, bs)] = Some ((src, question), [])" using receive_one [OF assms(3,4)] .
  then have "requests (route C H [(src, bs)] rr) = [(src, question)]"
    using assms(1,2,5) by (simp add: route.simps deliver_requests newest_short MAX_DEQUE_SIZE_def)
  then show ?thesis using assms(6,7) by (simp add: responder_turn_def receive_query_def)
qed

text \<open>What a publication leaves in the host table, in whatever order it is listed.\<close>

lemma published_entry:
  assumes "home_laws H" and "mdns_ok H r" and "mdns_publish_endpoints suffix valid_name H auth name ds r = (Inr (), r')"
    and "extract_chain_key H (certificates auth) = Some key" and "ds \<noteq> []" and "list_all dquic_ok ds"
    and "name = p @ suffix" and "name_fits (p @ dot # service_name r)" and "mset entries = mset (hosts r')"
  shows "mdns_ok H r'" and "service_name r' = service_name r" and "seq_ok H (key_sequence key)" and "distinct (map fst entries)"
    and "set entries = set (hosts r')" and "(p @ dot # service_name r, map (\<lambda>d. stamp key (the (try_from_dquic d))) ds) \<in> set entries"
proof -
  let ?n = "p @ dot # service_name r" and ?st = "\<lambda>d. stamp key (the (try_from_dquic d))"
  have local: "local_name suffix (service_name r) name = ?n" by (simp add: local_name_def assms(7))
  obtain records where enc: "dns_endpoints_for_authority H auth name ds = Inr records"
    using assms(3) by (auto simp: mdns_publish_endpoints_def split: if_splits sum.splits)
  show "seq_ok H (key_sequence key)" using published_records [OF assms(1) enc assms(6)] assms(4) by auto
  have records: "records = map ?st ds" using published_records [OF assms(1) enc assms(6)] assms(4) by auto
  have r': "r' = insert_host suffix name records r"
    using assms(3,5) by (auto simp: mdns_publish_endpoints_def enc records split: if_splits)
  then show "service_name r' = service_name r" by (simp add: insert_host_def)
  show ok: "mdns_ok H r'"
    using publish_ok [OF assms(1,2) _ assms(6), of suffix name valid_name auth] assms(3,8) by (simp add: local)
  show sets: "set entries = set (hosts r')" by (rule mset_eq_setD [OF assms(9)])
  show "distinct (map fst entries)"
    using ok mset_eq_imp_distinct_iff [of "map fst entries" "map fst (hosts r')"] assms(9) by (simp add: mdns_ok_def)
  show "(?n, map ?st ds) \<in> set entries"
    unfolding sets r' using map_of_SomeD [of "AList.update ?n records (hosts r)" ?n records]
    by (simp add: insert_host_def local update_conv records)
qed

text \<open>A lookup whose first response holds stamped endpoints for its name returns these.\<close>

lemma answered_lookup:
  assumes "home_laws H" and "proto q" and "rnd \<noteq> 0" and "ds \<noteq> []" and "list_all dquic_ok ds" and "seq_ok H (key_sequence key)"
    and "to_ascii_lowercase (trim_end_matches dot name) = name"
    and "records_for (local_name suffix (service_name q) name) ans = map (\<lambda>d. stamp key (the (try_from_dquic d))) ds"
    and "mdns_lookup_parts dns_name H hostname = Some (name, Some (key_sequence key))" and "wait 0 = Some (src, ans)"
  shows "\<exists>ds'. mset ds' = mset ds \<and>
    mdns_lookup suffix dns_name H addr_of (mdns_query True rnd wait) q hostname None = Inr (map (Pair (mdns_source q)) ds')"
proof -
  from service_query_answer [where wait = wait, OF assms(2,7,3,4,8,10)] obtain ds' where ds': "mset ds' = mset ds"
    "service_query suffix (mdns_query True rnd wait) q name = Inr (map (\<lambda>d. stamp key (the (try_from_dquic d))) ds')" by blast
  have "list_all dquic_ok ds'" using assms(5) mset_eq_setD [OF ds'(1)] by (simp add: list_all_iff)
  from stamped_selected [OF assms(1) this assms(6)]
  have "mdns_lookup suffix dns_name H addr_of (mdns_query True rnd wait) q hostname None = Inr (map (Pair (mdns_source q)) ds')"
    by (simp add: mdns_lookup_def assms(9) ds'(2) endpoint_matches_family_def)
  with ds'(1) show ?thesis by blast
qed

section \<open>Properties\<close>

text \<open>C5: Publication and query agree over multicast. An authority publishes endpoints for its name with one resolver,
  and a second resolver of the same service asks for that name. When the datagram of the question reaches the first
  resolver, its responder answers with a datagram; when that one, if it fits, reaches the second resolver among any
  others, of which the earlier ones do not answer this query, the lookup returns the published endpoints, all
  of them and nothing else, tagged with its interface. The whole way is covered: question, datagram,
  router, responder, answer, datagram, router, lookup and selection. The endpoints are such as a record can hold: an
  IPv6 address has no flow information and no scope.\<close>

theorem mdns_publish_then_lookup:
  assumes "codec_laws C" and "home_laws H" and "suffix = str ''.dhttp.net''"
    and "mdns_ok H r" and "mdns_publish_endpoints suffix valid_name H auth name ds r = (Inr (), r')"
    and "extract_chain_key H (certificates auth) = Some key" and "ds \<noteq> []" and "list_all dquic_ok ds"
    and "name = p @ suffix" and "to_ascii_lowercase name = name" and "name_fits (p @ dot # service_name r)"
    and "mset entries = mset (hosts r')" and "length (answer_records entries) \<le> 65535"
    and "service_name q = service_name r" and "proto q" and "rnd \<noteq> 0"
    and "mdns_lookup_parts dns_name H hostname = Some (name, Some (key_sequence key))"
    and "broadcast_packet C ip (query_with_id rnd (local_name suffix (service_name q) name)) = Some (dst, qbytes)"
    and "length qbytes \<le> MAX_MDNS_DNS_MESSAGE_LEN"
    and "router_step\<^sup>*\<^sup>* PacketRouter_new rr" and "requests rr = []"
    and "router_step\<^sup>*\<^sup>* PacketRouter_new rt" and "queries rt rnd = Some ch" and "channels rt ! ch = []"
    and "response_messages rnd (received C H before) = []"
  shows "\<exists>abytes. responder_turn C H suffix ip' (service_name r') entries [(src, qbytes)] rr = Some abytes \<and>
    to_bytes C (answer rnd entries) = Some abytes \<and>
    (length abytes \<le> MAX_MDNS_DNS_MESSAGE_LEN \<longrightarrow>
      (\<forall>wait. wait 0 = map_option fst (next_response ch (route C H (before @ (src', abytes) # after) rt)) \<longrightarrow>
        (\<exists>ds'. mset ds' = mset ds \<and>
          mdns_lookup suffix dns_name H addr_of (mdns_query True rnd wait) q hostname None = Inr (map (Pair (mdns_source q)) ds'))))"
proof -
  let ?n = "p @ dot # service_name r"
  note pub = published_entry [OF assms(2,4-9,11,12)]
  have local: "local_name suffix (service_name q) name = ?n" by (simp add: local_name_def assms(9,14))
  have sv: "valid_service_name (service_name r)" using assms(4) by (simp add: mdns_ok_def)
  have resp: "respond suffix (service_name r') entries (query_with_id rnd ?n) = Some (answer rnd entries)"
    using responder_answers [OF pub(6)] local_name_service [OF assms(3) sv, of p] by (simp add: pub(2))
  have q1: "be_packet C H qbytes = Inr ([], query_with_id rnd ?n)"
    using codec_laws.packet_reads_back [OF assms(1) _ query_with_id_ok [OF assms(11)], of rnd qbytes H "[]"] assms(18)
    by (auto simp: broadcast_packet_def local)
  obtain abytes where a: "to_bytes C (answer rnd entries) = Some abytes" "be_packet C H abytes = Inr ([], answer rnd entries)"
    using answer_reads_back [OF assms(1,13), of H rnd] pub(1,5) by (fastforce simp: mdns_ok_def list_all_iff)
  then obtain dst' where a': "broadcast_packet C ip' (answer rnd entries) = Some (dst', abytes)" by (simp add: broadcast_packet_def)
  have turn: "responder_turn C H suffix ip' (service_name r') entries [(src, qbytes)] rr = Some abytes"
    by (rule responder_turn_answers [OF router_reachable_ok [OF assms(20)] assms(21,19) q1 _ resp a']) simp
  have trim: "to_ascii_lowercase (trim_end_matches dot name) = name"
    using assms(10) by (simp add: assms(3,9) trim_end_matches_def str_def)
  have records: "records_for (local_name suffix (service_name q) name) (answer rnd entries) = map (\<lambda>d. stamp key (the (try_from_dquic d))) ds"
    unfolding local by (rule records_for_answer [OF pub(4,6)])
  have "\<exists>rt'. next_response ch (route C H (before @ (src', abytes) # after) rt) = Some ((src', answer rnd entries), rt')"
    if "length abytes \<le> MAX_MDNS_DNS_MESSAGE_LEN"
    by (rule registered_delivery [OF router_reachable_ok [OF assms(22)] _ assms(24) _ that a(2)]) (simp_all add: assms(23,25))
  then show ?thesis
    using turn a(1) answered_lookup [OF assms(2,15,16,7,8) pub(3) trim records assms(17)] by fastforce
qed

definition demo_service :: rstr where "demo_service = str ''_x.local''"
definition demo_host :: rstr where "demo_host = str ''a.dhttp.net''"

definition demo_mdns :: MdnsResolver where
  "demo_mdns = \<lparr>service_name = demo_service, device = str ''lo'', bound_ip = IpV4 1, hosts = [], proto = True\<rparr>"

definition demo_mdns_authority :: authority where
  "demo_mdns_authority = ref_authority\<lparr>authority_name := demo_host\<rparr>"

definition demo_mdns_query :: Packet where
  "demo_mdns_query = query_with_id 7 (str ''a'' @ dot # demo_service)"

lemma demo_mdns_query_bytes: "\<exists>bs. to_bytes ref_codec demo_mdns_query = Some bs \<and> length bs \<le> 100"
proof -
  have "length (the (to_bytes ref_codec demo_mdns_query)) = 28" by code_simp
  then show ?thesis using refc.to_bytes_total [of demo_mdns_query] by auto
qed


lemma demo_mdns_ok: "mdns_ok ref_home demo_mdns"
  by (simp add: mdns_ok_def demo_mdns_def) code_simp

lemma demo_mdns_fits: "name_fits (str ''a'' @ dot # demo_service)"
  by code_simp

definition demo_mdns_published :: "DquicEndpointAddr list" where
  "demo_mdns_published = [Direct (V4 (SocketAddrV4 1 2)), Direct (V4 (SocketAddrV4 5 6))]"

definition demo_mdns_key :: CertificateChainKey where
  "demo_mdns_key = \<lparr>key_sequence = 1, key_usage = ClientAndServer\<rparr>"

definition demo_mdns_hosts :: "(rstr \<times> EndpointAddr list) list" where
  "demo_mdns_hosts = [(str ''a'' @ dot # demo_service, map (\<lambda>d. stamp demo_mdns_key (the (try_from_dquic d))) demo_mdns_published)]"

lemma demo_mdns_published_ok: "list_all dquic_ok demo_mdns_published" "demo_mdns_published \<noteq> []"
  by (simp_all add: demo_mdns_published_def dquic_ok_def direct_v4_def addr_ok_def is_ipv6_def FLAG_defs)

lemma demo_mdns_authority_key: "extract_chain_key ref_home (certificates demo_mdns_authority) = Some demo_mdns_key"
  by (simp add: demo_mdns_authority_def ref_home_def ref_authority_def demo_mdns_key_def)

lemma demo_mdns_publication:
  "mdns_publish_endpoints (str ''.dhttp.net'') (\<lambda>_. True) ref_home demo_mdns_authority demo_host demo_mdns_published demo_mdns =
     (Inr (), demo_mdns\<lparr>hosts := demo_mdns_hosts\<rparr>)"
proof -
  have "\<exists>eps. dns_endpoints_for_authority ref_home demo_mdns_authority demo_host demo_mdns_published = Inr eps"
    using demo_mdns_authority_key refh.is_primary_iff
    by (simp add: dns_endpoints_for_authority_def encode_endpoints_spec demo_mdns_published_def demo_mdns_authority_def demo_mdns_key_def)
  then obtain eps where e: "dns_endpoints_for_authority ref_home demo_mdns_authority demo_host demo_mdns_published = Inr eps" by blast
  from published_records [OF refh.home_laws_axioms e demo_mdns_published_ok(1)]
  have "eps = map (\<lambda>d. stamp demo_mdns_key (the (try_from_dquic d))) demo_mdns_published"
    using demo_mdns_authority_key by auto
  moreover have "local_name (str ''.dhttp.net'') demo_service demo_host = str ''a'' @ dot # demo_service" by code_simp
  ultimately show ?thesis
    using e by (simp add: mdns_publish_endpoints_def insert_host_def demo_mdns_def demo_mdns_authority_def demo_mdns_hosts_def demo_mdns_published_def)
qed

lemma demo_answer_bytes: "length (the (to_bytes ref_codec (answer 7 demo_mdns_hosts))) \<le> 100"
  by code_simp

lemma demo_mdns_parts: "mdns_lookup_parts (\<lambda>_. True) ref_home (str ''a.dhttp.net:1'') = Some (demo_host, Some 1)"
proof -
  have split: "rsplit_once colon (str ''a.dhttp.net:1'') = Some (demo_host, str ''1'')" "rsplit_once colon demo_host = None"
    by code_simp+
  have rest: "all_digits (str ''1'')" "strip_suffix [dot] demo_host = None" "ends_with (str ''.dhttp.net'') (to_ascii_lowercase demo_host)"
    by code_simp+
  have "parse_u64 (str ''1'') = Some 1" by (simp add: parse_u64_def digits_value_def is_ascii_digit_def str_def)
  moreover have "seq_try_from_u64 ref_home 1 = Some 1" by (simp add: ref_home_def)
  ultimately show ?thesis
    by (simp add: mdns_lookup_parts_def authority_host_def endpoint_lookup_name_and_sequence_def resolvable_name_def split rest)
qed

text \<open>Among the datagrams is one that is no packet at all.\<close>

theorem mdns_publish_then_lookup_witness:
  "\<exists>qbytes abytes rt ds'. map_option snd (broadcast_packet ref_codec (IpV4 1) demo_mdns_query) = Some qbytes \<and>
     responder_turn ref_codec ref_home (str ''.dhttp.net'') (IpV4 1) demo_service demo_mdns_hosts
       [(V4 (SocketAddrV4 9 5353), qbytes)] PacketRouter_new = Some abytes \<and>
     rt = route ref_codec ref_home [(V4 (SocketAddrV4 3 5353), [1, 2]), (V4 (SocketAddrV4 5 5353), abytes)] (snd (register_query 7 PacketRouter_new)) \<and>
     mset ds' = mset demo_mdns_published \<and>
     mdns_lookup (str ''.dhttp.net'') (\<lambda>_. True) ref_home med_outer (mdns_query True 7 (\<lambda>_. map_option fst (next_response 0 rt)))
       demo_mdns (str ''a.dhttp.net:1'') None = Inr (map (Pair (mdns_source demo_mdns)) ds')"
proof -
  have host: "demo_host = str ''a'' @ str ''.dhttp.net''" "to_ascii_lowercase demo_host = demo_host" by code_simp+
  have sname: "service_name demo_mdns = demo_service" "proto demo_mdns" by (simp_all add: demo_mdns_def)
  have fits: "name_fits (str ''a'' @ dot # service_name demo_mdns)" using demo_mdns_fits by (simp add: sname)
  have "local_name (str ''.dhttp.net'') demo_service demo_host = str ''a'' @ dot # demo_service" by code_simp
  then obtain bs dst where bs: "broadcast_packet ref_codec (IpV4 1) (query_with_id 7 (local_name (str ''.dhttp.net'') (service_name demo_mdns) demo_host)) = Some (dst, bs)"
      "length bs \<le> MAX_MDNS_DNS_MESSAGE_LEN" "broadcast_packet ref_codec (IpV4 1) demo_mdns_query = Some (dst, bs)"
    using demo_mdns_query_bytes by (auto simp: broadcast_packet_def MAX_MDNS_DNS_MESSAGE_LEN_def demo_mdns_query_def sname)
  let ?rt = "snd (register_query 7 PacketRouter_new)" and ?r' = "demo_mdns\<lparr>hosts := demo_mdns_hosts\<rparr>"
  let ?b = "[(V4 (SocketAddrV4 3 5353), [1, 2])] :: (SocketAddr \<times> bytes) list"
  have rt: "router_step\<^sup>*\<^sup>* PacketRouter_new ?rt" "queries ?rt 7 = Some 0" "channels ?rt ! 0 = []" "requests PacketRouter_new = []"
    by (intro r_into_rtranclp step_register) (simp_all add: register_query_def PacketRouter_new_def)
  have parts: "mdns_lookup_parts (\<lambda>_. True) ref_home (str ''a.dhttp.net:1'') = Some (demo_host, Some (key_sequence demo_mdns_key))"
    using demo_mdns_parts by (simp add: demo_mdns_key_def)
  have entries: "mset demo_mdns_hosts = mset (hosts ?r')" "length (answer_records demo_mdns_hosts) \<le> 65535"
    by (simp_all add: demo_mdns_hosts_def answer_records_def demo_mdns_published_def)
  have "isl (be_packet ref_codec ref_home [1, 2])"
  proof (cases "be_header ref_codec [1, 2]")
    case (Inr x)
    then have "length [1, 2 :: u8] = length (header_bytes (snd x) @ fst x)" using refc.be_header_iff [of "[1, 2]" "fst x" "snd x"] by simp
    then show ?thesis by simp
  qed (simp add: be_packet_def)
  then have before: "response_messages 7 (received ref_codec ref_home ?b) = []"
    by (auto simp: isl_def received_def List.map_filter_simps MAX_MDNS_DNS_MESSAGE_LEN_def response_messages_def)
  have "(7::u16) \<noteq> 0" by simp
  note lookup = mdns_publish_then_lookup [where ip' = "IpV4 1" and src = "V4 (SocketAddrV4 9 5353)" and src' = "V4 (SocketAddrV4 5 5353)"
      and after = "[]" and addr_of = med_outer,
      OF refc.codec_laws_axioms refh.home_laws_axioms refl demo_mdns_ok demo_mdns_publication demo_mdns_authority_key
        demo_mdns_published_ok(2,1) host fits entries refl sname(2) this parts bs(1,2) rtranclp.rtrancl_refl rt(4,1,2,3) before]
  then obtain abytes where a: "responder_turn ref_codec ref_home (str ''.dhttp.net'') (IpV4 1) (service_name ?r') demo_mdns_hosts
      [(V4 (SocketAddrV4 9 5353), bs)] PacketRouter_new = Some abytes" "to_bytes ref_codec (answer 7 demo_mdns_hosts) = Some abytes" by blast
  have "length abytes \<le> MAX_MDNS_DNS_MESSAGE_LEN" using demo_answer_bytes a(2) by (simp add: MAX_MDNS_DNS_MESSAGE_LEN_def)
  with lookup a obtain ds' where "mset ds' = mset demo_mdns_published"
    "mdns_lookup (str ''.dhttp.net'') (\<lambda>_. True) ref_home med_outer (mdns_query True 7 (\<lambda>_. map_option fst (next_response 0
        (route ref_codec ref_home (?b @ [(V4 (SocketAddrV4 5 5353), abytes)]) ?rt))))
       demo_mdns (str ''a.dhttp.net:1'') None = Inr (map (Pair (mdns_source demo_mdns)) ds')"
    by (metis option.inject)
  moreover have "service_name ?r' = demo_service" by (simp add: sname)
  ultimately show ?thesis using a(1) bs(3) by (intro exI conjI) simp_all
qed

end
