(* ===== verification/MdnsSet.thy ===== *)
theory MdnsSet
  imports MdnsService
begin

text \<open>
  The set of multicast resolvers (\<^verbatim>\<open>MdnsResolverSet\<close> in \<^verbatim>\<open>src/mdns.rs\<close>): one resolver per binding of a
  device and an address, kept in step with the bindings that are active, and the lookups over all of
  them. Resolvers are shared by reference: the set maps a binding to the number of an instance, and
  the instances are a list that only grows. The code's critical sections are definitions of their own;
  the operations compose them, and \<open>set_step\<close> interleaves those of concurrent callers in any order.
  Arguments stand for what the environment decides: \<open>sock\<close> whether a socket can be opened, \<open>joins\<close> how
  the tasks of an instance end.
\<close>

datatype MdnsBinding = MdnsBinding (binding_device: rstr) (binding_ip: IpAddr)

datatype MdnsReconcileError = BindFailed MdnsBinding MdnsBindError | RemoveFailed MdnsBinding MdnsShutdownError

record MdnsResolverSet =
  set_service_name :: rstr
  set_resolvers :: "(MdnsBinding \<times> nat) list"
  closed :: bool
  instances :: "MdnsResolver list"

type_synonym sockets = "rstr \<Rightarrow> IpAddr \<Rightarrow> io_error option"

definition MdnsResolverSet_new :: "rstr \<Rightarrow> MdnsResolverSet" where
  "MdnsResolverSet_new sname = \<lparr>set_service_name = sname, set_resolvers = [], closed = False, instances = []\<rparr>"

definition binding_of :: "MdnsResolver \<Rightarrow> MdnsBinding" where
  "binding_of r = MdnsBinding (device r) (bound_ip r)"

definition shutdown_instance :: "join_result list \<Rightarrow> nat \<Rightarrow> MdnsResolverSet \<Rightarrow> (MdnsShutdownError + unit) \<times> MdnsResolverSet" where
  "shutdown_instance joined i s =
     (let (result, r) = mdns_shutdown joined (instances s ! i) in (result, s\<lparr>instances := (instances s)[i := r]\<rparr>))"

section \<open>Insertion\<close>

text \<open>The checks before a socket is opened; \<open>None\<close> goes on to bind.\<close>

definition upsert_check :: "MdnsBinding \<Rightarrow> MdnsResolverSet \<Rightarrow> (MdnsBindError + nat) option" where
  "upsert_check b s =
     (if closed s then Some (Inl Closed)
      else case map_of (set_resolvers s) b of Some i \<Rightarrow> Some (Inr i) | None \<Rightarrow> None)"

definition upsert_bind :: "sockets \<Rightarrow> MdnsBinding \<Rightarrow> MdnsResolverSet \<Rightarrow> MdnsBindError + nat \<times> MdnsResolverSet" where
  "upsert_bind sock b s =
     (case mdns_bind sock (set_service_name s) (binding_device b) (binding_ip b) of
        Inl e \<Rightarrow> Inl e
      | Inr r \<Rightarrow> Inr (length (instances s), s\<lparr>instances := instances s @ [r]\<rparr>))"

datatype Race = RaceClosed | RaceExisting nat

text \<open>The section under the write lock; \<open>None\<close> when the candidate was inserted.\<close>

definition upsert_commit :: "MdnsBinding \<Rightarrow> nat \<Rightarrow> MdnsResolverSet \<Rightarrow> Race option \<times> MdnsResolverSet" where
  "upsert_commit b candidate s =
     (if closed s then (Some RaceClosed, s)
      else case map_of (set_resolvers s) b of
        Some existing \<Rightarrow> (Some (RaceExisting existing), s)
      | None \<Rightarrow> (None, s\<lparr>set_resolvers := AList.update b candidate (set_resolvers s)\<rparr>))"

definition upsert_finish :: "(nat \<Rightarrow> join_result list) \<Rightarrow> MdnsBinding \<Rightarrow> nat \<Rightarrow> Race option \<Rightarrow> MdnsResolverSet \<Rightarrow>
    (MdnsBindError + nat) \<times> MdnsResolverSet" where
  "upsert_finish joins b candidate race s =
     (case race of
        None \<Rightarrow> (Inr candidate, s)
      | Some race \<Rightarrow>
          (case shutdown_instance (joins candidate) candidate s of
             (Inl e, s) \<Rightarrow> (Inl (Bind (binding_device b) (binding_ip b) (IoError (str ''mDNS task failed''))), s)
           | (Inr _, s) \<Rightarrow>
               (case race of RaceClosed \<Rightarrow> (Inl Closed, s) | RaceExisting existing \<Rightarrow> (Inr existing, s))))"

definition upsert :: "sockets \<Rightarrow> (nat \<Rightarrow> join_result list) \<Rightarrow> MdnsBinding \<Rightarrow> MdnsResolverSet \<Rightarrow>
    (MdnsBindError + nat) \<times> MdnsResolverSet" where
  "upsert sock joins b s =
     (case upsert_check b s of
        Some result \<Rightarrow> (result, s)
      | None \<Rightarrow>
          (case upsert_bind sock b s of
             Inl e \<Rightarrow> (Inl e, s)
           | Inr (candidate, s) \<Rightarrow>
               let (race, s) = upsert_commit b candidate s in upsert_finish joins b candidate race s))"

section \<open>Removal and reconciliation\<close>

definition remove_entry :: "MdnsBinding \<Rightarrow> MdnsResolverSet \<Rightarrow> nat option \<times> MdnsResolverSet" where
  "remove_entry b s =
     (map_of (set_resolvers s) b, s\<lparr>set_resolvers := AList.delete b (set_resolvers s)\<rparr>)"

definition set_remove :: "(nat \<Rightarrow> join_result list) \<Rightarrow> MdnsBinding \<Rightarrow> MdnsResolverSet \<Rightarrow>
    (MdnsShutdownError + bool) \<times> MdnsResolverSet" where
  "set_remove joins b s =
     (case remove_entry b s of
        (None, s) \<Rightarrow> (Inr False, s)
      | (Some i, s) \<Rightarrow>
          (case shutdown_instance (joins i) i s of
             (Inl e, s) \<Rightarrow> (Inl e, s)
           | (Inr _, s) \<Rightarrow> (Inr True, s)))"

definition snapshot :: "MdnsResolverSet \<Rightarrow> nat list" where
  "snapshot s = map snd (set_resolvers s)"

fun retire_loop :: "(nat \<Rightarrow> join_result list) \<Rightarrow> MdnsBinding list \<Rightarrow> nat list \<Rightarrow> MdnsResolverSet \<Rightarrow> MdnsReconcileError list \<Rightarrow>
    MdnsReconcileError list \<times> MdnsResolverSet" where
  "retire_loop joins desired [] s errors = (errors, s)"
| "retire_loop joins desired (i # rest) s errors =
     (let b = binding_of (instances s ! i) in
      if b \<notin> set desired then
        (case set_remove joins b s of
           (Inl e, s) \<Rightarrow> retire_loop joins desired rest s (errors @ [RemoveFailed b e])
         | (Inr _, s) \<Rightarrow> retire_loop joins desired rest s errors)
      else retire_loop joins desired rest s errors)"

fun upsert_loop :: "sockets \<Rightarrow> (nat \<Rightarrow> join_result list) \<Rightarrow> MdnsBinding list \<Rightarrow> MdnsResolverSet \<Rightarrow> MdnsReconcileError list \<Rightarrow>
    MdnsReconcileError list \<times> MdnsResolverSet" where
  "upsert_loop sock joins [] s errors = (errors, s)"
| "upsert_loop sock joins (b # rest) s errors =
     (case upsert sock joins b s of
        (Inl e, s) \<Rightarrow> upsert_loop sock joins rest s (errors @ [BindFailed b e])
      | (Inr _, s) \<Rightarrow> upsert_loop sock joins rest s errors)"

text \<open>\<open>desired\<close> is the hash set of the bindings, in the order of its iterator and so without repetition.\<close>

definition reconcile :: "sockets \<Rightarrow> (nat \<Rightarrow> join_result list) \<Rightarrow> MdnsBinding list \<Rightarrow> MdnsResolverSet \<Rightarrow>
    MdnsReconcileError list \<times> MdnsResolverSet" where
  "reconcile sock joins desired s =
     (let (errors, s) = retire_loop joins desired (snapshot s) s [] in upsert_loop sock joins desired s errors)"

text \<open>One tick of the maintenance task: what other callers did to the set since the last one, what the
  caller's snapshot of bindings gives, and the outcomes for this reconciliation.\<close>

record tick =
  interference :: "MdnsResolverSet \<Rightarrow> MdnsResolverSet"
  bindings :: "io_error + MdnsBinding list"
  tick_sock :: sockets
  tick_joins :: "nat \<Rightarrow> join_result list"

text \<open>The set after the ticks and whether the task is still running.\<close>

fun maintain_loop :: "tick list \<Rightarrow> MdnsResolverSet \<Rightarrow> MdnsResolverSet \<times> bool" where
  "maintain_loop [] s = (s, True)"
| "maintain_loop (t # ts) s =
     (let s = interference t s in
      if closed s then (s, False)
      else maintain_loop ts
        (case bindings t of Inr bs \<Rightarrow> snd (reconcile (tick_sock t) (tick_joins t) bs s) | Inl _ \<Rightarrow> s))"

definition maintain :: "nat \<Rightarrow> tick \<Rightarrow> tick list \<Rightarrow> MdnsResolverSet \<Rightarrow> (io_error + bool) \<times> MdnsResolverSet" where
  "maintain period first ticks s =
     (if period = 0 then (Inl (IoError (str ''maintenance interval is zero'')), s)
      else case bindings first of
        Inl e \<Rightarrow> (Inl e, s)
      | Inr bs \<Rightarrow>
          let (s, running) = maintain_loop ticks (snd (reconcile (tick_sock first) (tick_joins first) bs s))
          in (Inr running, s))"

definition close_set :: "MdnsResolverSet \<Rightarrow> MdnsResolverSet" where
  "close_set s = s\<lparr>closed := True\<rparr>"

definition drain :: "MdnsResolverSet \<Rightarrow> nat list \<times> MdnsResolverSet" where
  "drain s = (map snd (set_resolvers s), s\<lparr>set_resolvers := []\<rparr>)"

fun shutdown_loop :: "(nat \<Rightarrow> join_result list) \<Rightarrow> nat list \<Rightarrow> MdnsResolverSet \<Rightarrow> MdnsShutdownError option \<Rightarrow>
    MdnsShutdownError option \<times> MdnsResolverSet" where
  "shutdown_loop joins [] s error = (error, s)"
| "shutdown_loop joins (i # rest) s error =
     (case shutdown_instance (joins i) i s of
        (Inl failed, s) \<Rightarrow> shutdown_loop joins rest s (case error of None \<Rightarrow> Some failed | Some e \<Rightarrow> Some e)
      | (Inr _, s) \<Rightarrow> shutdown_loop joins rest s error)"

definition set_shutdown :: "(nat \<Rightarrow> join_result list) \<Rightarrow> MdnsResolverSet \<Rightarrow> (MdnsShutdownError + unit) \<times> MdnsResolverSet" where
  "set_shutdown joins s =
     (let s = close_set s;
          (ids, s) = drain s;
          (error, s) = shutdown_loop joins ids s None
      in (case error of None \<Rightarrow> Inr () | Some e \<Rightarrow> Inl e, s))"

section \<open>Lookups\<close>

text \<open>The instances a lookup of a family asks.\<close>

definition asked :: "MdnsResolverSet \<Rightarrow> Family option \<Rightarrow> MdnsResolver list" where
  "asked s fam =
     filter (\<lambda>r. case fam of None \<Rightarrow> True | Some f \<Rightarrow> ip_family (bound_ip r) = f) (map (\<lambda>i. instances s ! i) (snapshot s))"

definition merge_groups :: "EndpointCandidateGroup list \<Rightarrow> EndpointCandidateGroup list \<Rightarrow> EndpointCandidateGroup list" where
  "merge_groups into gs = fold merge_group gs into"

fun collect_candidates :: "(io_error + EndpointCandidates) list \<Rightarrow> EndpointCandidateGroup list \<Rightarrow> io_error option \<Rightarrow>
    EndpointCandidateGroup list \<times> io_error option" where
  "collect_candidates [] gs last_error = (gs, last_error)"
| "collect_candidates (Inr cands # rest) gs last_error = collect_candidates rest (merge_groups gs (groups cands)) last_error"
| "collect_candidates (Inl e # rest) gs last_error = collect_candidates rest gs (Some e)"

text \<open>What the asked resolvers answer; \<open>ask\<close> is the protocol query of each. \<open>completed\<close> is this list in the
  order of completion.\<close>

definition pending_candidates ::
  "rstr \<Rightarrow> (rstr \<Rightarrow> bool) \<Rightarrow> home \<Rightarrow> (DquicEndpointAddr \<Rightarrow> SocketAddr) \<Rightarrow>
   (MdnsResolver \<Rightarrow> rstr \<Rightarrow> query_error + SocketAddr \<times> EndpointAddr list) \<Rightarrow> MdnsResolverSet \<Rightarrow> rstr \<Rightarrow> EndpointLookup \<Rightarrow>
   (io_error + EndpointCandidates) list" where
  "pending_candidates suffix dns_name H addr_of ask s name lookup =
     map (\<lambda>r. mdns_lookup_candidates suffix dns_name H addr_of (ask r) r name lookup) (asked s (family lookup))"

definition set_candidates :: "MdnsResolverSet \<Rightarrow> EndpointLookup \<Rightarrow> (io_error + EndpointCandidates) list \<Rightarrow> io_error + EndpointCandidates" where
  "set_candidates s lookup completed =
     (if asked s (family lookup) = [] then Inl (IoError (str ''no mDNS resolvers available''))
      else
        let (gs, last_error) = collect_candidates completed [] None in
        if gs = [] then Inl (case last_error of Some e \<Rightarrow> e | None \<Rightarrow> IoError (str ''no DNS record found''))
        else Inr \<lparr>groups = gs\<rparr>)"

definition pending_streams ::
  "rstr \<Rightarrow> (rstr \<Rightarrow> bool) \<Rightarrow> home \<Rightarrow> (DquicEndpointAddr \<Rightarrow> SocketAddr) \<Rightarrow>
   (MdnsResolver \<Rightarrow> rstr \<Rightarrow> query_error + SocketAddr \<times> EndpointAddr list) \<Rightarrow> MdnsResolverSet \<Rightarrow> rstr \<Rightarrow> Family option \<Rightarrow>
   (io_error + src_record list) list" where
  "pending_streams suffix dns_name H addr_of ask s hostname fam =
     map (\<lambda>r. mdns_lookup suffix dns_name H addr_of (ask r) r hostname fam) (asked s fam)"

text \<open>The streams the lookup merges: the first that succeeds and those that complete later.\<close>

fun first_stream :: "(io_error + src_record list) list \<Rightarrow> io_error \<Rightarrow> io_error + src_record list list" where
  "first_stream [] error = Inl error"
| "first_stream (Inr first # later) error =
     Inr (first # List.map_filter (\<lambda>res. case res of Inr recs \<Rightarrow> Some recs | Inl _ \<Rightarrow> None) later)"
| "first_stream (Inl failed # later) error = first_stream later failed"

definition set_lookup :: "(rstr \<Rightarrow> bool) \<Rightarrow> home \<Rightarrow> rstr \<Rightarrow> (io_error + src_record list) list \<Rightarrow> io_error + src_record list list" where
  "set_lookup dns_name H hostname completed =
     (if mdns_lookup_parts dns_name H hostname = None then Inl (IoError (str ''unsupported mDNS name''))
      else first_stream completed (IoError (str ''no mDNS resolvers available'')))"


section \<open>Lemmas on one caller\<close>

lemma shutdown_instance_eq:
  "shutdown_instance joined i s = (fst (mdns_shutdown joined (instances s ! i)),
     s\<lparr>instances := (instances s)[i := (instances s ! i)\<lparr>proto := False\<rparr>]\<rparr>)"
proof -
  have "\<not> proto r \<Longrightarrow> r\<lparr>proto := False\<rparr> = r" for r :: MdnsResolver by (cases r) simp
  then have "snd (mdns_shutdown joined r) = r\<lparr>proto := False\<rparr>" for r
    by (simp add: mdns_shutdown_def shutdown_tasks_def split: sum.splits)
  then show ?thesis by (simp add: shutdown_instance_def case_prod_beta)
qed

lemma update_absent: "map_of al k = None \<Longrightarrow> AList.update k v al = al @ [(k, v)]"
  by (induction al) auto

lemma map_filter_cong: "(\<And>x. x \<in> set xs \<Longrightarrow> f x = g x) \<Longrightarrow> List.map_filter f xs = List.map_filter g xs"
  by (induction xs) (simp_all add: List.map_filter_simps split: option.split)

text \<open>Without interference a candidate is never beaten to it.\<close>

lemma upsert_alone:
  "upsert sock joins b s =
     (if closed s then (Inl Closed, s)
      else case map_of (set_resolvers s) b of
        Some i \<Rightarrow> (Inr i, s)
      | None \<Rightarrow>
          (case mdns_bind sock (set_service_name s) (binding_device b) (binding_ip b) of
             Inl e \<Rightarrow> (Inl e, s)
           | Inr r \<Rightarrow> (Inr (length (instances s)),
               s\<lparr>instances := instances s @ [r], set_resolvers := set_resolvers s @ [(b, length (instances s))]\<rparr>)))"
  by (simp add: upsert_def upsert_check_def upsert_bind_def upsert_commit_def upsert_finish_def update_absent
      split: option.splits sum.splits)

definition set_ok :: "MdnsResolverSet \<Rightarrow> bool" where
  "set_ok s \<longleftrightarrow> distinct (map fst (set_resolvers s)) \<and> distinct (map snd (set_resolvers s)) \<and>
     list_all (\<lambda>(b, i). i < length (instances s) \<and> binding_of (instances s ! i) = b \<and>
       service_name (instances s ! i) = set_service_name s) (set_resolvers s)"

definition retire :: "nat list \<Rightarrow> MdnsResolver list \<Rightarrow> MdnsResolver list" where
  "retire ids rs = fold (\<lambda>i rs. rs[i := (rs ! i)\<lparr>proto := False\<rparr>]) ids rs"

lemma length_retire [simp]: "length (retire ids rs) = length rs"
  unfolding retire_def by (induction ids arbitrary: rs) simp_all

lemma retire_nth: "j < length rs \<Longrightarrow> retire ids rs ! j = (if j \<in> set ids then (rs ! j)\<lparr>proto := False\<rparr> else rs ! j)"
  unfolding retire_def
proof (induction ids arbitrary: rs)
  case (Cons a ids)
  then show ?case by (cases "a = j") auto
qed simp

lemma retire_Cons: "retire (i # ids) rs = retire ids (rs[i := (rs ! i)\<lparr>proto := False\<rparr>])"
  by (simp add: retire_def)

definition obsolete :: "MdnsBinding list \<Rightarrow> (MdnsBinding \<times> nat) list \<Rightarrow> (MdnsBinding \<times> nat) list" where
  "obsolete desired rs = filter (\<lambda>(b, _). b \<notin> set desired) rs"

definition retire_errors :: "(nat \<Rightarrow> join_result list) \<Rightarrow> MdnsResolver list \<Rightarrow> (MdnsBinding \<times> nat) list \<Rightarrow> MdnsReconcileError list" where
  "retire_errors joins rs obs = List.map_filter (\<lambda>(b, i).
     case fst (mdns_shutdown (joins i) (rs ! i)) of Inl e \<Rightarrow> Some (RemoveFailed b e) | Inr _ \<Rightarrow> None) obs"

lemma retire_errors_cong:
  "(\<And>b i. (b, i) \<in> set obs \<Longrightarrow> rs ! i = rs' ! i) \<Longrightarrow> retire_errors joins rs obs = retire_errors joins rs' obs"
  unfolding retire_errors_def by (rule map_filter_cong) auto

lemma retire_loop_spec:
  assumes "set_resolvers s = kept @ rs" and "distinct (map fst (kept @ rs))" and "distinct (map snd (kept @ rs))"
    and "list_all (\<lambda>(b, i). i < length (instances s) \<and> binding_of (instances s ! i) = b) (kept @ rs)"
    and "list_all (\<lambda>(b, _). b \<in> set desired) kept"
  shows "retire_loop joins desired (map snd rs) s errs =
    (errs @ retire_errors joins (instances s) (obsolete desired rs),
     s\<lparr>set_resolvers := kept @ filter (\<lambda>(b, _). b \<in> set desired) rs,
       instances := retire (map snd (obsolete desired rs)) (instances s)\<rparr>)"
  using assms
proof (induction rs arbitrary: s kept errs)
  case Nil
  then show ?case by (simp add: obsolete_def retire_errors_def retire_def List.map_filter_simps)
next
  case (Cons x rs)
  obtain b i where x: "x = (b, i)" by (cases x)
  have b: "binding_of (instances s ! i) = b" using Cons.prems(4) x by simp
  show ?case
  proof (cases "b \<in> set desired")
    case True
    then show ?thesis using Cons.IH [of s "kept @ [x]" errs] Cons.prems
      by (simp add: x b obsolete_def)
  next
    case False
    let ?s = "s\<lparr>set_resolvers := kept @ rs, instances := (instances s)[i := (instances s ! i)\<lparr>proto := False\<rparr>]\<rparr>"
    have "b \<notin> fst ` set kept" "b \<notin> fst ` set rs" using Cons.prems(2) by (auto simp: x)
    then have "AList.delete b kept = kept" "AList.delete b rs = rs" "map_of kept b = None"
      by (simp_all add: map_of_eq_None_iff)
    moreover have "AList.delete b (xs @ ys) = AList.delete b xs @ AList.delete b ys" for xs ys :: "(MdnsBinding \<times> nat) list"
      by (simp add: AList.delete_eq)
    ultimately have del: "AList.delete b (kept @ (b, i) # rs) = kept @ rs" "map_of (kept @ (b, i) # rs) b = Some i"
      by (simp_all add: map_add_def)
    have rem: "set_remove joins b s = (case fst (mdns_shutdown (joins i) (instances s ! i)) of Inl e \<Rightarrow> (Inl e, ?s) | Inr _ \<Rightarrow> (Inr True, ?s))"
      using del Cons.prems(1) by (simp add: set_remove_def remove_entry_def shutdown_instance_eq x split: sum.splits)
    have same: "instances ?s ! j = instances s ! j" if "(c, j) \<in> set (obsolete desired rs)" for c j
      using that Cons.prems(3) by (force simp: x obsolete_def nth_list_update)
    have ih: "retire_loop joins desired (map snd rs) ?s es =
        (es @ retire_errors joins (instances s) (obsolete desired rs),
         ?s\<lparr>set_resolvers := kept @ filter (\<lambda>(b, _). b \<in> set desired) rs,
            instances := retire (map snd (obsolete desired rs)) (instances ?s)\<rparr>)" for es
    proof -
      have "list_all (\<lambda>(b, i). i < length (instances ?s) \<and> binding_of (instances ?s ! i) = b) (kept @ rs)"
        using Cons.prems(4) by (auto simp: x list_all_iff nth_list_update binding_of_def)
      then show ?thesis
        using Cons.IH [of ?s kept es] Cons.prems(2,3,5) retire_errors_cong [of "obsolete desired rs" "instances ?s" "instances s" joins, OF same]
        by (simp add: x)
    qed
    have obs: "obsolete desired (x # rs) = (b, i) # obsolete desired rs" using False by (simp add: x obsolete_def)
    show ?thesis unfolding obs
      using False ih by (auto simp: x b rem retire_Cons retire_errors_def List.map_filter_simps split: sum.splits)
  qed
qed

definition fresh_bindings :: "sockets \<Rightarrow> MdnsResolverSet \<Rightarrow> MdnsBinding list \<Rightarrow> MdnsBinding list" where
  "fresh_bindings sock s bs = filter (\<lambda>b. map_of (set_resolvers s) b = None \<and>
     \<not> isl (mdns_bind sock (set_service_name s) (binding_device b) (binding_ip b))) bs"

definition bind_errors :: "sockets \<Rightarrow> MdnsResolverSet \<Rightarrow> MdnsBinding list \<Rightarrow> MdnsReconcileError list" where
  "bind_errors sock s bs = List.map_filter (\<lambda>b. if map_of (set_resolvers s) b = None then
     (case mdns_bind sock (set_service_name s) (binding_device b) (binding_ip b) of Inl e \<Rightarrow> Some (BindFailed b e) | Inr _ \<Rightarrow> None)
     else None) bs"

lemma upsert_loop_open:
  assumes "\<not> closed s" and "distinct bs"
  shows "upsert_loop sock joins bs s errs = (errs @ bind_errors sock s bs,
    s\<lparr>set_resolvers := set_resolvers s @ zip (fresh_bindings sock s bs) [length (instances s)..<length (instances s) + length (fresh_bindings sock s bs)],
      instances := instances s @ map (\<lambda>b. projr (mdns_bind sock (set_service_name s) (binding_device b) (binding_ip b))) (fresh_bindings sock s bs)\<rparr>)"
  using assms
proof (induction bs arbitrary: s errs)
  case Nil
  then show ?case by (simp add: fresh_bindings_def bind_errors_def List.map_filter_simps)
next
  case (Cons b bs)
  let ?bind = "mdns_bind sock (set_service_name s) (binding_device b) (binding_ip b)"
  show ?case
  proof (cases "map_of (set_resolvers s) b = None \<and> \<not> isl ?bind")
    case True
    then obtain r where r: "?bind = Inr r" by (cases ?bind) auto
    let ?s = "s\<lparr>instances := instances s @ [r], set_resolvers := set_resolvers s @ [(b, length (instances s))]\<rparr>"
    have look: "map_of (set_resolvers ?s) c = map_of (set_resolvers s) c" if "c \<in> set bs" for c
      using that Cons.prems(2) by (auto simp: map_add_def split: option.splits)
    have "fresh_bindings sock ?s bs = fresh_bindings sock s bs"
      unfolding fresh_bindings_def by (rule filter_cong [OF refl]) (simp only: look, simp)
    moreover have "bind_errors sock ?s bs = bind_errors sock s bs"
      unfolding bind_errors_def by (rule map_filter_cong) (simp only: look, simp)
    moreover have "[n..<n + Suc m] = n # [Suc n..<Suc (n + m)]" for n m by (simp add: upt_conv_Cons)
    ultimately show ?thesis using Cons.IH [of ?s errs] Cons.prems True r
      by (simp add: upsert_alone fresh_bindings_def bind_errors_def List.map_filter_simps del: upt_Suc)
  next
    case False
    then show ?thesis using Cons.IH [of s] Cons.prems
      by (auto simp: upsert_alone fresh_bindings_def bind_errors_def List.map_filter_simps split: option.splits sum.splits)
  qed
qed

lemma upsert_loop_closed:
  "closed s \<Longrightarrow> upsert_loop sock joins bs s errs = (errs @ map (\<lambda>b. BindFailed b Closed) bs, s)"
  by (induction bs arbitrary: errs) (simp_all add: upsert_alone)


abbreviation bound :: "sockets \<Rightarrow> MdnsResolverSet \<Rightarrow> MdnsBinding \<Rightarrow> MdnsBindError + MdnsResolver" where
  "bound sock s b \<equiv> mdns_bind sock (set_service_name s) (binding_device b) (binding_ip b)"

lemma map_of_desired: "b \<in> set desired \<Longrightarrow> map_of (filter (\<lambda>(b, _). b \<in> set desired) rs) b = map_of rs b"
  by (induction rs) auto

lemma reconcile_eq:
  assumes "set_ok s" and "\<not> closed s" and "distinct desired"
  shows "reconcile sock joins desired s =
    (retire_errors joins (instances s) (obsolete desired (set_resolvers s)) @ bind_errors sock s desired,
     s\<lparr>set_resolvers := filter (\<lambda>(b, _). b \<in> set desired) (set_resolvers s) @
         zip (fresh_bindings sock s desired) [length (instances s)..<length (instances s) + length (fresh_bindings sock s desired)],
       instances := retire (map snd (obsolete desired (set_resolvers s))) (instances s) @
         map (\<lambda>b. projr (bound sock s b)) (fresh_bindings sock s desired)\<rparr>)"
proof -
  let ?s = "s\<lparr>set_resolvers := filter (\<lambda>(b, _). b \<in> set desired) (set_resolvers s),
      instances := retire (map snd (obsolete desired (set_resolvers s))) (instances s)\<rparr>"
  have "list_all (\<lambda>(b, i). i < length (instances s) \<and> binding_of (instances s ! i) = b) (set_resolvers s)"
    using assms(1) by (auto simp: set_ok_def list_all_iff)
  then have "retire_loop joins desired (snapshot s) s [] =
      (retire_errors joins (instances s) (obsolete desired (set_resolvers s)), ?s)"
    using assms(1) retire_loop_spec [of s "[]" "set_resolvers s" desired joins "[]"] by (simp add: snapshot_def set_ok_def)
  moreover have "fresh_bindings sock ?s desired = fresh_bindings sock s desired"
    unfolding fresh_bindings_def by (rule filter_cong [OF refl]) (simp add: map_of_desired)
  moreover have "bind_errors sock ?s desired = bind_errors sock s desired"
    unfolding bind_errors_def by (rule map_filter_cong) (simp add: map_of_desired)
  ultimately show ?thesis
    using upsert_loop_open [of ?s desired sock joins "retire_errors joins (instances s) (obsolete desired (set_resolvers s))"] assms(2,3)
    by (simp add: reconcile_def)
qed

lemma fresh_entries:
  assumes "(b, i) \<in> set (zip (fresh_bindings sock s desired) [n..<n + length (fresh_bindings sock s desired)])"
  shows "n \<le> i \<and> i < n + length (fresh_bindings sock s desired) \<and> b \<in> set desired \<and> map_of (set_resolvers s) b = None \<and>
    \<not> isl (bound sock s b) \<and> fresh_bindings sock s desired ! (i - n) = b"
proof -
  obtain k where k: "k < length (fresh_bindings sock s desired)" "b = fresh_bindings sock s desired ! k" "i = n + k"
    using assms by (auto simp: set_zip)
  then have "b \<in> set (fresh_bindings sock s desired)" by simp
  then show ?thesis using k by (simp add: fresh_bindings_def)
qed

lemma reconcile_set_ok:
  assumes "set_ok s" and "\<not> closed s" and "distinct desired"
  shows "set_ok (snd (reconcile sock joins desired s))"
proof -
  let ?f = "fresh_bindings sock s desired" and ?R = "set_resolvers s" and ?n = "length (instances s)"
  let ?old = "filter (\<lambda>(b, _). b \<in> set desired) ?R" and ?new = "zip ?f [?n..<?n + length ?f]"
  let ?I = "retire (map snd (obsolete desired ?R)) (instances s) @ map (\<lambda>b. projr (bound sock s b)) ?f"
  have R: "distinct (map fst ?R)" "distinct (map snd ?R)"
    "\<And>b i. (b, i) \<in> set ?R \<Longrightarrow> i < ?n \<and> binding_of (instances s ! i) = b \<and> service_name (instances s ! i) = set_service_name s"
    using assms(1) by (auto simp: set_ok_def list_all_iff)
  have new: "binding_of (?I ! i) = b \<and> service_name (?I ! i) = set_service_name s \<and> i < length ?I" if "(b, i) \<in> set ?new" for b i
  proof -
    have i: "?n \<le> i" "i - ?n < length ?f" "?f ! (i - ?n) = b" "\<not> isl (bound sock s b)" using fresh_entries [OF that] by auto
    obtain r where "bound sock s b = Inr r" using i(4) by (cases "bound sock s b") auto
    with i show ?thesis using mdns_bind_ok [of sock "set_service_name s" "binding_device b" "binding_ip b" r]
      by (simp add: nth_append binding_of_def)
  qed
  have old: "binding_of (?I ! i) = b \<and> service_name (?I ! i) = set_service_name s \<and> i < length ?I" if "(b, i) \<in> set ?old" for b i
    using that R(3) [of b i] by (auto simp: nth_append retire_nth binding_of_def)
  have d1: "distinct (map fst (?old @ ?new))"
  proof -
    have "distinct ?f" using assms(3) by (simp add: fresh_bindings_def)
    moreover have "fst ` set ?old \<inter> set ?f = {}" by (auto simp: fresh_bindings_def map_of_eq_None_iff image_iff)
    ultimately show ?thesis using R(1) by (simp add: distinct_map_filter)
  qed
  have "snd ` set ?old \<inter> set [?n..<?n + length ?f] = {}" using R(3) by fastforce
  then have d2: "distinct (map snd (?old @ ?new))" using R(2) by (simp add: distinct_map_filter)
  show ?thesis using d1 d2 old new
    by (simp add: reconcile_eq [OF assms] set_ok_def list_all_iff) (use old new in \<open>fastforce\<close>)
qed

lemma obsolete_instance:
  assumes "set_ok s" and "(b, i) \<in> set (set_resolvers s)"
  shows "i \<in> set (map snd (obsolete desired (set_resolvers s))) \<longleftrightarrow> b \<notin> set desired"
proof
  assume "i \<in> set (map snd (obsolete desired (set_resolvers s)))"
  then obtain c where c: "(c, i) \<in> set (set_resolvers s)" "c \<notin> set desired" by (auto simp: obsolete_def)
  then have "c = b" using assms inj_onD [of snd "set (set_resolvers s)" "(c, i)" "(b, i)"] by (simp add: set_ok_def distinct_map)
  with c(2) show "b \<notin> set desired" by simp
next
  assume "b \<notin> set desired"
  then have "(b, i) \<in> set (obsolete desired (set_resolvers s))" using assms(2) by (simp add: obsolete_def)
  then show "i \<in> set (map snd (obsolete desired (set_resolvers s)))" by force
qed

lemma reconcile_stable:
  assumes "set_ok s" and "\<not> closed s" and "distinct desired" and "fst ` set (set_resolvers s) = set desired"
  shows "reconcile sock joins desired s = ([], s)"
proof -
  have "map_of (set_resolvers s) c \<noteq> None" if "c \<in> set desired" for c
    using that assms(4) by (simp add: map_of_eq_None_iff)
  then have "fresh_bindings sock s desired = []" "bind_errors sock s desired = []"
    by (fastforce simp: fresh_bindings_def bind_errors_def List.map_filter_def filter_empty_conv)+
  moreover have "obsolete desired (set_resolvers s) = []" "filter (\<lambda>(b, _). b \<in> set desired) (set_resolvers s) = set_resolvers s"
    using assms(4) by (force simp: obsolete_def filter_empty_conv filter_id_conv)+
  ultimately show ?thesis
    by (simp add: reconcile_eq [OF assms(1-3)] retire_errors_def List.map_filter_simps retire_def)
qed

section \<open>Properties of one caller\<close>

text \<open>C11: Reconciliation leaves the set with exactly the resolvers it should have. Of an open set whose
  entries belong to their bindings it keeps this, and afterwards a binding has a resolver if and only
  if it is desired and had one or could be bound; resolvers that stay are the same instances and
  untouched; the others have been shut down; new ones are new instances and live. The errors are those of
  the shutdowns that failed followed by those of the bindings that failed. If none of the
  latter failed, reconciling again with the same bindings changes nothing and reports nothing.\<close>

theorem reconcile_outcome:
  assumes "set_ok s" and "\<not> closed s" and "distinct desired" and "reconcile sock joins desired s = (errors, s')"
  shows "set_ok s' \<and>
    (map_of (set_resolvers s') b \<noteq> None \<longleftrightarrow>
      b \<in> set desired \<and> (map_of (set_resolvers s) b \<noteq> None \<or> \<not> isl (bound sock s b))) \<and>
    (map_of (set_resolvers s) b = Some i \<longrightarrow>
      (if b \<in> set desired then map_of (set_resolvers s') b = Some i \<and> instances s' ! i = instances s ! i
       else \<not> proto (instances s' ! i))) \<and>
    (map_of (set_resolvers s) b = None \<and> map_of (set_resolvers s') b = Some i \<longrightarrow>
      length (instances s) \<le> i \<and> proto (instances s' ! i)) \<and>
    errors = retire_errors joins (instances s) (obsolete desired (set_resolvers s)) @ bind_errors sock s desired \<and>
    (bind_errors sock s desired = [] \<longrightarrow> reconcile sock' joins' desired s' = ([], s'))"
proof -
  let ?f = "fresh_bindings sock s desired" and ?R = "set_resolvers s" and ?n = "length (instances s)"
  let ?old = "filter (\<lambda>(b, _). b \<in> set desired) ?R" and ?new = "zip ?f [?n..<?n + length ?f]"
  let ?I = "retire (map snd (obsolete desired ?R)) (instances s) @ map (\<lambda>b. projr (bound sock s b)) ?f"
  have s': "errors = retire_errors joins (instances s) (obsolete desired ?R) @ bind_errors sock s desired"
    "s' = s\<lparr>set_resolvers := ?old @ ?new, instances := ?I\<rparr>"
    using assms(4) by (simp_all add: reconcile_eq [OF assms(1-3)])
  have ok: "set_ok s'" using reconcile_set_ok [OF assms(1-3), of sock joins] assms(4) by simp
  have dom_new: "fst ` set ?new = set ?f" using set_map [of fst ?new] by (simp del: set_map)
  have dom: "map_of (set_resolvers s') c \<noteq> None \<longleftrightarrow> c \<in> set desired \<and> (map_of ?R c \<noteq> None \<or> \<not> isl (bound sock s c))" for c
    using dom_new by (auto simp: s' fresh_bindings_def map_of_eq_None_iff image_Un)
  have kept: "if b \<in> set desired then map_of (set_resolvers s') b = Some i \<and> instances s' ! i = instances s ! i
       else \<not> proto (instances s' ! i)" if bi: "map_of ?R b = Some i"
  proof -
    have mem: "(b, i) \<in> set ?R" "i < ?n" using map_of_SomeD [OF bi] assms(1) by (auto simp: set_ok_def list_all_iff)
    have "b \<notin> set ?f" using bi by (simp add: fresh_bindings_def)
    then have "map_of ?new b = None" unfolding dom_new [symmetric] by (simp add: map_of_eq_None_iff)
    then show ?thesis
      using mem(2) bi obsolete_instance [OF assms(1) mem(1), of desired]
      by (simp add: s'(2) nth_append retire_nth map_of_desired map_add_def del: set_map)
  qed
  have fresh: "?n \<le> i \<and> proto (instances s' ! i)" if b: "map_of ?R b = None" "map_of (set_resolvers s') b = Some i"
  proof -
    have "(b, i) \<in> set ?new" using map_of_SomeD [OF b(2)] b(1) by (auto simp: s' map_of_eq_None_iff image_iff)
    note e = fresh_entries [OF this]
    then obtain r where "bound sock s b = Inr r" by (cases "bound sock s b") auto
    with e show ?thesis using mdns_bind_ok [of sock "set_service_name s" "binding_device b" "binding_ip b" r]
      by (auto simp: s' nth_append)
  qed
  have again: "reconcile sock' joins' desired s' = ([], s')" if none: "bind_errors sock s desired = []"
  proof (rule reconcile_stable [OF ok _ assms(3)])
    have "\<not> isl (bound sock s c)" if "c \<in> set desired" "map_of ?R c = None" for c
      using none that by (cases "bound sock s c") (auto simp: bind_errors_def List.map_filter_def filter_empty_conv)
    then show "fst ` set (set_resolvers s') = set desired"
      using dom by (auto simp: map_of_eq_None_iff)
  qed (simp add: s'(2) assms(2))
  show ?thesis using ok dom kept fresh s'(1) again by blast
qed


text \<open>A device with one address that can be bound and one that cannot.\<close>

definition demo_sock :: sockets where
  "demo_sock dev addr = (if addr = IpV4 2 then Some (IoError (str ''in use'')) else None)"

definition demo_set :: MdnsResolverSet where
  "demo_set = MdnsResolverSet_new (str ''_x.local'')"

theorem reconcile_outcome_witness:
  "fst (reconcile demo_sock (\<lambda>_. []) [MdnsBinding (str ''lo'') (IpV4 1), MdnsBinding (str ''lo'') (IpV4 2)] demo_set) =
     [BindFailed (MdnsBinding (str ''lo'') (IpV4 2)) (Bind (str ''lo'') (IpV4 2) (IoError (str ''in use'')))] \<and>
   map_of (set_resolvers (snd (reconcile demo_sock (\<lambda>_. []) [MdnsBinding (str ''lo'') (IpV4 1), MdnsBinding (str ''lo'') (IpV4 2)] demo_set)))
     (MdnsBinding (str ''lo'') (IpV4 1)) \<noteq> None"
proof -
  let ?bs = "[MdnsBinding (str ''lo'') (IpV4 1), MdnsBinding (str ''lo'') (IpV4 2)]"
  have ok: "set_ok demo_set" "\<not> closed demo_set" by (simp_all add: demo_set_def MdnsResolverSet_new_def set_ok_def)
  have valid: "valid_service_name (str ''_x.local'')" by code_simp
  obtain errors s' where rec: "reconcile demo_sock (\<lambda>_. []) ?bs demo_set = (errors, s')" by (cases "reconcile demo_sock (\<lambda>_. []) ?bs demo_set")
  have "bind_errors demo_sock demo_set ?bs = [BindFailed (MdnsBinding (str ''lo'') (IpV4 2)) (Bind (str ''lo'') (IpV4 2) (IoError (str ''in use'')))]"
    by (simp add: bind_errors_def List.map_filter_simps demo_set_def MdnsResolverSet_new_def mdns_bind_def valid MdnsResolver_new_def demo_sock_def)
  moreover have "\<not> isl (bound demo_sock demo_set (MdnsBinding (str ''lo'') (IpV4 1)))"
    by (simp add: demo_set_def MdnsResolverSet_new_def mdns_bind_def valid MdnsResolver_new_def demo_sock_def)
  ultimately show ?thesis
    using reconcile_outcome [OF ok _ rec, of "MdnsBinding (str ''lo'') (IpV4 1)"] rec
    by (simp add: demo_set_def MdnsResolverSet_new_def obsolete_def retire_errors_def List.map_filter_simps)
qed

lemma shutdown_loop_state: "snd (shutdown_loop joins ids s err) = s\<lparr>instances := retire ids (instances s)\<rparr>"
  by (induction joins ids s err rule: shutdown_loop.induct) (auto simp: shutdown_instance_eq retire_Cons retire_def split: sum.splits)

lemma shutdown_loop_error:
  "fst (shutdown_loop joins ids s err) \<noteq> None \<longleftrightarrow>
     err \<noteq> None \<or> list_ex (\<lambda>i. proto (instances s ! i) \<and> join_all (joins i) \<noteq> Inr ()) ids" if "distinct ids"
  using that
proof (induction ids arbitrary: s err)
  case (Cons i ids)
  have shut: "isl (fst (mdns_shutdown (joins i) r)) \<longleftrightarrow> proto r \<and> join_all (joins i) \<noteq> Inr ()" for r
    by (auto simp: mdns_shutdown_def shutdown_tasks_def split: sum.splits)
  have keep: "list_ex (\<lambda>j. proto ((instances s)[i := r] ! j) \<and> join_all (joins j) \<noteq> Inr ()) ids =
      list_ex (\<lambda>j. proto (instances s ! j) \<and> join_all (joins j) \<noteq> Inr ()) ids" for r
    unfolding list_ex_iff by (rule bex_cong [OF refl]) (metis Cons.prems distinct.simps(2) nth_list_update_neq)
  show ?case
    using Cons.IH Cons.prems shut [of "instances s ! i"]
    by (cases "fst (mdns_shutdown (joins i) (instances s ! i))") (auto simp: shutdown_instance_eq keep split: option.splits)
qed simp

text \<open>C27: Shutting the set down is final. Afterwards the set is closed and empty and every resolver it held
  is shut down, even when the tasks of some of them failed, which is what an error reports; from then
  on every insertion is refused as closed and changes nothing, reconciling reports this for each
  desired binding, and a maintenance task stops at its next tick.\<close>

theorem shutdown_is_final:
  assumes "set_ok s" and "set_shutdown joins s = (result, s')"
  shows "closed s' \<and> set_resolvers s' = [] \<and>
    list_all (\<lambda>(b, i). \<not> proto (instances s' ! i)) (set_resolvers s) \<and>
    (isl result \<longleftrightarrow> list_ex (\<lambda>(b, i). proto (instances s ! i) \<and> join_all (joins i) \<noteq> Inr ()) (set_resolvers s)) \<and>
    upsert sock joins' b s' = (Inl Closed, s') \<and>
    reconcile sock joins' desired s' = (map (\<lambda>b. BindFailed b Closed) desired, s') \<and>
    maintain_loop (t\<lparr>interference := id\<rparr> # ts) s' = (s', False)"
proof -
  let ?ids = "map snd (set_resolvers s)"
  let ?s = "s\<lparr>closed := True, set_resolvers := []\<rparr>"
  have s': "s' = ?s\<lparr>instances := retire ?ids (instances s)\<rparr>"
    using assms(2) shutdown_loop_state [of joins ?ids ?s None]
    by (auto simp: set_shutdown_def close_set_def drain_def split: prod.splits)
  have "isl result \<longleftrightarrow> fst (shutdown_loop joins ?ids ?s None) \<noteq> None"
    using assms(2) by (auto simp: set_shutdown_def close_set_def drain_def split: prod.splits option.splits)
  then have res: "isl result \<longleftrightarrow> list_ex (\<lambda>(b, i). proto (instances s ! i) \<and> join_all (joins i) \<noteq> Inr ()) (set_resolvers s)"
    using assms(1) shutdown_loop_error [of ?ids joins ?s None] by (simp add: set_ok_def list_ex_iff case_prod_beta)
  have "\<not> proto (instances s' ! i)" if "(b, i) \<in> set (set_resolvers s)" for b i
  proof -
    have "i < length (instances s)" "i \<in> set ?ids" using that assms(1) by (force simp: set_ok_def list_all_iff)+
    then show ?thesis by (simp add: s' retire_nth del: set_map)
  qed
  then have "list_all (\<lambda>(b, i). \<not> proto (instances s' ! i)) (set_resolvers s)" by (auto simp: list_all_iff)
  then show ?thesis
    using res by (simp add: s' upsert_alone reconcile_def snapshot_def upsert_loop_closed)
qed

theorem shutdown_is_final_witness:
  "fst (set_shutdown (\<lambda>_. [Panicked]) (demo_set\<lparr>set_resolvers := [(MdnsBinding (str ''lo'') (IpV4 1), 0)], instances := [demo_mdns]\<rparr>)) =
     Inl (TaskFailed Panicked) \<and>
   fst (upsert demo_sock (\<lambda>_. []) (MdnsBinding (str ''lo'') (IpV4 1))
     (snd (set_shutdown (\<lambda>_. [Panicked]) (demo_set\<lparr>set_resolvers := [(MdnsBinding (str ''lo'') (IpV4 1), 0)], instances := [demo_mdns]\<rparr>)))) = Inl Closed"
proof -
  let ?s = "demo_set\<lparr>set_resolvers := [(MdnsBinding (str ''lo'') (IpV4 1), 0)], instances := [demo_mdns]\<rparr>"
  have ok: "set_ok ?s"
    by (simp add: set_ok_def demo_set_def MdnsResolverSet_new_def demo_mdns_def demo_service_def binding_of_def)
  have "fst (set_shutdown (\<lambda>_. [Panicked]) ?s) = Inl (TaskFailed Panicked)"
    by (simp add: set_shutdown_def close_set_def drain_def shutdown_instance_def mdns_shutdown_def shutdown_tasks_def demo_mdns_def)
  then show ?thesis
    using shutdown_is_final [OF ok prod.collapse [symmetric], of "\<lambda>_. [Panicked]" demo_sock "\<lambda>_. []"] by simp
qed

section \<open>Concurrent callers\<close>

text \<open>\<open>waiting\<close> holds the insertions that found the set open and have not yet bound their candidate, \<open>inflight\<close>
  the candidates that have been bound and not yet committed, \<open>retiring\<close> the instances that have left the set, or
  lost the race into it, and not yet been shut down, and \<open>closing\<close> counts the shutdowns that have closed the set and
  not yet emptied it.\<close>

record MdnsWorld =
  the_set :: MdnsResolverSet
  waiting :: "MdnsBinding list"
  inflight :: "(MdnsBinding \<times> nat) list"
  retiring :: "nat list"
  closing :: nat

definition MdnsWorld_new :: "rstr \<Rightarrow> MdnsWorld" where
  "MdnsWorld_new sname = \<lparr>the_set = MdnsResolverSet_new sname, waiting = [], inflight = [], retiring = [], closing = 0\<rparr>"

text \<open>How the calls under way go on. An insertion that found the set open returns an entry that it finds, or binds a
  candidate (at any later time, whatever has happened to the set since it looked) and commits it, or fails; a shutdown
  empties the set once; an instance that has left the set is shut down by the call that took it out. Every call may be
  cancelled while it waits: \<open>call_give_up\<close> and \<open>call_cancel\<close> are an insertion whose future is dropped, \<open>call_drop\<close>
  is an instance whose removal or shutdown was cancelled and whose last holder drops it, which aborts its tasks.\<close>

inductive call_step :: "MdnsWorld \<Rightarrow> MdnsWorld \<Rightarrow> bool" where
  call_found: "waiting w = xs @ b # ys \<Longrightarrow> map_of (set_resolvers (the_set w)) b = Some i \<Longrightarrow>
    call_step w (w\<lparr>waiting := xs @ ys\<rparr>)"
| call_bind: "waiting w = xs @ b # ys \<Longrightarrow> upsert_bind sock b (the_set w) = Inr (i, s') \<Longrightarrow>
    call_step w (w\<lparr>the_set := s', waiting := xs @ ys, inflight := (b, i) # inflight w\<rparr>)"
| call_bind_fails: "waiting w = xs @ b # ys \<Longrightarrow> upsert_bind sock b (the_set w) = Inl e \<Longrightarrow>
    call_step w (w\<lparr>waiting := xs @ ys\<rparr>)"
| call_give_up: "waiting w = xs @ b # ys \<Longrightarrow> call_step w (w\<lparr>waiting := xs @ ys\<rparr>)"
| call_commit: "inflight w = xs @ (b, i) # ys \<Longrightarrow> upsert_commit b i (the_set w) = (race, s') \<Longrightarrow>
    call_step w (w\<lparr>the_set := s', inflight := xs @ ys, retiring := (if race = None then [] else [i]) @ retiring w\<rparr>)"
| call_cancel: "inflight w = xs @ (b, i) # ys \<Longrightarrow>
    call_step w (w\<lparr>the_set := (the_set w)\<lparr>instances := retire [i] (instances (the_set w))\<rparr>, inflight := xs @ ys\<rparr>)"
| call_drain: "closing w = Suc n \<Longrightarrow> drain (the_set w) = (ids, s') \<Longrightarrow>
    call_step w (w\<lparr>the_set := s', retiring := ids @ retiring w, closing := n\<rparr>)"
| call_retire: "retiring w = xs @ i # ys \<Longrightarrow> shutdown_instance joined i (the_set w) = (result, s') \<Longrightarrow>
    call_step w (w\<lparr>the_set := s', retiring := xs @ ys\<rparr>)"
| call_drop: "retiring w = xs @ i # ys \<Longrightarrow>
    call_step w (w\<lparr>the_set := (the_set w)\<lparr>instances := retire [i] (instances (the_set w))\<rparr>, retiring := xs @ ys\<rparr>)"

text \<open>All steps: those of the calls under way, the beginning of another call, and \<open>step_client\<close>, whatever the holders
  of a resolver do with it, which cannot revive it nor change where it is bound. An insertion begins only when it finds
  the set open; a removal begins by taking the entry out, a shutdown by closing the set.\<close>

inductive set_step :: "MdnsWorld \<Rightarrow> MdnsWorld \<Rightarrow> bool" where
  step_call: "call_step w w' \<Longrightarrow> set_step w w'"
| step_insert: "\<not> closed (the_set w) \<Longrightarrow> set_step w (w\<lparr>waiting := b # waiting w\<rparr>)"
| step_remove: "remove_entry b (the_set w) = (Some i, s') \<Longrightarrow>
    set_step w (w\<lparr>the_set := s', retiring := i # retiring w\<rparr>)"
| step_close: "set_step w (w\<lparr>the_set := close_set (the_set w), closing := Suc (closing w)\<rparr>)"
| step_client: "i < length (instances (the_set w)) \<Longrightarrow> binding_of r = binding_of (instances (the_set w) ! i) \<Longrightarrow>
    service_name r = service_name (instances (the_set w) ! i) \<Longrightarrow> (proto r \<Longrightarrow> proto (instances (the_set w) ! i)) \<Longrightarrow>
    set_step w (w\<lparr>the_set := (the_set w)\<lparr>instances := (instances (the_set w))[i := r]\<rparr>\<rparr>)"

definition owned :: "MdnsWorld \<Rightarrow> nat list" where
  "owned w = map snd (set_resolvers (the_set w)) @ map snd (inflight w) @ retiring w"

definition entries :: "MdnsWorld \<Rightarrow> (MdnsBinding \<times> nat) set" where
  "entries w = set (set_resolvers (the_set w)) \<union> set (inflight w)"

fun instance_ok :: "MdnsResolverSet \<Rightarrow> MdnsBinding \<times> nat \<Rightarrow> bool" where
  "instance_ok s (b, i) \<longleftrightarrow> i < length (instances s) \<and> binding_of (instances s ! i) = b \<and>
     service_name (instances s ! i) = set_service_name s"

definition live :: "MdnsResolverSet \<Rightarrow> nat set" where
  "live s = {i. i < length (instances s) \<and> proto (instances s ! i)}"

definition world_ok :: "MdnsWorld \<Rightarrow> bool" where
  "world_ok w \<longleftrightarrow> distinct (map fst (set_resolvers (the_set w))) \<and> distinct (owned w) \<and>
     Ball (entries w) (instance_ok (the_set w)) \<and> live (the_set w) \<subseteq> set (owned w) \<and>
     set (owned w) \<subseteq> {..<length (instances (the_set w))}"


text \<open>Steps that only hand an instance from one owner to another.\<close>

lemma world_ok_move:
  assumes "world_ok w" and "instances (the_set w') = instances (the_set w)" and "set_service_name (the_set w') = set_service_name (the_set w)"
    and "mset (owned w') = mset (owned w)" and "distinct (map fst (set_resolvers (the_set w')))" and "entries w' \<subseteq> entries w"
  shows "world_ok w'"
proof -
  have "instance_ok (the_set w') x = instance_ok (the_set w) x" for x by (cases x) (simp add: assms(2,3))
  moreover have "live (the_set w') = live (the_set w)" by (simp add: live_def assms(2))
  ultimately show ?thesis
    using assms(1,5,6) mset_eq_imp_distinct_iff [OF assms(4)] mset_eq_setD [OF assms(4)] by (auto simp: world_ok_def assms(2))
qed

text \<open>Steps that shut an instance down, after which it may have no owner.\<close>

lemma world_ok_retire:
  assumes "world_ok w" and "instances (the_set w') = retire [i] (instances (the_set w))"
    and "set_service_name (the_set w') = set_service_name (the_set w)" and "set_resolvers (the_set w') = set_resolvers (the_set w)"
    and "mset (owned w) = mset (i # owned w')" and "entries w' \<subseteq> entries w"
  shows "world_ok w'"
proof -
  have own: "set (owned w) = insert i (set (owned w'))" using mset_eq_setD [OF assms(5)] by simp
  have "instance_ok (the_set w') x = instance_ok (the_set w) x" for x
    by (cases x) (auto simp: assms(2,3) retire_nth binding_of_def split: if_splits)
  moreover have "live (the_set w') = live (the_set w) - {i}" by (auto simp: live_def assms(2) retire_nth split: if_splits)
  moreover have "distinct (i # owned w')" using mset_eq_imp_distinct_iff [OF assms(5)] assms(1) by (simp add: world_ok_def)
  ultimately show ?thesis using assms(1,6) own by (auto simp: world_ok_def assms(2,4))
qed

lemma world_ok_bind:
  assumes "world_ok w" and "upsert_bind sock b (the_set w) = Inr (i, s')"
  shows "world_ok (w\<lparr>the_set := s', waiting := bs, inflight := (b, i) # inflight w\<rparr>)" (is "world_ok ?w")
proof -
  obtain r where r: "bound sock (the_set w) b = Inr r" "i = length (instances (the_set w))"
    "s' = (the_set w)\<lparr>instances := instances (the_set w) @ [r]\<rparr>"
    using assms(2) by (auto simp: upsert_bind_def split: sum.splits)
  have "instance_ok s' x" if "instance_ok (the_set w) x" for x
    using that by (cases x) (simp add: r(3) nth_append)
  moreover have "instance_ok s' (b, i)"
    using mdns_bind_ok [OF r(1)] by (simp add: r(2,3) binding_of_def)
  moreover have "entries ?w = insert (b, i) (entries w)" by (auto simp: entries_def r(3))
  moreover have m: "mset (owned ?w) = mset (i # owned w)" by (simp add: owned_def r(3))
  moreover have "live s' \<subseteq> insert i (live (the_set w))" by (auto simp: live_def r(2,3) nth_append less_Suc_eq)
  moreover have "i \<notin> set (owned w)" using assms(1) by (auto simp: world_ok_def r(2))
  moreover have "set (owned ?w) = insert i (set (owned w))" using mset_eq_setD [OF m] by simp
  moreover have "distinct (owned ?w) \<longleftrightarrow> distinct (i # owned w)" by (rule mset_eq_imp_distinct_iff [OF m])
  moreover have "length (instances s') = Suc i" "set_resolvers s' = set_resolvers (the_set w)" by (simp_all add: r(2,3))
  ultimately show ?thesis using assms(1) r(2) by (simp add: world_ok_def lessThan_Suc) blast
qed

lemma delete_mset:
  "distinct (map fst al) \<Longrightarrow> map_of al k = Some v \<Longrightarrow> mset (map snd al) = add_mset v (mset (map snd (AList.delete k al)))"
  by (induction al) (auto split: if_splits)

lemma world_ok_remove:
  assumes "world_ok w" and "remove_entry b (the_set w) = (Some i, s')"
  shows "world_ok (w\<lparr>the_set := s', retiring := i # retiring w\<rparr>)"
proof -
  have s': "s' = (the_set w)\<lparr>set_resolvers := AList.delete b (set_resolvers (the_set w))\<rparr>" "map_of (set_resolvers (the_set w)) b = Some i"
    using assms(2) by (auto simp: remove_entry_def)
  have d: "distinct (map fst (set_resolvers (the_set w)))" using assms(1) by (simp add: world_ok_def)
  show ?thesis
    using delete_mset [OF d s'(2)] d
    by (intro world_ok_move [OF assms(1)]) (auto simp: s'(1) owned_def entries_def AList.delete_eq distinct_map_filter)
qed

lemma world_ok_commit:
  assumes "world_ok w" and "inflight w = xs @ (b, i) # ys" and "upsert_commit b i (the_set w) = (race, s')"
  shows "world_ok (w\<lparr>the_set := s', inflight := xs @ ys, retiring := (if race = None then [] else [i]) @ retiring w\<rparr>)"
proof (cases "race = None")
  case True
  then have s': "s' = (the_set w)\<lparr>set_resolvers := set_resolvers (the_set w) @ [(b, i)]\<rparr>" "map_of (set_resolvers (the_set w)) b = None"
    using assms(3) by (auto simp: upsert_commit_def update_absent split: if_splits option.splits)
  have "distinct (map fst (set_resolvers s'))" using assms(1) s' by (simp add: world_ok_def map_of_eq_None_iff)
  then show ?thesis
    using True by (intro world_ok_move [OF assms(1)]) (auto simp: s'(1) owned_def entries_def assms(2))
next
  case False
  then have "s' = the_set w" using assms(3) by (auto simp: upsert_commit_def split: if_splits option.splits)
  moreover have "distinct (map fst (set_resolvers (the_set w)))" using assms(1) by (simp add: world_ok_def)
  ultimately show ?thesis
    using False by (intro world_ok_move [OF assms(1)]) (auto simp: owned_def entries_def assms(2))
qed

lemma world_ok_waiting [simp]: "world_ok (w\<lparr>waiting := bs\<rparr>) = world_ok w"
  by (simp add: world_ok_def owned_def entries_def)

lemma call_step_ok:
  assumes "call_step w w'" and "world_ok w"
  shows "world_ok w'"
  using assms
proof (induction rule: call_step.induct)
  case (call_bind w xs b ys sock i s')
  then show ?case by (intro world_ok_bind)
next
  case (call_commit w xs b i ys race s')
  then show ?case by (intro world_ok_commit)
next
  case (call_cancel w xs b i ys)
  show ?case by (rule world_ok_retire [OF call_cancel(2), of _ i]) (auto simp: owned_def entries_def call_cancel(1))
next
  case (call_drain w n ids s')
  then show ?case by (intro world_ok_move [OF call_drain(3)]) (auto simp: drain_def owned_def entries_def)
next
  case (call_retire w xs i ys joined result s')
  then have "s' = (the_set w)\<lparr>instances := retire [i] (instances (the_set w))\<rparr>" by (simp add: shutdown_instance_eq retire_def)
  then show ?case by (intro world_ok_retire [OF call_retire(3), of _ i]) (auto simp: owned_def entries_def call_retire(1))
next
  case (call_drop w xs i ys)
  show ?case by (rule world_ok_retire [OF call_drop(2), of _ i]) (auto simp: owned_def entries_def call_drop(1))
qed simp_all

lemma set_step_ok:
  assumes "set_step w w'" and "world_ok w"
  shows "world_ok w'"
  using assms
proof (induction rule: set_step.induct)
  case (step_call w w')
  then show ?case by (rule call_step_ok)
next
  case (step_remove b w i s')
  then show ?case by (intro world_ok_remove)
next
  case (step_close w)
  then show ?case by (intro world_ok_move [OF step_close]) (auto simp: close_set_def owned_def entries_def world_ok_def)
next
  case (step_client i w r)
  let ?s = "(the_set w)\<lparr>instances := (instances (the_set w))[i := r]\<rparr>"
  have "instance_ok ?s x = instance_ok (the_set w) x" for x
    using step_client by (cases x) (auto simp: nth_list_update)
  moreover have "live ?s \<subseteq> live (the_set w)" using step_client by (auto simp: live_def nth_list_update split: if_splits)
  ultimately show ?case using step_client(5) by (auto simp: world_ok_def owned_def entries_def)
qed simp

lemma reachable_world_ok: "set_step\<^sup>*\<^sup>* (MdnsWorld_new sname) w \<Longrightarrow> world_ok w"
proof (induction rule: rtranclp_induct)
  case base
  show ?case by (simp add: MdnsWorld_new_def MdnsResolverSet_new_def world_ok_def owned_def entries_def live_def)
qed (rule set_step_ok)

text \<open>A closed set stays closed and never gains a binding.\<close>

lemma call_step_closed:
  assumes "call_step w w'" and "closed (the_set w)"
  shows "closed (the_set w') \<and> set (set_resolvers (the_set w')) \<subseteq> set (set_resolvers (the_set w))"
  using assms
  by (induction rule: call_step.induct)
    (auto simp: upsert_bind_def upsert_commit_def drain_def shutdown_instance_eq split: sum.splits)

lemma set_step_closed:
  assumes "set_step w w'" and "closed (the_set w)"
  shows "closed (the_set w') \<and> set (set_resolvers (the_set w')) \<subseteq> set (set_resolvers (the_set w))"
  using assms
  by (induction rule: set_step.induct) (auto simp: remove_entry_def close_set_def AList.delete_eq dest: call_step_closed)




lemma closed_forever:
  assumes "set_step\<^sup>*\<^sup>* w w'" and "closed (the_set w)"
  shows "closed (the_set w') \<and> set (set_resolvers (the_set w')) \<subseteq> set (set_resolvers (the_set w))"
  using assms
proof (induction rule: rtranclp_induct)
  case (step y z)
  then show ?case using set_step_closed [OF step(2)] by blast
qed simp

section \<open>Properties of concurrent callers\<close>

text \<open>C10: Concurrent insertions, removals, reconciliations and shutdowns leak nothing. In every reachable
  state no two entries share a binding, every entry's resolver is bound to the device and address it is
  filed under and serves the set's name, and every resolver whose tasks still run is filed
  in the set, held by an insertion under way, or waiting to be shut down or dropped, by exactly one of them. Once the
  set is closed it stays so and never gains an entry, whatever insertions were under way; so when it has
  been emptied and no call is under way, every resolver ever made is shut down.\<close>

theorem set_never_leaks:
  assumes "set_step\<^sup>*\<^sup>* (MdnsWorld_new sname) w"
  shows "distinct (map fst (set_resolvers (the_set w))) \<and> Ball (set (set_resolvers (the_set w))) (instance_ok (the_set w)) \<and>
    live (the_set w) \<subseteq> set (owned w) \<and> distinct (owned w) \<and>
    (closed (the_set w) \<and> set_step\<^sup>*\<^sup>* w w' \<longrightarrow>
      closed (the_set w') \<and> set (set_resolvers (the_set w')) \<subseteq> set (set_resolvers (the_set w)) \<and>
      (set_resolvers (the_set w) = [] \<and> inflight w' = [] \<and> retiring w' = [] \<longrightarrow> live (the_set w') = {}))"
proof -
  have "live (the_set w') = {}" if "closed (the_set w)" "set_step\<^sup>*\<^sup>* w w'" "set_resolvers (the_set w) = []" "inflight w' = []" "retiring w' = []"
  proof -
    have "world_ok w'" by (rule reachable_world_ok [OF rtranclp_trans [OF assms that(2)]])
    then show ?thesis using closed_forever [OF that(2,1)] that(3-5) by (simp add: world_ok_def owned_def)
  qed
  then show ?thesis
    using reachable_world_ok [OF assms] closed_forever [of w w'] by (auto simp: world_ok_def entries_def)
qed

definition demo_world :: MdnsWorld where
  "demo_world = MdnsWorld_new (str ''_x.local'')"

text \<open>An insertion is under way when the set is closed and emptied.\<close>

lemma demo_race:
  "\<exists>w i. set_step\<^sup>*\<^sup>* demo_world w \<and> closed (the_set w) \<and> set_resolvers (the_set w) = [] \<and> length (instances (the_set w)) = 1 \<and>
     waiting w = [] \<and> inflight w = [(MdnsBinding (str ''lo'') (IpV4 1), i)] \<and> retiring w = [] \<and> closing w = 0"
proof -
  let ?b = "MdnsBinding (str ''lo'') (IpV4 1)"
  have valid: "valid_service_name (str ''_x.local'')" by code_simp
  obtain s1 where s1: "upsert_bind (\<lambda>_ _. None) ?b (the_set demo_world) = Inr (0, s1)" "length (instances s1) = 1" "set_resolvers s1 = []"
    by (auto simp: demo_world_def MdnsWorld_new_def MdnsResolverSet_new_def upsert_bind_def mdns_bind_def MdnsResolver_new_def valid)
  let ?w0 = "demo_world\<lparr>waiting := [?b]\<rparr>" and ?w1 = "demo_world\<lparr>the_set := s1, inflight := [(?b, 0)]\<rparr>"
  let ?w2 = "?w1\<lparr>the_set := close_set s1, closing := 1\<rparr>" and ?w3 = "?w1\<lparr>the_set := close_set s1\<rparr>"
  have "set_step demo_world ?w0"
    using step_insert [of demo_world ?b] by (simp add: demo_world_def MdnsWorld_new_def MdnsResolverSet_new_def)
  moreover have "set_step ?w0 ?w1"
    using call_bind [of ?w0 "[]" ?b "[]" "\<lambda>_ _. None" 0 s1] s1(1)
    by (intro step_call) (simp add: demo_world_def MdnsWorld_new_def)
  moreover have "set_step ?w1 ?w2" using step_close [of ?w1] by (simp add: demo_world_def MdnsWorld_new_def)
  moreover have "set_step ?w2 ?w3"
    using call_drain [of ?w2 0 "[]" "close_set s1"] s1(3)
    by (intro step_call) (simp add: drain_def close_set_def demo_world_def MdnsWorld_new_def)
  ultimately have "set_step\<^sup>*\<^sup>* demo_world ?w3" by (meson converse_rtranclp_into_rtranclp r_into_rtranclp)
  then show ?thesis
    using s1(2,3) by (intro exI [of _ ?w3] exI [of _ 0]) (simp add: close_set_def demo_world_def MdnsWorld_new_def)
qed

text \<open>The candidate is turned away and shut down.\<close>

lemma demo_race_run:
  assumes "closed (the_set w)" "inflight w = [(b, i)]" "retiring w = []"
  shows "\<exists>w'. (call_step ^^ 2) w w' \<and> waiting w' = waiting w \<and> closing w' = closing w \<and> inflight w' = [] \<and> retiring w' = [] \<and>
    length (instances (the_set w')) = length (instances (the_set w))"
proof -
  let ?w1 = "w\<lparr>inflight := [], retiring := [i]\<rparr>" and ?w2 = "w\<lparr>inflight := [], the_set := snd (shutdown_instance [] i (the_set w)), retiring := []\<rparr>"
  have "call_step w ?w1" using call_commit [of w "[]" b i "[]" "Some RaceClosed" "the_set w"] assms by (simp add: upsert_commit_def)
  moreover have "call_step ?w1 ?w2"
    using call_retire [of ?w1 "[]" i "[]" "[]" "fst (shutdown_instance [] i (the_set w))" "snd (shutdown_instance [] i (the_set w))"] assms(3)
    by simp
  ultimately have "(call_step ^^ 2) w ?w2" by (auto simp: numeral_2_eq_2)
  then show ?thesis by (intro exI [of _ ?w2]) (simp add: shutdown_instance_eq)
qed

lemma call_run: "(call_step ^^ n) w w' \<Longrightarrow> set_step\<^sup>*\<^sup>* w w'"
proof (induction n arbitrary: w')
  case (Suc n)
  then obtain v where "(call_step ^^ n) w v" "call_step v w'" by auto
  then show ?case using Suc.IH step_call by (meson rtranclp.rtrancl_into_rtrancl)
qed simp

theorem set_never_leaks_witness:
  "\<exists>w. set_step\<^sup>*\<^sup>* demo_world w \<and> length (instances (the_set w)) = 1 \<and> closed (the_set w) \<and> live (the_set w) = {}"
proof -
  obtain w b i where w: "set_step\<^sup>*\<^sup>* demo_world w" "closed (the_set w)" "set_resolvers (the_set w) = []"
    "length (instances (the_set w)) = 1" "inflight w = [(b, i)]" "retiring w = []" using demo_race by blast
  obtain w' where w': "(call_step ^^ 2) w w'" "inflight w' = []" "retiring w' = []" "length (instances (the_set w')) = 1"
    using demo_race_run [OF w(2,5,6)] w(4) by auto
  then show ?thesis
    using set_never_leaks [of "str ''_x.local''" w w'] w call_run [OF w'(1)] rtranclp_trans [OF w(1) call_run [OF w'(1)]]
    by (intro exI [of _ w']) (simp add: demo_world_def)
qed







section \<open>Lookups over the set\<close>

lemma collect_group_distinct: "collect_group lim tagged srcs eps = (srcs', eps') \<Longrightarrow> distinct eps \<Longrightarrow> distinct eps'"
  by (induction lim tagged srcs eps rule: collect_group.induct) (auto split: if_splits)

lemma collect_group_limit: "collect_group (Some n) tagged srcs eps = (srcs', eps') \<Longrightarrow> length eps \<le> n \<Longrightarrow> length eps' \<le> n"
  by (induction "Some n" tagged srcs eps rule: collect_group.induct) (auto split: if_splits)

definition group_within :: "nat option \<Rightarrow> EndpointCandidateGroup \<Rightarrow> bool" where
  "group_within lim g \<longleftrightarrow> distinct (endpoints g) \<and> endpoints g \<noteq> [] \<and> (case lim of Some n \<Rightarrow> length (endpoints g) \<le> n | None \<Rightarrow> True)"

lemma candidate_groups_ok:
  assumes "g \<in> set (groups (mdns_candidate_groups H addr_of records lookup))"
  shows "group_within (record_limit lookup) g"
proof -
  obtain key tagged srcs eps where g: "collect_group (record_limit lookup) tagged [] [] = (srcs, eps)"
    "g = \<lparr>chain = key, endpoints = eps, sources = srcs\<rparr>" "eps \<noteq> []"
    using assms by (auto simp: mdns_candidate_groups_def Let_def split: prod.splits)
  show ?thesis using collect_group_distinct [OF g(1)] g collect_group_limit by (auto simp: group_within_def split: option.splits)
qed

lemma collect_candidates_spec:
  assumes "collect_candidates completed gs err = (gs', err')"
  shows "group_pairs gs' = group_pairs gs \<union> (\<Union>r \<in> set completed. case r of Inr c \<Rightarrow> group_pairs (groups c) | Inl _ \<Rightarrow> {})"
    "groups_ok gs \<Longrightarrow> list_all result_ok completed \<Longrightarrow> groups_ok gs'"
    "gs' = [] \<longleftrightarrow> gs = [] \<and> list_all (\<lambda>r. case r of Inr c \<Rightarrow> groups c = [] | Inl _ \<Rightarrow> True) completed"
    "err' = None \<Longrightarrow> err = None \<and> list_all (\<lambda>r. \<not> isl r) completed"
    "err' = Some e \<Longrightarrow> err = Some e \<or> Inl e \<in> set completed"
proof -
  have nonempty: "merge_group g gs \<noteq> []" for g gs by (cases gs) simp_all
  have "fold merge_group ns gs = [] \<longleftrightarrow> ns = [] \<and> gs = []" for ns gs
    using nonempty by (induction ns arbitrary: gs) auto
  with assms show "group_pairs gs' = group_pairs gs \<union> (\<Union>r \<in> set completed. case r of Inr c \<Rightarrow> group_pairs (groups c) | Inl _ \<Rightarrow> {})"
    "groups_ok gs \<Longrightarrow> list_all result_ok completed \<Longrightarrow> groups_ok gs'"
    "gs' = [] \<longleftrightarrow> gs = [] \<and> list_all (\<lambda>r. case r of Inr c \<Rightarrow> groups c = [] | Inl _ \<Rightarrow> True) completed"
    "err' = None \<Longrightarrow> err = None \<and> list_all (\<lambda>r. \<not> isl r) completed"
    "err' = Some e \<Longrightarrow> err = Some e \<or> Inl e \<in> set completed"
    by (induction completed gs err rule: collect_candidates.induct)
      (auto simp: merge_groups_def fold_merge_group result_ok_def)
qed

text \<open>C26: A candidate lookup over the set does not depend on the order in which its resolvers answer. Every
  single answer lists, per chain, distinct endpoints within the requested limit; the lookup fails
  exactly when no resolver of the family has an answer to give, and then with an error of one of
  them if there is one; otherwise the pairs of chain and endpoint of the result are exactly those of
  the answers, with one group per chain and no endpoint twice in it.\<close>

theorem set_candidates_any_order:
  assumes "mset completed = mset (pending_candidates suffix dns_name H addr_of ask s name lookup)"
  shows "list_all (\<lambda>r. case r of Inr c \<Rightarrow> list_all (group_within (record_limit lookup)) (groups c) | Inl _ \<Rightarrow> True) completed \<and>
    (case set_candidates s lookup completed of
      Inl e \<Rightarrow> list_all (\<lambda>r. case r of Inr c \<Rightarrow> groups c = [] | Inl _ \<Rightarrow> True) completed \<and>
        (Inl e \<in> set completed \<or> list_all (\<lambda>r. \<not> isl r) completed)
    | Inr c \<Rightarrow> groups c \<noteq> [] \<and> groups_ok (groups c) \<and>
        group_pairs (groups c) = (\<Union>r \<in> set (pending_candidates suffix dns_name H addr_of ask s name lookup).
          case r of Inr c \<Rightarrow> group_pairs (groups c) | Inl _ \<Rightarrow> {}))"
proof -
  let ?p = "pending_candidates suffix dns_name H addr_of ask s name lookup"
  have sets: "set completed = set ?p" by (rule mset_eq_setD [OF assms])
  have lim: "record_limit (exact_override lookup sq) = record_limit lookup" for sq
    by (simp add: exact_override_def with_record_limit_def with_family_def lookup_exact_def Let_def split: option.splits)
  have within: "list_all (group_within (record_limit lookup)) (groups c)" if "Inr c \<in> set ?p" for c
    using that lim by (force simp: pending_candidates_def mdns_lookup_candidates_def list_all_iff Let_def
        split: option.splits sum.splits dest: candidate_groups_ok)
  then have all: "list_all (\<lambda>r. case r of Inr c \<Rightarrow> list_all (group_within (record_limit lookup)) (groups c) | Inl _ \<Rightarrow> True) completed"
    by (auto simp: list_all_iff sets split: sum.splits)
  then have ok: "list_all result_ok completed"
    by (auto simp: list_all_iff result_ok_def group_within_def split: sum.splits)
  obtain gs err where c: "collect_candidates completed [] None = (gs, err)" by (cases "collect_candidates completed [] None")
  note spec = collect_candidates_spec [OF c]
  show ?thesis
  proof (cases "asked s (family lookup) = []")
    case True
    then have "completed = []" using assms by (simp add: pending_candidates_def)
    with True show ?thesis by (simp add: set_candidates_def)
  next
    case False
    then show ?thesis using all spec(1,3,4) spec(2) [OF _ ok] spec(5) sets
      by (auto simp: set_candidates_def c groups_ok_def split: option.splits)
  qed
qed


theorem set_candidates_any_order_witness:
  "case set_candidates (demo_set\<lparr>set_resolvers := [(MdnsBinding (str ''lo'') (IpV4 1), 0)], instances := [demo_mdns]\<rparr>)
       EndpointLookup_default [Inl (IoError (str ''timed out''))] of
     Inl e \<Rightarrow> Inl e \<in> set [Inl (IoError (str ''timed out'')) :: io_error + EndpointCandidates] | Inr c \<Rightarrow> False"
proof -
  let ?s = "demo_set\<lparr>set_resolvers := [(MdnsBinding (str ''lo'') (IpV4 1), 0)], instances := [demo_mdns]\<rparr>"
  have "pending_candidates (str ''.dhttp.net'') (\<lambda>_. True) ref_home med_outer (\<lambda>_ _. Inl TimedOut) ?s (str ''a.dhttp.net:1'')
      EndpointLookup_default = [Inl (IoError (str ''timed out''))]"
    by (simp add: pending_candidates_def asked_def snapshot_def EndpointLookup_default_def mdns_lookup_candidates_def
        demo_mdns_parts service_query_def demo_mdns_def)
  then have "mset [Inl (IoError (str ''timed out''))] =
      mset (pending_candidates (str ''.dhttp.net'') (\<lambda>_. True) ref_home med_outer (\<lambda>_ _. Inl TimedOut) ?s (str ''a.dhttp.net:1'') EndpointLookup_default)"
    by simp
  from set_candidates_any_order [OF this] show ?thesis
    by (auto simp: set_candidates_def split: sum.splits option.splits)
qed

end
