(* ===== verification/ErrorText.thy ===== *)
theory ErrorText
  imports Publishers
begin

text \<open>
  How the aggregates print themselves and their failures (\<^verbatim>\<open>src/resolvers.rs\<close> and
  \<^verbatim>\<open>src/publishers/aggregate.rs\<close>), and how such an error becomes an I/O error again when an aggregate is used
  as a member of another one. Text is what the formatter receives; a formatter never fails here, as writing
  to a string does not.
\<close>

definition newline :: u8 where "newline = 10"

section \<open>Names\<close>

text \<open>The members separated by commas, as the loops over \<^verbatim>\<open>enumerate\<close> write them.\<close>

fun write_members :: "nat \<Rightarrow> rstr list \<Rightarrow> rstr" where
  "write_members index [] = []"
| "write_members index (m # ms) = (if index \<noteq> 0 then str '', '' else []) @ m @ write_members (index + 1) ms"

definition Resolvers_display :: "Resolvers \<Rightarrow> rstr" where
  "Resolvers_display rs = str ''Resolvers('' @ write_members 0 (map entry_label (resolvers rs)) @ str '')''"

definition Publishers_display :: "Publishers \<Rightarrow> rstr" where
  "Publishers_display ps = str ''Publishers('' @ write_members 0 (map fst (publishers ps)) @ str '')''"

section \<open>Failures\<close>

text \<open>The loop over \<^verbatim>\<open>error.source()\<close>.\<close>

fun write_sources :: "nat \<Rightarrow> io_error option \<Rightarrow> rstr" where
  "write_sources index None = []"
| "write_sources index (Some (IoErr text src)) =
     newline # str ''    '' @ dec_digits index @ str ''. '' @ text @ write_sources (index + 1) src"

fun write_failures :: "(rstr \<times> io_error) list \<Rightarrow> rstr" where
  "write_failures [] = []"
| "write_failures ((label, e) # rest) =
     newline # str ''  - '' @ label @ str '': '' @ io_text e @ write_sources 1 (io_source e) @ write_failures rest"

definition format_failures :: "rstr \<Rightarrow> (rstr \<times> io_error) list \<Rightarrow> rstr" where
  "format_failures heading fails = heading @ write_failures fails"

definition ResolversError_display :: "(rstr \<times> io_error) list \<Rightarrow> rstr" where
  "ResolversError_display errors =
     (if errors = [] then str ''no DNS resolvers available''
      else str ''all DNS resolvers failed'' @ write_failures errors)"

definition PublishReport_display :: "PublishReport \<Rightarrow> rstr" where
  "PublishReport_display r =
     (if failures r = [] then dec_digits (length (successes r)) @ str '' DNS publisher(s) succeeded''
      else format_failures (str ''some DNS publishers failed'') (failures r))"

definition PublishersError_display :: "(rstr \<times> io_error) list \<Rightarrow> rstr" where
  "PublishersError_display errors =
     (if errors = [] then str ''no DNS publishers available''
      else format_failures (str ''all DNS publishers failed'') errors)"

text \<open>\<^verbatim>\<open>source\<close> of both aggregate errors: the first failure.\<close>

definition first_failure :: "(rstr \<times> io_error) list \<Rightarrow> io_error option" where
  "first_failure errors = (case errors of [] \<Rightarrow> None | (label, e) # _ \<Rightarrow> Some e)"

section \<open>Aggregates as members\<close>

text \<open>\<^verbatim>\<open>io::Error::other\<close> prints as the error it wraps and names the same source.\<close>

definition Resolvers_as_candidates ::
  "((rstr \<times> io_error) list + EndpointCandidates) \<Rightarrow> io_error + EndpointCandidates" where
  "Resolvers_as_candidates res =
     (case res of Inl errors \<Rightarrow> Inl (IoErr (ResolversError_display errors) (first_failure errors)) | Inr c \<Rightarrow> Inr c)"

definition Resolvers_as_resolve ::
  "((rstr \<times> io_error) list + LookupState) \<Rightarrow> io_error + LookupState" where
  "Resolvers_as_resolve res =
     (case res of Inl errors \<Rightarrow> Inl (IoErr (ResolversError_display errors) (first_failure errors)) | Inr s \<Rightarrow> Inr s)"

definition Publishers_as_publish :: "Publishers \<Rightarrow> (rstr \<times> (io_error + unit)) list \<Rightarrow> io_error + unit" where
  "Publishers_as_publish ps results =
     (case publish_all ps results of
        Inl errors \<Rightarrow> Inl (IoErr (PublishersError_display errors) (first_failure errors))
      | Inr report \<Rightarrow> Inr ())"

section \<open>The report as lines\<close>

text \<open>The chain of causes below an error, outermost first.\<close>

fun causes :: "io_error option \<Rightarrow> rstr list" where
  "causes None = []"
| "causes (Some (IoErr text src)) = text # causes src"

definition cause_line :: "nat \<times> rstr \<Rightarrow> rstr" where
  "cause_line c = str ''    '' @ dec_digits (fst c) @ str ''. '' @ snd c"

definition failure_lines :: "rstr \<times> io_error \<Rightarrow> rstr list" where
  "failure_lines f = (case f of (label, e) \<Rightarrow>
     (str ''  - '' @ label @ str '': '' @ io_text e) # map cause_line (enumerate 1 (causes (io_source e))))"

definition single_line :: "rstr \<times> io_error \<Rightarrow> bool" where
  "single_line f \<longleftrightarrow> newline \<notin> set (fst f) \<and> newline \<notin> set (io_text (snd f)) \<and> list_all (\<lambda>t. newline \<notin> set t) (causes (io_source (snd f)))"

lemma write_sources_lines: "write_sources i src = concat (map ((#) newline) (map cause_line (enumerate i (causes src))))"
  by (induction i src rule: write_sources.induct) (simp_all add: cause_line_def)

lemma write_failures_lines: "write_failures fails = concat (map ((#) newline) (concat (map failure_lines fails)))"
  by (induction fails rule: write_failures.induct) (simp_all add: write_sources_lines failure_lines_def)

lemma split_on_lines:
  "c \<notin> set l \<Longrightarrow> list_all (\<lambda>s. c \<notin> set s) ls \<Longrightarrow> split_on c (l @ concat (map ((#) c) ls)) = l # ls"
  by (induction ls arbitrary: l) (auto simp: split_on_single split_on_append)

lemma newline_free:
  "newline \<notin> set (str ''  - '')" "newline \<notin> set (str '': '')" "newline \<notin> set (str ''    '')" "newline \<notin> set (str ''. '')"
  "newline \<notin> set (dec_digits n)"
  using dec_digits_props [of n] by (auto simp: newline_def str_def list_all_iff is_ascii_digit_def)

lemma failure_lines_single: "single_line f \<Longrightarrow> list_all (\<lambda>s. newline \<notin> set s) (failure_lines f)"
  by (auto simp: single_line_def failure_lines_def cause_line_def list_all_iff newline_free enumerate_eq_zip
      dest: set_zip_rightD split: prod.splits)

lemma write_members_join: "write_members 0 ms = join_with (str '', '') ms"
proof -
  have "write_members (Suc i) ns = concat (map (\<lambda>n. str '', '' @ n) ns)" for i ns
    by (induction ns arbitrary: i) auto
  moreover have "join_with sep (n # ns) = n @ concat (map (\<lambda>n. sep @ n) ns)" for sep n ns
    by (induction ns arbitrary: n) auto
  ultimately show ?thesis by (cases ms) simp_all
qed

lemma report_lines:
  assumes "newline \<notin> set heading" and "list_all single_line fails"
  shows "split_on newline (heading @ write_failures fails) = heading # concat (map failure_lines fails)"
proof -
  have "list_all (\<lambda>s. newline \<notin> set s) (concat (map failure_lines fails))"
    using assms(2) failure_lines_single by (induction fails) auto
  then show ?thesis by (simp add: write_failures_lines split_on_lines assms(1))
qed

section \<open>Properties\<close>

text \<open>The report of a failed aggregate lookup or publication. Read line by line, it is a heading and then,
  for every failure in order, one line with the name and the error, followed by one line for each
  error in its chain of sources, numbered from 1; nothing is left out and nothing added. With no member at
  all the report is the single line that says so. Names and messages are assumed to be single lines.\<close>

theorem failure_report_lines:
  assumes "list_all single_line fails" and "fails \<noteq> []"
  shows "split_on newline (ResolversError_display fails) = str ''all DNS resolvers failed'' # concat (map failure_lines fails) \<and>
    split_on newline (PublishersError_display fails) = str ''all DNS publishers failed'' # concat (map failure_lines fails) \<and>
    split_on newline (PublishReport_display \<lparr>successes = oks, failures = fails\<rparr>) =
      str ''some DNS publishers failed'' # concat (map failure_lines fails) \<and>
    split_on newline (ResolversError_display []) = [str ''no DNS resolvers available''] \<and>
    split_on newline (PublishersError_display []) = [str ''no DNS publishers available'']"
proof -
  have h: "newline \<notin> set (str ''all DNS resolvers failed'')" "newline \<notin> set (str ''all DNS publishers failed'')"
    "newline \<notin> set (str ''some DNS publishers failed'')" "newline \<notin> set (str ''no DNS resolvers available'')"
    "newline \<notin> set (str ''no DNS publishers available'')"
    by (simp_all add: str_def newline_def)
  show ?thesis
    using report_lines [OF h(1) assms(1)] report_lines [OF h(2) assms(1)] report_lines [OF h(3) assms(1)] assms(2)
      split_on_single [OF h(4)] split_on_single [OF h(5)]
    by (simp add: ResolversError_display_def PublishersError_display_def PublishReport_display_def format_failures_def)
qed

theorem failure_report_lines_witness:
  "split_on newline (ResolversError_display [(str ''h3'', IoErr (str ''request failed'') (Some (IoError (str ''no route''))))]) =
     [str ''all DNS resolvers failed'', str ''  - h3: request failed'', str ''    1. no route'']"
proof -
  let ?f = "(str ''h3'', IoErr (str ''request failed'') (Some (IoError (str ''no route''))))"
  have "list_all single_line [?f]" by (simp add: single_line_def str_def newline_def)
  moreover have "failure_lines ?f = [str ''  - h3: request failed'', str ''    1. no route'']"
    by code_simp
  ultimately show ?thesis using failure_report_lines [of "[?f]" "[]"] by simp
qed

end
