(* ===== verification/Adapters.thy ===== *)
theory Adapters
  imports H3Publish HttpLookup MdnsSet ErrorText
begin

text \<open>
  The resolvers and publishers as members of the aggregates: the implementations of the traits
  \<^verbatim>\<open>Resolve\<close>, \<^verbatim>\<open>ResolveEndpointCandidates\<close> and \<^verbatim>\<open>Publish\<close> for \<^verbatim>\<open>H3Resolver\<close> (\<^verbatim>\<open>src/h3.rs\<close>, \<^verbatim>\<open>src/h3/lookup.rs\<close>),
  \<^verbatim>\<open>HttpResolver\<close> (\<^verbatim>\<open>src/http.rs\<close>) and \<^verbatim>\<open>MdnsResolverSet\<close> (\<^verbatim>\<open>src/mdns.rs\<close>). They run the resolver's own operation and
  turn its error into an I/O error, so their content is how every error prints and which source it names.

  The texts of foreign values (URLs, status codes, the errors of the transport, of \<^verbatim>\<open>nom\<close> and of the
  cryptography) are the parameter record \<open>foreign\<close>.
\<close>

record foreign =
  url_text :: "Url \<Rightarrow> rstr"
  status_text :: "nat \<Rightarrow> rstr"
  scheme_text :: "SignatureScheme \<Rightarrow> rstr"
  nom_error :: "nom_err \<Rightarrow> io_error"
  request_error :: io_error
  body_error :: io_error
  upload_error :: io_error
  credentials_error :: io_error
  identifier_error :: io_error
  utf8_error :: io_error
  base64_error :: io_error
  sign_error :: "qtls_sign_error \<Rightarrow> io_error"
  verify_error :: "VerifyError \<Rightarrow> io_error"
  certificate_details :: rstr

section \<open>Names of the resolvers\<close>

definition H3Resolver_display :: "foreign \<Rightarrow> 'e H3Resolver \<Rightarrow> rstr" where
  "H3Resolver_display F r = str ''H3 DNS Resolver('' @ url_text F (server_origin r) @ str '')''"

definition HttpResolver_display :: "foreign \<Rightarrow> HttpResolver \<Rightarrow> rstr" where
  "HttpResolver_display F r = str ''HTTP DNS Resolver('' @ url_text F (http_origin r) @ str '')''"

definition MdnsResolverSet_display :: "MdnsResolverSet \<Rightarrow> rstr" where
  "MdnsResolverSet_display s = str ''mDNS Resolver Set('' @ set_service_name s @ str '')''"

section \<open>Errors\<close>

fun LookupDecodeError_io :: "foreign \<Rightarrow> LookupDecodeError \<Rightarrow> io_error" where
  "LookupDecodeError_io F (TooManyRecords limit) = IoError (str ''multi-response contains more than '' @ dec_digits limit @ str '' records'')"
| "LookupDecodeError_io F MultiResponseInvalid = IoError (str ''invalid multi-record response'')"
| "LookupDecodeError_io F (ParseRecords e) = IoErr (str ''failed to parse DNS records from response'') (Some (nom_error F e))"

fun H3LookupError_io :: "foreign \<Rightarrow> H3LookupError \<Rightarrow> io_error" where
  "H3LookupError_io F H3LookupError.InvalidName = IoError (str ''invalid DNS name'')"
| "H3LookupError_io F H3LookupError.Request = IoErr (str ''DHTTP request failed'') (Some (request_error F))"
| "H3LookupError_io F H3LookupError.Body = IoErr (str ''DHTTP response body failed'') (Some (body_error F))"
| "H3LookupError_io F (H3LookupError.Timeout attempts) =
     IoError (str ''H3 DNS lookup timed out after '' @ dec_digits attempts @ str '' attempts of 3s'')"
| "H3LookupError_io F (H3LookupError.ResponseTooLarge limit) =
     IoError (str ''H3 DNS response exceeds '' @ dec_digits limit @ str '' bytes'')"
| "H3LookupError_io F (H3LookupError.Status status) = IoError (str ''H3 DNS server returned '' @ status_text F status)"
| "H3LookupError_io F (H3LookupError.Decode e) = IoErr (str ''failed to decode H3 DNS response'') (Some (LookupDecodeError_io F e))"
| "H3LookupError_io F H3LookupError.NoRecordFound = IoError (str ''no DNS record found'')"
| "H3LookupError_io F H3LookupError.NoUsableRecord = IoError (str ''H3 DNS response contained no usable records'')"

fun HttpLookupError_io :: "foreign \<Rightarrow> HttpLookupError \<Rightarrow> io_error" where
  "HttpLookupError_io F HttpLookupError.Request = IoErr (str ''HTTP DNS request failed'') (Some (request_error F))"
| "HttpLookupError_io F HttpLookupError.Timeout = IoError (str ''HTTP DNS request timed out after 9s'')"
| "HttpLookupError_io F (HttpLookupError.ResponseTooLarge limit) =
     IoError (str ''HTTP DNS response exceeds '' @ dec_digits limit @ str '' bytes'')"
| "HttpLookupError_io F (HttpLookupError.Status status) = IoError (str ''HTTP DNS server returned '' @ status_text F status)"
| "HttpLookupError_io F (HttpLookupError.Decode e) = IoErr (str ''failed to decode HTTP DNS response'') (Some (LookupDecodeError_io F e))"
| "HttpLookupError_io F HttpLookupError.NoRecordFound = IoError (str ''no DNS record found'')"
| "HttpLookupError_io F HttpLookupError.NoUsableRecord = IoError (str ''HTTP DNS response contained no usable records'')"

fun EncodeAuthorityDnsPacketError_io :: "foreign \<Rightarrow> EncodeAuthorityDnsPacketError \<Rightarrow> io_error" where
  "EncodeAuthorityDnsPacketError_io F AuthorityNameMismatch = IoError (str ''publisher authority name does not match dns name'')"
| "EncodeAuthorityDnsPacketError_io F DhttpSubjectKeyIdentifier =
     IoErr (str ''publisher authority has no valid dhttp subject key identifier'') (Some (identifier_error F))"
| "EncodeAuthorityDnsPacketError_io F EncodeEndpoint = IoError (str ''failed to encode endpoint address'')"
| "EncodeAuthorityDnsPacketError_io F SecondaryAuthority = IoError (str ''secondary authority cannot publish dns endpoints'')"

fun SignatureFieldsError_io :: "foreign \<Rightarrow> SignatureFieldsError \<Rightarrow> io_error" where
  "SignatureFieldsError_io F MissingCertificate = IoError (str ''missing publisher certificate'')"
| "SignatureFieldsError_io F (UnsupportedScheme scheme) = IoError (str ''unsupported signature scheme '' @ scheme_text F scheme)"
| "SignatureFieldsError_io F (UnsupportedAlgorithm alg) = IoError (str ''unsupported signature algorithm '' @ alg)"
| "SignatureFieldsError_io F (InvalidField fld) = IoError (str ''invalid '' @ fld @ str '' field'')"
| "SignatureFieldsError_io F InvalidUtf8 = IoErr (str ''invalid signature field utf-8'') (Some (utf8_error F))"
| "SignatureFieldsError_io F InvalidBase64 = IoErr (str ''invalid base64'') (Some (base64_error F))"
| "SignatureFieldsError_io F DigestMismatch = IoError (str ''content digest mismatch'')"
| "SignatureFieldsError_io F KeyIdMismatch = IoError (str ''signature keyid does not match publisher certificate'')"
| "SignatureFieldsError_io F (SignatureFieldsError.Sign e) = IoErr (str ''failed to sign DNS packet'') (Some (sign_error F e))"
| "SignatureFieldsError_io F InvalidCertificate = IoError (str ''invalid certificate: '' @ certificate_details F)"
| "SignatureFieldsError_io F (SignatureFieldsError.Verify e) = IoErr (str ''signature verification failed'') (Some (verify_error F e))"

definition StatusMessage_display :: "rstr \<Rightarrow> rstr" where
  "StatusMessage_display message = (if message = [] then [] else str '': '' @ message)"

fun H3PublishError_io :: "foreign \<Rightarrow> H3PublishError \<Rightarrow> io_error" where
  "H3PublishError_io F H3PublishError.IdentityRequired = IoError (str ''publishing requires a named DHTTP endpoint'')"
| "H3PublishError_io F H3PublishError.InvalidLease = IoError (str ''invalid or missing DHTTP DNS publish lease'')"
| "H3PublishError_io F H3PublishError.Credentials =
     IoErr (str ''failed to build local DHTTP signing authority'') (Some (credentials_error F))"
| "H3PublishError_io F H3PublishError.InvalidName = IoError (str ''invalid DNS name'')"
| "H3PublishError_io F H3PublishError.IdentityNameMismatch = IoError (str ''publisher identity does not match DNS name'')"
| "H3PublishError_io F (H3PublishError.EncodePacket e) =
     IoErr (str ''failed to encode H3 DNS publish packet'') (Some (EncodeAuthorityDnsPacketError_io F e))"
| "H3PublishError_io F (H3PublishError.PacketTooLarge limit) =
     IoError (str ''H3 DNS publish packet exceeds '' @ dec_digits limit @ str '' bytes'')"
| "H3PublishError_io F (H3PublishError.SignRequest e) =
     IoErr (str ''failed to sign H3 DNS publish request'') (Some (SignatureFieldsError_io F e))"
| "H3PublishError_io F H3PublishError.Request = IoErr (str ''DHTTP request failed'') (Some (request_error F))"
| "H3PublishError_io F H3PublishError.Upload = IoErr (str ''failed to upload H3 DNS publish packet'') (Some (upload_error F))"
| "H3PublishError_io F H3PublishError.Body = IoErr (str ''DHTTP response body failed'') (Some (body_error F))"
| "H3PublishError_io F (H3PublishError.ResponseTooLarge limit) =
     IoError (str ''H3 DNS response exceeds '' @ dec_digits limit @ str '' bytes'')"
| "H3PublishError_io F (H3PublishError.Status status message) =
     IoError (str ''H3 DNS server returned '' @ status_text F status @ StatusMessage_display message)"

section \<open>The traits\<close>

text \<open>\<open>map_err\<close> of the standard library, with the panics of the operation left as they are.\<close>

definition map_err :: "('e \<Rightarrow> io_error) \<Rightarrow> 'e + 'a \<Rightarrow> io_error + 'a" where
  "map_err f r = (case r of Inl e \<Rightarrow> Inl (f e) | Inr x \<Rightarrow> Inr x)"

definition h3_as_resolve ::
  "foreign \<Rightarrow> env \<Rightarrow> (request \<Rightarrow> nat \<Rightarrow> outcome) \<Rightarrow> nat \<Rightarrow> nat \<Rightarrow> 'e H3Resolver \<Rightarrow> rstr \<Rightarrow> rstr \<Rightarrow> Family option \<Rightarrow>
   ('e H3Resolver \<times> (io_error + src_record list)) option" where
  "h3_as_resolve F V net now later r hostname servname fam =
     map_option (\<lambda>(r, n, res). (r, map_err (H3LookupError_io F) res)) (h3_lookup V net now later r hostname fam)"

definition h3_as_candidates ::
  "foreign \<Rightarrow> env \<Rightarrow> (request \<Rightarrow> nat \<Rightarrow> outcome) \<Rightarrow> nat \<Rightarrow> nat \<Rightarrow> 'e H3Resolver \<Rightarrow> rstr \<Rightarrow> EndpointLookup \<Rightarrow>
   ('e H3Resolver \<times> (io_error + EndpointCandidates)) option" where
  "h3_as_candidates F V net now later r name lookup =
     map_option (\<lambda>(r, n, res). (r, map_err (H3LookupError_io F) res)) (h3_lookup_candidates V net now later r name lookup)"

definition h3_as_publish ::
  "foreign \<Rightarrow> env \<Rightarrow> (rstr \<Rightarrow> bool) \<Rightarrow> (bytes \<Rightarrow> bool) \<Rightarrow> (nat \<Rightarrow> bool) \<Rightarrow> u64 \<Rightarrow> (publish_request \<Rightarrow> post_outcome) \<Rightarrow>
   dhttp_endpoint H3Resolver \<Rightarrow> rstr \<Rightarrow> DquicEndpointAddr list \<Rightarrow> (dhttp_endpoint H3Resolver \<times> (io_error + unit)) option" where
  "h3_as_publish F V valid_name header_value in_clock created post r name ds =
     map_option (\<lambda>(r, res). (r, map_err (H3PublishError_io F) (case res of Inl e \<Rightarrow> Inl e | Inr _ \<Rightarrow> Inr ())))
       (publish_endpoints V valid_name header_value in_clock created post r name ds)"

definition http_as_resolve ::
  "foreign \<Rightarrow> env \<Rightarrow> (request \<Rightarrow> http_outcome) \<Rightarrow> nat \<Rightarrow> nat \<Rightarrow> HttpResolver \<Rightarrow> rstr \<Rightarrow> rstr \<Rightarrow> Family option \<Rightarrow>
   HttpResolver \<times> (io_error + src_record list)" where
  "http_as_resolve F V net now later r hostname servname fam =
     (case http_lookup V net now later r hostname fam of (r, b, res) \<Rightarrow> (r, map_err (HttpLookupError_io F) res))"

definition http_as_candidates ::
  "foreign \<Rightarrow> env \<Rightarrow> (request \<Rightarrow> http_outcome) \<Rightarrow> nat \<Rightarrow> nat \<Rightarrow> HttpResolver \<Rightarrow> rstr \<Rightarrow> EndpointLookup \<Rightarrow>
   HttpResolver \<times> (io_error + EndpointCandidates)" where
  "http_as_candidates F V net now later r name lookup =
     (case http_lookup_candidates V net now later r name lookup of (r, b, res) \<Rightarrow> (r, map_err (HttpLookupError_io F) res))"

text \<open>The multicast set reports I/O errors itself; \<open>completed\<close> are the answers of its members in the order of
  their completion.\<close>

definition mdns_as_candidates ::
  "MdnsResolverSet \<Rightarrow> (io_error + EndpointCandidates) list \<Rightarrow> rstr \<Rightarrow> EndpointLookup \<Rightarrow> io_error + EndpointCandidates" where
  "mdns_as_candidates s completed name lookup = set_candidates s lookup completed"

text \<open>Fixed texts for the examples.\<close>

definition demo_foreign :: foreign where
  "demo_foreign = \<lparr>url_text = (\<lambda>_. str ''https://dns.example/''), status_text = (\<lambda>n. dec_digits n), scheme_text = (\<lambda>_. []),
     nom_error = (\<lambda>_. IoError (str ''parse'')), request_error = IoError (str ''request''), body_error = IoError (str ''body''),
     upload_error = IoError (str ''upload''), credentials_error = IoError (str ''credentials''),
     identifier_error = IoError (str ''identifier''), utf8_error = IoError (str ''utf8''), base64_error = IoError (str ''base64''),
     sign_error = (\<lambda>_. IoError (str ''sign'')), verify_error = (\<lambda>_. IoError (str ''verify'')), certificate_details = []\<rparr>"

end
