(* ===== verification/AnswerSafety.thy ===== *)
theory AnswerSafety
  imports Adapters
begin

text \<open>
  What the answers of the server resolvers are worth over their whole life. A resolver is used by any
  sequence of lookups, publications and cache clearings; its cache is shared by all of them. The
  theory shows that every answer, cached or not, is the decoded content of a response that the server
  gave, at some time, to a request for the same normalised name and the same query, and lifts this to the aggregate
  of several resolvers.
\<close>

section \<open>Servers\<close>

text \<open>A server is represented by the answers it gives: \<open>srv rq hs body\<close> holds when it answers the request \<open>rq\<close>, at
  some time, with status 200, the headers \<open>hs\<close> and the complete body \<open>body\<close>. A network that talks to the server may
  delay, fail, truncate and repeat, but what it delivers in full was said by the server.\<close>

type_synonym server = "request \<Rightarrow> headers \<Rightarrow> bytes \<Rightarrow> bool"

definition h3_talks :: "server \<Rightarrow> (request \<Rightarrow> nat \<Rightarrow> outcome) \<Rightarrow> bool" where
  "h3_talks srv net \<longleftrightarrow> (\<forall>rq i resp. net rq i = Completed (Some resp) \<and> resp_status resp = 200 \<and> FrameError \<notin> set (resp_body resp) \<longrightarrow>
     srv rq (resp_headers resp) (data_of (resp_body resp)))"

definition http_talks :: "server \<Rightarrow> (request \<Rightarrow> http_outcome) \<Rightarrow> bool" where
  "http_talks srv net \<longleftrightarrow> (\<forall>rq resp. net rq = HttpCompleted (Some resp) \<and> hr_status resp = 200 \<and> None \<notin> set (hr_chunks resp) \<longrightarrow>
     srv rq (hr_headers resp) (concat (List.map_filter (\<lambda>c. c) (hr_chunks resp))))"

lemma final_served: "h3_talks srv net \<Longrightarrow> final_result (net rq i) = Inr (hs, body) \<Longrightarrow> srv rq hs body"
  by (auto simp: h3_talks_def final_result_def lookup_response_def read_body_limited_spec
      split: outcome.splits option.splits if_splits sum.splits ReadBodyError.splits)

lemma read_chunks_complete: "read_chunks bs cs = Inr body \<Longrightarrow> None \<notin> set cs"
  by (induction bs cs rule: read_chunks.induct) (auto split: if_splits)

lemma fetch_served:
  assumes "http_talks srv net" and "net rq = HttpCompleted result" and "fetch result = Inr (hs, body)"
  shows "srv rq hs body"
proof -
  obtain resp where resp: "result = Some resp" "hr_status resp = 200" "read_chunks [] (hr_chunks resp) = Inr body" "hs = hr_headers resp"
    using assms(3) by (auto simp: fetch_def split: option.splits if_splits sum.splits)
  then have "None \<notin> set (hr_chunks resp)" "body = concat (List.map_filter (\<lambda>c. c) (hr_chunks resp))"
    using read_chunks_complete read_chunks_bounded [OF resp(3)] by auto
  with resp(1,2,4) assms(1,2) show ?thesis unfolding http_talks_def by blast
qed

section \<open>Histories\<close>

inductive h3_step :: "env \<Rightarrow> server \<Rightarrow> dhttp_endpoint H3Resolver \<Rightarrow> dhttp_endpoint H3Resolver \<Rightarrow> bool" for V srv where
  h3_candidates_step: "h3_talks srv net \<Longrightarrow> h3_lookup_candidates V net now later r name requested = Some (r', n, res) \<Longrightarrow> h3_step V srv r r'"
| h3_records_step: "h3_talks srv net \<Longrightarrow> h3_lookup V net now later r hostname fam = Some (r', n, recs) \<Longrightarrow> h3_step V srv r r'"
| h3_publish_step: "publish_endpoints V valid_name header_value in_clock created post r name ds = Some (r', pub) \<Longrightarrow> h3_step V srv r r'"
| h3_clear_step: "h3_step V srv r (h3_clear_cache r)"

definition h3_initial :: "Url \<Rightarrow> dhttp_endpoint H3Resolver \<Rightarrow> bool" where
  "h3_initial origin r \<longleftrightarrow> (\<exists>ep. H3Resolver_new origin ep = Inr r) \<or> H3Resolver_anonymous origin = Inr r"

inductive http_step :: "env \<Rightarrow> server \<Rightarrow> HttpResolver \<Rightarrow> HttpResolver \<Rightarrow> bool" for V srv where
  http_candidates_step: "http_talks srv net \<Longrightarrow> http_lookup_candidates V net now later r name requested = (r', b, res) \<Longrightarrow> http_step V srv r r'"
| http_records_step: "http_talks srv net \<Longrightarrow> http_lookup V net now later r hostname fam = (r', b, recs) \<Longrightarrow> http_step V srv r r'"
| http_clear_step: "http_step V srv r (http_clear_cache r)"

section \<open>Decoded answers\<close>

text \<open>The candidates are the content of a response that the server gave to a request with this key.\<close>

definition decoded_answer :: "env \<Rightarrow> server \<Rightarrow> Url \<Rightarrow> Source \<Rightarrow> LookupKey \<Rightarrow> EndpointCandidates \<Rightarrow> bool" where
  "decoded_answer V srv origin source k cands \<longleftrightarrow> (\<exists>host lookup hs body ans.
     k = LookupKey_new host lookup \<and> srv (lookup_url origin host lookup) hs body \<and> candidates ans = cands \<and>
     decode_lookup_response (env_codec V) (env_home V) (env_crypto V) (env_addr_of V) host lookup source hs body = Inr ans)"

definition h3_source :: "env \<Rightarrow> 'e H3Resolver \<Rightarrow> Source" where
  "h3_source V r = Source.H3 (env_origin_ascii V (server_origin r))"

abbreviation h3_cache_ok :: "env \<Rightarrow> server \<Rightarrow> 'e H3Resolver \<Rightarrow> bool" where
  "h3_cache_ok V srv r \<equiv> h3c.all_entries (decoded_answer V srv (server_origin r) (h3_source V r)) (h3_cache r)"

abbreviation http_cache_ok :: "env \<Rightarrow> server \<Rightarrow> HttpResolver \<Rightarrow> bool" where
  "http_cache_ok V srv r \<equiv> httpc.all_entries (decoded_answer V srv (http_origin r) (http_source V r)) (http_answers r)"

lemma h3_not_fetched:
  assumes "h3_lookup_candidates V net now later r name requested = Some (r', n, res)" and "n = 0 \<or> isl res"
  shows "h3_cache r' = h3_cache r \<and> isl res \<or> (\<exists>host sq got.
    endpoint_lookup_name_and_sequence (env_dns_name V) (env_home V) name = Some (host, sq) \<and>
    cache_get now (LookupKey_new host (Api.exact_override requested sq)) (h3_cache r) = (h3_cache r', got) \<and>
    (\<forall>cands. res = Inr cands \<longrightarrow> got = Some cands))"
proof (cases "\<exists>host sq. endpoint_lookup_name_and_sequence (env_dns_name V) (env_home V) name = Some (host, sq) \<and> \<not> own_origin r host")
  case False
  then show ?thesis
    using assms(1) by (auto simp: h3_lookup_candidates_def own_origin_def split: option.splits if_splits prod.splits)
next
  case True
  then obtain host sq where p: "endpoint_lookup_name_and_sequence (env_dns_name V) (env_home V) name = Some (host, sq)" "\<not> own_origin r host"
    by blast
  obtain m rr where m: "lookup_response_with_retry (net (lookup_url (server_origin r) host (Api.exact_override requested sq))) = Some (m, rr)"
    using retry_spec by fastforce
  then have "m \<noteq> 0" using retry_count by fastforce
  obtain c got where "cache_get now (LookupKey_new host (Api.exact_override requested sq)) (h3_cache r) = (c, got)" by fastforce
  then show ?thesis
    using assms \<open>m \<noteq> 0\<close> p(1) by (auto simp: h3_lookup_candidates_cases [OF p] m split: option.splits sum.splits prod.splits)
qed

lemma http_not_fetched:
  assumes "http_lookup_candidates V net now later r name requested = (r', b, res)" and "\<not> b \<or> isl res"
  shows "http_answers r' = http_answers r \<and> isl res \<or> (\<exists>host sq got.
    endpoint_lookup_name_and_sequence (env_dns_name V) (env_home V) name = Some (host, sq) \<and>
    http_cache_get now (CacheKey_new host (Api.exact_override requested sq)) (http_answers r) = (http_answers r', got) \<and>
    (\<forall>cands. res = Inr cands \<longrightarrow> got = Some cands))"
proof (cases "endpoint_lookup_name_and_sequence (env_dns_name V) (env_home V) name")
  case None
  then show ?thesis using assms by (auto simp: http_lookup_candidates_def)
next
  case (Some p)
  then obtain host sq where p: "endpoint_lookup_name_and_sequence (env_dns_name V) (env_home V) name = Some (host, sq)"
    by (cases p) simp
  obtain c got where "http_cache_get now (CacheKey_new host (Api.exact_override requested sq)) (http_answers r) = (c, got)" by fastforce
  then show ?thesis
    using assms p by (auto simp: http_lookup_candidates_def Let_def split: option.splits sum.splits prod.splits http_outcome.splits)
qed

lemma h3_lookup_decoded:
  assumes "h3_lookup_candidates V net now later r name requested = Some (r', n, res)" and "h3_cache_ok V srv r" and "h3_talks srv net"
  shows "h3_cache_ok V srv r'" and "res = Inr cands \<Longrightarrow> \<exists>host sq.
      endpoint_lookup_name_and_sequence (env_dns_name V) (env_home V) name = Some (host, sq) \<and>
      decoded_answer V srv (server_origin r) (h3_source V r) (LookupKey_new host (Api.exact_override requested sq)) cands"
proof -
  let ?P = "decoded_answer V srv (server_origin r) (h3_source V r)"
  have "h3c.all_entries ?P (h3_cache r') \<and> (\<forall>cands. res = Inr cands \<longrightarrow> (\<exists>host sq.
      endpoint_lookup_name_and_sequence (env_dns_name V) (env_home V) name = Some (host, sq) \<and>
      ?P (LookupKey_new host (Api.exact_override requested sq)) cands))"
  proof (cases "n = 0 \<or> isl res")
    case True
    from h3_not_fetched [OF assms(1) this] show ?thesis
      using h3c.get_all_entries [OF assms(2)] h3c.served_entry [OF assms(2)] assms(2) by (metis Inl_Inr_False fst_conv isl_def snd_conv)
  next
    case False
    then obtain cands where lk: "h3_lookup_candidates V net now later r name requested = Some (r', n, Inr cands)" "n \<noteq> 0" "res = Inr cands"
      using assms(1) by (cases res) auto
    from lk(1,2) obtain host sq hs body ans where f:
      "endpoint_lookup_name_and_sequence (env_dns_name V) (env_home V) name = Some (host, sq)"
      "final_result (net (lookup_url (server_origin r) host (Api.exact_override requested sq)) n) = Inr (hs, body)"
      "decode_lookup_response (env_codec V) (env_home V) (env_crypto V) (env_addr_of V) host (Api.exact_override requested sq)
         (Source.H3 (env_origin_ascii V (server_origin r))) hs body = Inr ans" "candidates ans = cands"
      "h3_cache r' = cache_insert later (LookupKey_new host (Api.exact_override requested sq)) cands (answer_ttl ans * NANOS)
         (fst (cache_get now (LookupKey_new host (Api.exact_override requested sq)) (h3_cache r)))"
      by (rule h3_fetched)
    have "?P (LookupKey_new host (Api.exact_override requested sq)) cands"
      using f(3,4) final_served [OF assms(3) f(2)] unfolding decoded_answer_def h3_source_def by blast
    then show ?thesis using f(1) lk(3) h3c.insert_all_entries [OF h3c.get_all_entries [OF assms(2)]] by (auto simp: f(5))
  qed
  then show "h3_cache_ok V srv r'" "res = Inr cands \<Longrightarrow> \<exists>host sq.
      endpoint_lookup_name_and_sequence (env_dns_name V) (env_home V) name = Some (host, sq) \<and>
      ?P (LookupKey_new host (Api.exact_override requested sq)) cands"
    using h3_lookup_candidates_frame [OF assms(1)] by (simp_all add: h3_source_def)
qed

lemma http_lookup_candidates_frame:
  "http_lookup_candidates V net now later r name requested = (r', b, res) \<Longrightarrow> http_origin r' = http_origin r"
  by (auto simp: http_lookup_candidates_def Let_def split: option.splits prod.splits sum.splits http_outcome.splits)

lemma http_lookup_decoded:
  assumes "http_lookup_candidates V net now later r name requested = (r', b, res)" and "http_cache_ok V srv r" and "http_talks srv net"
  shows "http_cache_ok V srv r'" and "res = Inr cands \<Longrightarrow> \<exists>host sq.
      endpoint_lookup_name_and_sequence (env_dns_name V) (env_home V) name = Some (host, sq) \<and>
      decoded_answer V srv (http_origin r) (http_source V r) (LookupKey_new host (Api.exact_override requested sq)) cands"
proof -
  let ?P = "decoded_answer V srv (http_origin r) (http_source V r)"
  have key: "CacheKey_new = LookupKey_new" by (simp add: fun_eq_iff CacheKey_new_def LookupKey_new_def)
  have "httpc.all_entries ?P (http_answers r') \<and> (\<forall>cands. res = Inr cands \<longrightarrow> (\<exists>host sq.
      endpoint_lookup_name_and_sequence (env_dns_name V) (env_home V) name = Some (host, sq) \<and>
      ?P (LookupKey_new host (Api.exact_override requested sq)) cands))"
  proof (cases "\<not> b \<or> isl res")
    case True
    from http_not_fetched [OF assms(1) this] show ?thesis
      using httpc.get_all_entries [OF assms(2)] httpc.served_entry [OF assms(2)] assms(2) unfolding key
      by (metis Inl_Inr_False fst_conv isl_def snd_conv)
  next
    case False
    then obtain cands where lk: "http_lookup_candidates V net now later r name requested = (r', True, Inr cands)" "res = Inr cands"
      using assms(1) by (cases res) auto
    from lk(1) obtain host sq resp body ans where f:
      "endpoint_lookup_name_and_sequence (env_dns_name V) (env_home V) name = Some (host, sq)"
      "net (lookup_url (http_origin r) host (Api.exact_override requested sq)) = HttpCompleted (Some resp)"
      "fetch (Some resp) = Inr (hr_headers resp, body)"
      "decode_lookup_response (env_codec V) (env_home V) (env_crypto V) (env_addr_of V) host (Api.exact_override requested sq)
         (http_source V r) (hr_headers resp) body = Inr ans" "candidates ans = cands"
      "r' = r\<lparr>http_answers := http_cache_insert later (CacheKey_new host (Api.exact_override requested sq)) cands (answer_ttl ans * NANOS)
         (fst (http_cache_get now (CacheKey_new host (Api.exact_override requested sq)) (http_answers r)))\<rparr>"
      by (rule http_fetched)
    have "?P (LookupKey_new host (Api.exact_override requested sq)) cands"
      using f(4,5) fetch_served [OF assms(3) f(2,3)] unfolding decoded_answer_def by blast
    then show ?thesis using f(1) lk(2) httpc.insert_all_entries [OF httpc.get_all_entries [OF assms(2)]] by (auto simp: f(6) key)
  qed
  then show "http_cache_ok V srv r'" "res = Inr cands \<Longrightarrow> \<exists>host sq.
      endpoint_lookup_name_and_sequence (env_dns_name V) (env_home V) name = Some (host, sq) \<and>
      ?P (LookupKey_new host (Api.exact_override requested sq)) cands"
    using http_lookup_candidates_frame [OF assms(1)] by (simp_all add: http_source_def)
qed

section \<open>The caches over a history\<close>

lemma all_entries_mono:
  "(\<And>t k v. cache_live c' t k = Some v \<Longrightarrow> cache_live c t k = Some v) \<Longrightarrow> h3c.all_entries P c \<Longrightarrow> h3c.all_entries P c'"
  unfolding h3c.all_entries_def by blast

lemma invalidate_entries: "h3c.all_entries P c \<Longrightarrow> h3c.all_entries P (invalidate_name name c)"
  by (erule all_entries_mono [rotated]) (auto simp: cache_live_def invalidate_name_def Let_def split: if_splits)

lemma empty_entries: "positive c = Map.empty \<Longrightarrow> h3c.all_entries P c"
  unfolding h3c.all_entries_def by (simp add: cache_live_def)

lemma empty_http_entries: "httpc.all_entries P Map.empty"
  unfolding httpc.all_entries_def by (simp add: http_cache_live_def)

lemma h3_step_ok:
  assumes "h3_step V srv r r'" and "h3_cache_ok V srv r"
  shows "h3_cache_ok V srv r' \<and> server_origin r' = server_origin r"
  using assms
proof (induction rule: h3_step.induct)
  case (h3_candidates_step net now later r name requested r' n res)
  then show ?case using h3_lookup_decoded(1) [OF h3_candidates_step(2,3,1)] h3_lookup_candidates_frame by blast
next
  case (h3_records_step net now later r hostname fam r' n recs)
  from h3_records_step(2) have "r' = r \<or> (\<exists>n res. h3_lookup_candidates V net now later r hostname (with_family fam EndpointLookup_default) = Some (r', n, res))"
    by (auto simp: h3_lookup_def split: if_splits)
  then show ?case using h3_records_step(1,3) h3_lookup_decoded(1) [OF _ h3_records_step(3,1)] h3_lookup_candidates_frame by blast
next
  case (h3_publish_step valid_name header_value in_clock created post r name ds r' pub)
  have "r' = r \<or> r' = r\<lparr>h3_cache := invalidate_name name (h3_cache r)\<rparr>"
  proof (cases pub)
    case (Inl e)
    then show ?thesis using publish_endpoints_Inl h3_publish_step.hyps by blast
  next
    case (Inr lease)
    then show ?thesis using publish_endpoints_Inr h3_publish_step.hyps by metis
  qed
  then show ?case using h3_publish_step.prems invalidate_entries by (auto simp: h3_source_def)
next
  case (h3_clear_step r)
  then show ?case
    by (auto simp: h3_clear_cache_def cache_clear_def intro: empty_entries)
qed

lemma http_step_ok:
  assumes "http_step V srv r r'" and "http_cache_ok V srv r"
  shows "http_cache_ok V srv r' \<and> http_origin r' = http_origin r"
  using assms
proof (induction rule: http_step.induct)
  case (http_candidates_step net now later r name requested r' b res)
  then show ?case using http_lookup_decoded(1) [OF http_candidates_step(2,3,1)] http_lookup_candidates_frame by blast
next
  case (http_records_step net now later r hostname fam r' b recs)
  then obtain res where "http_lookup_candidates V net now later r hostname (with_family fam EndpointLookup_default) = (r', b, res)"
    by (auto simp: http_lookup_def split: prod.splits sum.splits)
  then show ?case using http_lookup_decoded(1) [OF _ http_records_step(3,1)] http_lookup_candidates_frame by blast
next
  case (http_clear_step r)
  then show ?case by (auto simp: http_clear_cache_def intro: empty_http_entries)
qed

lemma h3_history_ok:
  assumes "(h3_step V srv)\<^sup>*\<^sup>* r0 r" and "h3_initial origin r0"
  shows "h3_cache_ok V srv r \<and> server_origin r = origin"
  using assms
proof (induction rule: rtranclp_induct)
  case base
  then show ?case
    by (auto simp: h3_initial_def H3Resolver_new_def H3Resolver_anonymous_def LookupCache_default_def
        intro!: empty_entries split: sum.splits)
next
  case (step r r')
  then show ?case using h3_step_ok by blast
qed

lemma http_history_ok:
  assumes "(http_step V srv)\<^sup>*\<^sup>* r0 r" and "HttpResolver_new valid built origin = Inr r0"
  shows "http_cache_ok V srv r \<and> http_origin r = origin"
  using assms
proof (induction rule: rtranclp_induct)
  case base
  then show ?case
    by (auto simp: HttpResolver_new_def intro!: empty_http_entries split: sum.splits)
next
  case (step r r')
  then show ?case using http_step_ok by blast
qed

section \<open>Decoded answers are well formed\<close>

lemma decoded_wf:
  assumes "decode_lookup_response C H K addr_of name lookup source hs body = Inr ans"
  shows "groups_ok (groups (candidates ans)) \<and> groups (candidates ans) \<noteq> [] \<and>
    (\<forall>g \<in> set (groups (candidates ans)). endpoints g \<noteq> [] \<and> sources g = [source])"
proof -
  obtain multi rejected eps gs where
    gs: "gs = select_group_pairs (filter_endpoint_candidate_groups addr_of (grouped_endpoint_candidates H eps) (family lookup)) (sequences lookup)"
    and grp: "groups (candidates ans) = snd (build_groups (record_limit lookup) source gs (None, []))" "groups (candidates ans) \<noteq> []"
    by (rule decode_lookup_cases [OF assms])
  have "distinct (map fst gs)" unfolding gs by (rule filtered_distinct) (simp add: grouped_spec)
  then have "distinct (map chain (groups (candidates ans)))"
    by (simp add: grp build_groups_spec case_prod_unfold comp_def distinct_map_filter)
  then show ?thesis
    using grp(2) kept_records_props(2) by (auto simp: grp(1) groups_ok_def build_groups_spec list_all_iff)
qed

section \<open>Properties\<close>

text \<open>C7: Answers stay authentic over the whole life of a resolver. After any history of lookups, publications and
  cache clearings, an answer of the H3 resolver, whether it was fetched or comes from the cache, is exactly the
  decoded content of a response that the server gave for this query and for this name up to case and a
  trailing dot: nothing is served under another name, another query or another server, and no entry is
  altered by what happened in between.\<close>

theorem h3_answers_authentic:
  assumes "h3_initial origin r0" and "(h3_step V srv)\<^sup>*\<^sup>* r0 r" and "h3_talks srv net"
    and "h3_lookup_candidates V net now later r name requested = Some (r', n, Inr cands)"
  shows "\<exists>host sq host' hs body ans.
    endpoint_lookup_name_and_sequence (env_dns_name V) (env_home V) name = Some (host, sq) \<and>
    to_ascii_lowercase (trim_end_matches dot host') = to_ascii_lowercase (trim_end_matches dot host) \<and>
    srv (lookup_url origin host' (Api.exact_override requested sq)) hs body \<and>
    decode_lookup_response (env_codec V) (env_home V) (env_crypto V) (env_addr_of V) host' (Api.exact_override requested sq)
      (Source.H3 (env_origin_ascii V origin)) hs body = Inr ans \<and> candidates ans = cands"
proof -
  note ok = h3_history_ok [OF assms(2,1)]
  obtain host sq where "endpoint_lookup_name_and_sequence (env_dns_name V) (env_home V) name = Some (host, sq)"
    "decoded_answer V srv (server_origin r) (h3_source V r) (LookupKey_new host (Api.exact_override requested sq)) cands"
    using h3_lookup_decoded(2) [OF assms(4) _ assms(3)] ok by blast
  then show ?thesis using ok by (simp add: decoded_answer_def LookupKey_new_def h3_source_def) metis
qed

lemma demo_initial: "h3_initial demo_origin demo_resolver"
proof -
  have "validate_server_origin demo_origin True = Inr ()" by code_simp
  then show ?thesis by (simp add: h3_initial_def H3Resolver_anonymous_def demo_resolver_def)
qed

text \<open>A server with one answer for every request, and a lookup after which the network is gone.\<close>

definition demo_server :: server where
  "demo_server rq hs body \<longleftrightarrow> hs = (\<lambda>_. []) \<and> body = encode ref_codec \<lparr>mr_records = [demo_response]\<rparr>"

lemma demo_talks: "h3_talks demo_server demo_net" "h3_talks demo_server (\<lambda>_ _. outcome.TimedOut)" "http_talks demo_server (\<lambda>_. HttpTimedOut)"
  by (auto simp: h3_talks_def http_talks_def demo_net_def demo_server_def)

lemma demo_cached:
  fixes r1 :: "dhttp_endpoint H3Resolver"
  assumes "h3_lookup_candidates demo_env demo_net 0 5 demo_resolver (str ''com:1'') EndpointLookup_default = Some (r1, 1, Inr demo_candidates)"
  shows "\<exists>r2. h3_lookup_candidates demo_env (\<lambda>_ _. outcome.TimedOut) 6 7 r1 (str ''com:1'') EndpointLookup_default = Some (r2, 0, Inr demo_candidates)"
proof -
  obtain host sq hs body ans where f:
    "endpoint_lookup_name_and_sequence (env_dns_name demo_env) (env_home demo_env) (str ''com:1'') = Some (host, sq)"
    "\<not> own_origin (demo_resolver :: dhttp_endpoint H3Resolver) host"
    "snd (cache_get 0 (LookupKey_new host (Api.exact_override EndpointLookup_default sq)) (h3_cache (demo_resolver :: dhttp_endpoint H3Resolver))) = None"
    "final_result (demo_net (lookup_url demo_origin host (Api.exact_override EndpointLookup_default sq)) 1) = Inr (hs, body)"
    "decode_lookup_response ref_codec ref_home ref_crypto demo_addr_of host (Api.exact_override EndpointLookup_default sq)
       (Source.H3 (env_origin_ascii demo_env demo_origin)) hs body = Inr ans"
    "h3_cache r1 = cache_insert 5 (LookupKey_new host (Api.exact_override EndpointLookup_default sq)) demo_candidates (answer_ttl ans * NANOS)
       (fst (cache_get 0 (LookupKey_new host (Api.exact_override EndpointLookup_default sq)) (h3_cache (demo_resolver :: dhttp_endpoint H3Resolver))))"
    by (rule h3_fetched [OF assms]) (simp_all add: demo_resolver_def)
  have name: "host = str ''com''" "sq = Some 1" using f(1) by (simp_all add: demo_name)
  have lk: "Api.exact_override EndpointLookup_default (Some 1) = lookup_exact 1"
    by (simp add: Api.exact_override_def EndpointLookup_default_def lookup_exact_def with_family_def)
  have "hs = (\<lambda>_. [])" "body = encode ref_codec \<lparr>mr_records = [demo_response]\<rparr>"
    using final_served [OF demo_talks(1) f(4)] by (simp_all add: demo_server_def)
  then have "answer_ttl ans = freshness 300 (\<lambda>_. [])" using f(5) by (auto simp: name lk demo_decoded)
  moreover have "freshness 300 (\<lambda>_. []) = 300" by code_simp
  ultimately have live: "snd (cache_get 6 (LookupKey_new host (Api.exact_override EndpointLookup_default sq)) (h3_cache r1)) = Some demo_candidates"
    using h3c.fetched_then_served [OF f(3), of 5 6 demo_candidates "answer_ttl ans * NANOS"] by (simp add: f(6) NANOS_def)
  have "\<not> own_origin r1 host" using f(2) h3_lookup_candidates_frame [OF assms] by (simp add: own_origin_def)
  from h3_lookup_candidates_cases [OF f(1) this] live show ?thesis by (auto split: prod.splits)
qed

lemma demo_history:
  obtains r1 :: "dhttp_endpoint H3Resolver" where "(h3_step demo_env demo_server)\<^sup>*\<^sup>* demo_resolver r1"
    "h3_lookup_candidates demo_env demo_net 0 5 demo_resolver (str ''com:1'') EndpointLookup_default = Some (r1, 1, Inr demo_candidates)"
proof -
  obtain r1 :: "dhttp_endpoint H3Resolver" where r1:
    "h3_lookup_candidates demo_env demo_net 0 5 demo_resolver (str ''com:1'') EndpointLookup_default = Some (r1, 1, Inr demo_candidates)"
    using demo_first_lookup by blast
  show thesis using that [OF r_into_rtranclp [of "h3_step demo_env demo_server", OF h3_candidates_step [OF demo_talks(1) r1]] r1] .
qed

theorem h3_answers_authentic_witness:
  "\<exists>r1 r2 :: dhttp_endpoint H3Resolver. \<exists>n cands host' hs body ans.
     h3_lookup_candidates demo_env demo_net 0 5 demo_resolver (str ''com:1'') EndpointLookup_default = Some (r1, 1, Inr demo_candidates) \<and>
     h3_lookup_candidates demo_env (\<lambda>_ _. outcome.TimedOut) 6 7 r1 (str ''com:1'') EndpointLookup_default = Some (r2, n, Inr cands) \<and>
     to_ascii_lowercase (trim_end_matches dot host') = str ''com'' \<and> demo_server (lookup_url demo_origin host' (lookup_exact 1)) hs body \<and>
     decode_lookup_response ref_codec ref_home ref_crypto demo_addr_of host' (lookup_exact 1)
       (Source.H3 (str ''https://dns.example'')) hs body = Inr ans \<and> candidates ans = cands"
proof -
  obtain r1 :: "dhttp_endpoint H3Resolver" where r1: "(h3_step demo_env demo_server)\<^sup>*\<^sup>* demo_resolver r1"
    "h3_lookup_candidates demo_env demo_net 0 5 demo_resolver (str ''com:1'') EndpointLookup_default = Some (r1, 1, Inr demo_candidates)"
    by (rule demo_history)
  obtain r2 where r2: "h3_lookup_candidates demo_env (\<lambda>_ _. outcome.TimedOut) 6 7 r1 (str ''com:1'') EndpointLookup_default = Some (r2, 0, Inr demo_candidates)"
    using demo_cached [OF r1(2)] by blast
  have "to_ascii_lowercase (trim_end_matches dot (str ''com'')) = str ''com''" by code_simp
  moreover have "Api.exact_override EndpointLookup_default (Some 1) = lookup_exact 1"
    by (simp add: Api.exact_override_def EndpointLookup_default_def lookup_exact_def with_family_def)
  ultimately have "\<exists>host' hs body ans. to_ascii_lowercase (trim_end_matches dot host') = str ''com'' \<and>
     demo_server (lookup_url demo_origin host' (lookup_exact 1)) hs body \<and>
     decode_lookup_response ref_codec ref_home ref_crypto demo_addr_of host' (lookup_exact 1)
       (Source.H3 (str ''https://dns.example'')) hs body = Inr ans \<and> candidates ans = demo_candidates"
    using h3_answers_authentic [OF demo_initial r1(1) demo_talks(2) r2] by (auto simp: demo_name)
  with r1(2) r2 show ?thesis by blast
qed

section \<open>The aggregate of server resolvers\<close>

text \<open>What a server resolver answers as a member of an aggregate: an error of its own, or the groups of a decoded
  response from its server.\<close>

definition server_answer :: "env \<Rightarrow> server \<Rightarrow> Url \<Rightarrow> Source \<Rightarrow> rstr \<Rightarrow> EndpointLookup \<Rightarrow> io_error + EndpointCandidates \<Rightarrow> bool" where
  "server_answer V srv origin source name lookup res \<longleftrightarrow> (\<forall>cands. res = Inr cands \<longrightarrow> (\<exists>host sq.
     endpoint_lookup_name_and_sequence (env_dns_name V) (env_home V) name = Some (host, sq) \<and>
     decoded_answer V srv origin source (LookupKey_new host (Api.exact_override lookup sq)) cands))"

lemma map_err_Inr: "map_err f r = Inr x \<longleftrightarrow> r = Inr x"
  by (auto simp: map_err_def split: sum.splits)

lemma h3_server_answer:
  assumes "(h3_step V srv)\<^sup>*\<^sup>* r0 r" and "h3_initial origin r0"
    and "h3_as_candidates F V net now later r name lookup = Some (r', res)" and "h3_talks srv net"
  shows "server_answer V srv origin (Source.H3 (env_origin_ascii V origin)) name lookup res"
proof -
  have ok: "h3_cache_ok V srv r" "server_origin r = origin" using h3_history_ok [OF assms(1,2)] by blast+
  obtain n res' where l: "h3_lookup_candidates V net now later r name lookup = Some (r', n, res')" "res = map_err (H3LookupError_io F) res'"
    using assms(3) by (auto simp: h3_as_candidates_def)
  show ?thesis using h3_lookup_decoded(2) [OF l(1) ok(1) assms(4)] ok(2)
    by (simp add: server_answer_def l(2) map_err_Inr h3_source_def)
qed

lemma http_server_answer:
  assumes "(http_step V srv)\<^sup>*\<^sup>* r0 r" and "HttpResolver_new valid built origin = Inr r0"
    and "http_as_candidates F V net now later r name lookup = (r', res)" and "http_talks srv net"
  shows "server_answer V srv origin (Source.Http (env_origin_ascii V origin)) name lookup res"
proof -
  have ok: "http_cache_ok V srv r" "http_origin r = origin" using http_history_ok [OF assms(1,2)] by blast+
  obtain b res' where l: "http_lookup_candidates V net now later r name lookup = (r', b, res')" "res = map_err (HttpLookupError_io F) res'"
    using assms(3) by (auto simp: http_as_candidates_def split: prod.splits)
  show ?thesis using http_lookup_decoded(2) [OF l(1) ok(1) assms(4)] ok(2)
    by (simp add: server_answer_def l(2) map_err_Inr http_source_def)
qed

lemma server_result_ok: "server_answer V srv origin source name lookup res \<Longrightarrow> result_ok res"
proof (cases res)
  case (Inr cands)
  assume "server_answer V srv origin source name lookup res"
  then obtain k where "decoded_answer V srv origin source k cands" using Inr by (auto simp: server_answer_def)
  then have "groups_ok (groups cands)" using decoded_wf by (auto simp: decoded_answer_def)
  then show ?thesis using Inr by (simp add: result_ok_def groups_ok_def)
qed (simp add: result_ok_def)

text \<open>C6: The aggregate of an H3 and an HTTP resolver, each with any history. Whichever of the two answers first,
  a lookup fails only when both failed, and then reports each of them under its own name with its own error;
  otherwise it returns one group per certificate chain with no endpoint twice, and an endpoint is in the
  group of a chain exactly when one of the two resolvers returned it there. Each resolver's answer is the
  decoded content of a response of its own server to this query.\<close>

theorem aggregate_answers_authentic:
  assumes "h3_initial origin q0" and "(h3_step V srv)\<^sup>*\<^sup>* q0 q"
    and "HttpResolver_new valid built origin' = Inr w0" and "(http_step V srv')\<^sup>*\<^sup>* w0 w"
    and "h3_as_candidates F V net now later q name lookup = Some (q', f name lookup)" and "h3_talks srv net"
    and "http_as_candidates F V hnet now' later' w name lookup = (w', g name lookup)" and "http_talks srv' hnet"
    and "rs = push_candidate_resolver (HttpResolver_display F w) lg g (push_candidate_resolver (H3Resolver_display F q) lf f Resolvers_new)"
    and "mset completed = mset (pending_lookups rs name lookup)"
  shows "server_answer V srv origin (Source.H3 (env_origin_ascii V origin)) name lookup (f name lookup) \<and>
    server_answer V srv' origin' (Source.Http (env_origin_ascii V origin')) name lookup (g name lookup) \<and>
    (case lookup_endpoint_candidates rs completed of
       Inl errs \<Rightarrow> \<exists>e e'. f name lookup = Inl e \<and> g name lookup = Inl e' \<and>
         mset errs = {#(H3Resolver_display F q, e), (HttpResolver_display F w, e')#}
     | Inr c \<Rightarrow> groups_ok (groups c) \<and>
         group_pairs (groups c) = (\<Union>r \<in> {f name lookup, g name lookup}. case r of Inr c \<Rightarrow> group_pairs (groups c) | Inl _ \<Rightarrow> {}))"
proof -
  let ?a = "f name lookup" and ?b = "g name lookup"
  have sa: "server_answer V srv origin (Source.H3 (env_origin_ascii V origin)) name lookup ?a"
    by (rule h3_server_answer [OF assms(2,1,5,6)])
  have sb: "server_answer V srv' origin' (Source.Http (env_origin_ascii V origin')) name lookup ?b"
    by (rule http_server_answer [OF assms(4,3,7,8)])
  have p: "pending_lookups rs name lookup = [(H3Resolver_display F q, ?a), (HttpResolver_display F w, ?b)]" "unsupported_errors rs = []"
    by (simp_all add: assms(9) pending_lookups_def unsupported_errors_def push_candidate_resolver_def Resolvers_new_def List.map_filter_simps)
  have set_eq: "set completed = {(H3Resolver_display F q, ?a), (HttpResolver_display F w, ?b)}"
    using mset_eq_setD [OF assms(10)] p by simp
  obtain gs ok errs where d: "drain_candidates completed ([], False, []) = (gs, ok, errs)"
    by (cases "drain_candidates completed ([], False, [])")
  note r = drain_candidates_result [OF d]
  have "\<forall>(l, r) \<in> set completed. result_ok r" using set_eq server_result_ok sa sb by auto
  then have "groups_ok gs" by (rule drain_candidates_ok [OF d, rotated]) (simp add: groups_ok_def)
  moreover have "group_pairs gs = (\<Union>r \<in> {?a, ?b}. case r of Inr c \<Rightarrow> group_pairs (groups c) | Inl _ \<Rightarrow> {})"
    unfolding r(1) set_eq by simp
  moreover have "\<exists>e e'. ?a = Inl e \<and> ?b = Inl e' \<and> mset errs = {#(H3Resolver_display F q, e), (HttpResolver_display F w, e')#}" if "\<not> ok"
  proof -
    have "\<nexists>l c. (l, Inr c) \<in> set completed" using that r(2) by blast
    then obtain e e' where ee: "?a = Inl e" "?b = Inl e'" unfolding set_eq by (metis insertI1 insertI2 sum.exhaust)
    have "\<forall>(l, r) \<in> set completed. isl r" by (simp add: set_eq ee)
    from failed_results [OF this] have "mset errs = image_mset (\<lambda>(l, r). (l, projl r)) (mset completed)" by (simp add: r(3))
    then show ?thesis by (simp add: assms(10) p ee)
  qed
  ultimately show ?thesis using sa sb d p(2) by (simp add: lookup_endpoint_candidates_def)
qed

text \<open>A server that answers over DHTTP/3 while the request over HTTPS times out.\<close>

definition demo_aggregate :: Resolvers where
  "demo_aggregate = push_candidate_resolver (HttpResolver_display demo_foreign demo_http) (\<lambda>_ _ _. Inr [])
     (\<lambda>_ _. Inl (HttpLookupError_io demo_foreign HttpLookupError.Timeout))
     (push_candidate_resolver (H3Resolver_display demo_foreign (demo_resolver :: dhttp_endpoint H3Resolver)) (\<lambda>_ _ _. Inr []) (\<lambda>_ _. Inr demo_candidates) Resolvers_new)"

theorem aggregate_answers_authentic_witness:
  "case lookup_endpoint_candidates demo_aggregate
      [(HttpResolver_display demo_foreign demo_http, Inl (HttpLookupError_io demo_foreign HttpLookupError.Timeout)),
       (H3Resolver_display demo_foreign (demo_resolver :: dhttp_endpoint H3Resolver), Inr demo_candidates)] of
     Inl errs \<Rightarrow> False | Inr c \<Rightarrow> group_pairs (groups c) = group_pairs (groups demo_candidates)"
proof -
  let ?n = "str ''com:1''" and ?l = EndpointLookup_default
  obtain r1 :: "dhttp_endpoint H3Resolver" where "h3_lookup_candidates demo_env demo_net 0 5 demo_resolver ?n ?l = Some (r1, 1, Inr demo_candidates)"
    using demo_first_lookup by blast
  then have h3: "h3_as_candidates demo_foreign demo_env demo_net 0 5 demo_resolver ?n ?l = Some (r1, (\<lambda>_ _. Inr demo_candidates) ?n ?l)"
    by (simp add: h3_as_candidates_def map_err_def)
  have new: "HttpResolver_new 1 True demo_origin = Inr demo_http"
  proof -
    have "validate_server_origin demo_origin False = Inr ()" by code_simp
    then show ?thesis by (simp add: HttpResolver_new_def build_http_client_def demo_http_def)
  qed
  have http: "http_as_candidates demo_foreign demo_env (\<lambda>_. HttpTimedOut) 0 5 demo_http ?n ?l =
      (demo_http, (\<lambda>_ _. Inl (HttpLookupError_io demo_foreign HttpLookupError.Timeout)) ?n ?l)"
    by (simp add: http_as_candidates_def http_lookup_candidates_def demo_name Let_def http_cache_get_def demo_http_def map_err_def)
  show ?thesis
    using aggregate_answers_authentic [OF demo_initial rtranclp.rtrancl_refl new rtranclp.rtrancl_refl h3 demo_talks(1) http demo_talks(3) demo_aggregate_def,
        of "[(HttpResolver_display demo_foreign demo_http, Inl (HttpLookupError_io demo_foreign HttpLookupError.Timeout)),
          (H3Resolver_display demo_foreign (demo_resolver :: dhttp_endpoint H3Resolver), Inr demo_candidates)]"]
    by (auto simp: demo_aggregate_def pending_lookups_def push_candidate_resolver_def Resolvers_new_def List.map_filter_simps
        add_mset_commute split: sum.splits)
qed

end
