(* ===== verification/H3Concurrent.thy ===== *)
theory H3Concurrent
  imports AnswerSafety
begin

text \<open>
  The H3 resolver under concurrent use. Its methods take the resolver by shared reference, so lookups,
  publications and cache clearings overlap; the only state they share is the cache, a concurrent map. This
  theory runs them as interleavings of their atomic sections (\<^verbatim>\<open>src/h3/lookup.rs\<close>, \<^verbatim>\<open>src/h3/cache.rs\<close>,
  \<^verbatim>\<open>src/h3/publish.rs\<close>): a lookup reads the cache, removes an entry it found expired, waits for the server, and stores
  and returns the answer; a publication is accepted by the server and then invalidates the name. The removal of an
  expired entry may also hit a fresh one stored in between, which costs one more request. Invalidation, which the
  map performs shard by shard, is one section here.

  It shows that answers stay authentic under every interleaving, when a publication is a barrier for
  older answers, and that it is not one for an answer that is under way while the name is invalidated.
\<close>

section \<open>Atomic sections of the cache\<close>

text \<open>\<^verbatim>\<open>LookupCache::get\<close> reads the entry and, when it has expired, removes it in a second access.\<close>

datatype cache_read = Hit EndpointCandidates | Stale | Miss

definition read_entry :: "nat \<Rightarrow> LookupKey \<Rightarrow> LookupCache \<Rightarrow> cache_read" where
  "read_entry now k c =
     (case positive c k of
        None \<Rightarrow> Miss
      | Some ans \<Rightarrow> if expires_at ans > now then Hit (ca_candidates ans) else Stale)"

definition drop_entry :: "LookupKey \<Rightarrow> LookupCache \<Rightarrow> LookupCache" where
  "drop_entry k c = c\<lparr>positive := (positive c)(k := None)\<rparr>"

lemma cache_get_sections:
  "cache_get now k c =
     (case read_entry now k c of Hit v \<Rightarrow> (c, Some v) | Stale \<Rightarrow> (drop_entry k c, None) | Miss \<Rightarrow> (c, None))"
  by (simp add: cache_get_def read_entry_def drop_entry_def split: option.split)

section \<open>Interleavings\<close>

text \<open>A lookup that is past its first access to the cache: it is about to remove an expired entry, waits for the
  server, or has been answered, with the number of the answer, and is about to store and return it.\<close>

datatype lookup_call =
    Removing rstr EndpointLookup
  | Asking rstr EndpointLookup
  | Answered rstr EndpointLookup LookupAnswer nat

text \<open>\<open>given\<close> are the answers of the server in the order in which it gave them, and \<open>publications\<close> the ones it
  accepted, each with the number of answers given before. \<open>origin_of\<close> records which answer an entry of the
  cache was made from, and \<open>returned\<close> what the lookups returned, newest first.\<close>

record H3World =
  cache :: LookupCache
  clock :: nat
  calls :: "lookup_call list"
  given :: "(request \<times> headers \<times> bytes) list"
  publications :: "(rstr \<times> nat) list"
  origin_of :: "LookupKey \<rightharpoonup> nat"
  returned :: "(rstr \<times> EndpointLookup \<times> EndpointCandidates \<times> nat) list"

definition H3World_new :: H3World where
  "H3World_new = \<lparr>cache = LookupCache_default, clock = 0, calls = [], given = [], publications = [], origin_of = Map.empty, returned = []\<rparr>"

definition finish :: "lookup_call \<Rightarrow> rstr \<Rightarrow> EndpointLookup \<Rightarrow> EndpointCandidates \<Rightarrow> nat \<Rightarrow> H3World \<Rightarrow> H3World" where
  "finish call host lookup cands i w = w\<lparr>calls := remove1 call (calls w), returned := (host, lookup, cands, i) # returned w\<rparr>"

definition store_answer :: "rstr \<Rightarrow> EndpointLookup \<Rightarrow> LookupAnswer \<Rightarrow> nat \<Rightarrow> H3World \<Rightarrow> H3World" where
  "store_answer host lookup ans i w =
     (let k = LookupKey_new host lookup in
      w\<lparr>cache := cache_insert (clock w) k (candidates ans) (answer_ttl ans * NANOS) (cache w),
        origin_of := (if answer_ttl ans = 0 then origin_of w else (origin_of w)(k \<mapsto> i))\<rparr>)"

abbreviation decodes :: "env \<Rightarrow> Url \<Rightarrow> rstr \<Rightarrow> EndpointLookup \<Rightarrow> headers \<Rightarrow> bytes \<Rightarrow> LookupAnswer \<Rightarrow> bool" where
  "decodes V org host lookup hs body ans \<equiv>
     decode_lookup_response (env_codec V) (env_home V) (env_crypto V) (env_addr_of V) host lookup
       (Source.H3 (env_origin_ascii V org)) hs body = Inr ans"

inductive h3_section :: "env \<Rightarrow> Url \<Rightarrow> server \<Rightarrow> H3World \<Rightarrow> H3World \<Rightarrow> bool" for V org srv where
  section_hit: "read_entry (clock w) (LookupKey_new host lookup) (cache w) = Hit cands \<Longrightarrow>
    h3_section V org srv w (w\<lparr>returned := (host, lookup, cands, the (origin_of w (LookupKey_new host lookup))) # returned w\<rparr>)"
| section_stale: "read_entry (clock w) (LookupKey_new host lookup) (cache w) = Stale \<Longrightarrow>
    h3_section V org srv w (w\<lparr>calls := Removing host lookup # calls w\<rparr>)"
| section_miss: "read_entry (clock w) (LookupKey_new host lookup) (cache w) = Miss \<Longrightarrow>
    h3_section V org srv w (w\<lparr>calls := Asking host lookup # calls w\<rparr>)"
| section_remove: "Removing host lookup \<in> set (calls w) \<Longrightarrow>
    h3_section V org srv w (w\<lparr>cache := drop_entry (LookupKey_new host lookup) (cache w),
      calls := Asking host lookup # remove1 (Removing host lookup) (calls w)\<rparr>)"
| section_answer: "Asking host lookup \<in> set (calls w) \<Longrightarrow> srv (lookup_url org host lookup) hs body \<Longrightarrow> decodes V org host lookup hs body ans \<Longrightarrow>
    h3_section V org srv w (w\<lparr>given := given w @ [(lookup_url org host lookup, hs, body)],
      calls := Answered host lookup ans (length (given w)) # remove1 (Asking host lookup) (calls w)\<rparr>)"
| section_fail: "Asking host lookup \<in> set (calls w) \<Longrightarrow>
    h3_section V org srv w (w\<lparr>calls := remove1 (Asking host lookup) (calls w)\<rparr>)"
| section_store: "Answered host lookup ans i \<in> set (calls w) \<Longrightarrow>
    h3_section V org srv w (finish (Answered host lookup ans i) host lookup (candidates ans) i (store_answer host lookup ans i w))"
| section_accept: "h3_section V org srv w (w\<lparr>publications := (name, length (given w)) # publications w\<rparr>)"
| section_invalidate: "(name, n) \<in> set (publications w) \<Longrightarrow> h3_section V org srv w (w\<lparr>cache := invalidate_name name (cache w)\<rparr>)"
| section_clear: "h3_section V org srv w (w\<lparr>cache := cache_clear (cache w)\<rparr>)"
| section_time: "clock w \<le> t \<Longrightarrow> h3_section V org srv w (w\<lparr>clock := t\<rparr>)"

section \<open>Answers and where they come from\<close>

definition gave :: "env \<Rightarrow> Url \<Rightarrow> server \<Rightarrow> H3World \<Rightarrow> LookupKey \<Rightarrow> EndpointCandidates \<Rightarrow> nat \<Rightarrow> bool" where
  "gave V org srv w k cands i \<longleftrightarrow> i < length (given w) \<and> (\<exists>host lookup hs body ans. k = LookupKey_new host lookup \<and>
     given w ! i = (lookup_url org host lookup, hs, body) \<and> srv (lookup_url org host lookup) hs body \<and>
     decodes V org host lookup hs body ans \<and> candidates ans = cands)"

lemma gave_mono: "gave V org srv w k cands i \<Longrightarrow> given w' = given w @ gs \<Longrightarrow> gave V org srv w' k cands i"
  by (fastforce simp: gave_def nth_append)

definition world_ok :: "env \<Rightarrow> Url \<Rightarrow> server \<Rightarrow> H3World \<Rightarrow> bool" where
  "world_ok V org srv w \<longleftrightarrow>
     (\<forall>k a. positive (cache w) k = Some a \<longrightarrow> (\<exists>i. origin_of w k = Some i \<and> gave V org srv w k (ca_candidates a) i)) \<and>
     (\<forall>host lookup ans i. Answered host lookup ans i \<in> set (calls w) \<longrightarrow> gave V org srv w (LookupKey_new host lookup) (candidates ans) i) \<and>
     (\<forall>host lookup cands i. (host, lookup, cands, i) \<in> set (returned w) \<longrightarrow> gave V org srv w (LookupKey_new host lookup) cands i)"

lemma world_okD:
  assumes "world_ok V org srv w"
  shows "positive (cache w) k = Some a \<Longrightarrow> \<exists>i. origin_of w k = Some i \<and> gave V org srv w k (ca_candidates a) i"
    and "Answered host lookup ans i \<in> set (calls w) \<Longrightarrow> gave V org srv w (LookupKey_new host lookup) (candidates ans) i"
    and "(host, lookup, cands, i) \<in> set (returned w) \<Longrightarrow> gave V org srv w (LookupKey_new host lookup) cands i"
  using assms unfolding world_ok_def by blast+

lemma world_ok_step:
  assumes "world_ok V org srv w" and "given w' = given w @ gs"
    and entries: "\<And>k a. positive (cache w') k = Some a \<Longrightarrow>
      positive (cache w) k = Some a \<and> origin_of w' k = origin_of w k \<or> (\<exists>i. origin_of w' k = Some i \<and> gave V org srv w' k (ca_candidates a) i)"
    and answered: "\<And>host lookup ans i. Answered host lookup ans i \<in> set (calls w') \<Longrightarrow>
      Answered host lookup ans i \<in> set (calls w) \<or> gave V org srv w' (LookupKey_new host lookup) (candidates ans) i"
    and returned: "\<And>host lookup cands i. (host, lookup, cands, i) \<in> set (returned w') \<Longrightarrow>
      (host, lookup, cands, i) \<in> set (returned w) \<or> gave V org srv w' (LookupKey_new host lookup) cands i"
  shows "world_ok V org srv w'"
proof -
  have mono: "gave V org srv w k cands i \<Longrightarrow> gave V org srv w' k cands i" for k cands i by (rule gave_mono [OF _ assms(2)])
  note ok = world_okD [OF assms(1)]
  show ?thesis unfolding world_ok_def
    using entries [THEN disjE] answered returned ok mono by (intro conjI allI impI) metis+
qed

lemma section_ok:
  assumes "h3_section V org srv w w'" and "world_ok V org srv w"
  shows "world_ok V org srv w'"
  using assms
proof (induction rule: h3_section.induct)
  case (section_hit w host lookup cands)
  let ?k = "LookupKey_new host lookup" and ?w' = "w\<lparr>returned := (host, lookup, cands, the (origin_of w (LookupKey_new host lookup))) # returned w\<rparr>"
  obtain a where "positive (cache w) ?k = Some a" "ca_candidates a = cands"
    using section_hit.hyps by (auto simp: read_entry_def split: option.splits if_splits)
  then have "gave V org srv w ?k cands (the (origin_of w ?k))" using world_okD(1) [OF section_hit.prems] by fastforce
  then have "gave V org srv ?w' ?k cands (the (origin_of w ?k))" by (rule gave_mono) simp
  then show ?case by (intro world_ok_step [OF section_hit.prems, of _ "[]"]) auto
next
  case (section_answer host lookup w hs body ans)
  let ?w' = "w\<lparr>given := given w @ [(lookup_url org host lookup, hs, body)],
      calls := Answered host lookup ans (length (given w)) # remove1 (Asking host lookup) (calls w)\<rparr>"
  have "gave V org srv ?w' (LookupKey_new host lookup) (candidates ans) (length (given w))"
    using section_answer.hyps unfolding gave_def by auto
  then show ?case by (intro world_ok_step [OF section_answer.prems]) (auto dest: set_remove1_subset [THEN subsetD])
next
  case (section_store host lookup ans i w)
  let ?k = "LookupKey_new host lookup"
  let ?w' = "finish (Answered host lookup ans i) host lookup (candidates ans) i (store_answer host lookup ans i w)"
  have "gave V org srv ?w' ?k (candidates ans) i"
    using world_okD(2) [OF section_store.prems section_store.hyps] by (rule gave_mono) (simp add: finish_def store_answer_def Let_def)
  then show ?case
    by (intro world_ok_step [OF section_store.prems, of _ "[]"])
      (auto simp: finish_def store_answer_def cache_insert_def Let_def NANOS_def split: if_splits dest: set_remove1_subset [THEN subsetD])
qed (erule world_ok_step [where gs = "[]"];
  auto simp: drop_entry_def invalidate_name_def cache_clear_def Let_def split: if_splits dest: set_remove1_subset [THEN subsetD])+

lemma reachable_ok: "(h3_section V org srv)\<^sup>*\<^sup>* w w' \<Longrightarrow> world_ok V org srv w \<Longrightarrow> world_ok V org srv w'"
  by (induction rule: rtranclp_induct) (auto intro: section_ok)

lemma world_new_ok: "world_ok V org srv H3World_new"
  by (simp add: world_ok_def H3World_new_def LookupCache_default_def)

lemma LookupKey_new_eq: "LookupKey_new a l = LookupKey_new b m \<longleftrightarrow> same_host a b \<and> l = m"
  by (auto simp: LookupKey_new_def same_host_def)

section \<open>The sequential operations are runs of their sections\<close>

lemma miss_run:
  assumes "cache_get (clock w) (LookupKey_new host lookup) (cache w) = (c, None)"
  shows "(h3_section V org srv)\<^sup>*\<^sup>* w (w\<lparr>cache := c, calls := Asking host lookup # calls w\<rparr>)"
proof (cases "read_entry (clock w) (LookupKey_new host lookup) (cache w)")
  case (Hit v)
  then show ?thesis using assms by (simp add: cache_get_sections)
next
  case Stale
  let ?rem = "w\<lparr>calls := Removing host lookup # calls w\<rparr>"
  have "h3_section V org srv ?rem (w\<lparr>cache := c, calls := Asking host lookup # calls w\<rparr>)"
    using section_remove [of host lookup ?rem V org srv] Stale assms by (simp add: cache_get_sections)
  then show ?thesis using section_stale [OF Stale] by (meson converse_rtranclp_into_rtranclp r_into_rtranclp)
next
  case Miss
  then have "w\<lparr>cache := c, calls := Asking host lookup # calls w\<rparr> = w\<lparr>calls := Asking host lookup # calls w\<rparr>"
    using assms by (simp add: cache_get_sections)
  then show ?thesis using section_miss [OF Miss] by auto
qed

lemma answer_run:
  assumes "srv (lookup_url org host lookup) hs body" and "decodes V org host lookup hs body ans" and "clock w \<le> later"
  shows "\<exists>w'. (h3_section V org srv)\<^sup>*\<^sup>* (w\<lparr>calls := Asking host lookup # calls w\<rparr>) w' \<and>
    cache w' = cache_insert later (LookupKey_new host lookup) (candidates ans) (answer_ttl ans * NANOS) (cache w) \<and>
    returned w' = (host, lookup, candidates ans, length (given w)) # returned w"
proof -
  let ?i = "length (given w)"
  let ?ask = "w\<lparr>calls := Asking host lookup # calls w\<rparr>"
  let ?ans = "w\<lparr>given := given w @ [(lookup_url org host lookup, hs, body)], calls := Answered host lookup ans ?i # calls w\<rparr>"
  let ?late = "?ans\<lparr>clock := later\<rparr>"
  let ?w' = "finish (Answered host lookup ans ?i) host lookup (candidates ans) ?i (store_answer host lookup ans ?i ?late)"
  have "h3_section V org srv ?ask ?ans" using section_answer [of host lookup ?ask srv org hs body V ans] assms(1,2) by simp
  moreover have "h3_section V org srv ?ans ?late" using section_time [of ?ans later V org srv] assms(3) by simp
  moreover have "h3_section V org srv ?late ?w'" by (rule section_store) simp
  ultimately have "(h3_section V org srv)\<^sup>*\<^sup>* ?ask ?w'" by (meson rtranclp.rtrancl_into_rtrancl r_into_rtranclp)
  then show ?thesis by (intro exI [of _ ?w']) (simp add: finish_def store_answer_def Let_def)
qed

lemma hit_run:
  assumes "cache_get (clock w) (LookupKey_new host lookup) (cache w) = (c, Some cands)"
  shows "\<exists>w' i. (h3_section V org srv)\<^sup>*\<^sup>* w w' \<and> cache w' = c \<and> returned w' = (host, lookup, cands, i) # returned w"
proof -
  have hit: "read_entry (clock w) (LookupKey_new host lookup) (cache w) = Hit cands" and c: "c = cache w"
    using assms by (auto simp: cache_get_sections split: cache_read.splits)
  let ?i = "the (origin_of w (LookupKey_new host lookup))"
  have "(h3_section V org srv)\<^sup>*\<^sup>* w (w\<lparr>returned := (host, lookup, cands, ?i) # returned w\<rparr>)"
    by (rule r_into_rtranclp [of "h3_section V org srv", OF section_hit [OF hit]])
  then show ?thesis
    by (intro exI [of _ "w\<lparr>returned := (host, lookup, cands, ?i) # returned w\<rparr>"] exI [of _ ?i]) (simp add: c)
qed

lemma lookup_is_run:
  assumes "h3_lookup_candidates V net now later r name requested = Some (r', n, Inr cands)" and "h3_talks srv net"
    and "cache w = h3_cache r" and "clock w = now" and "now \<le> later" and "server_origin r = org"
  shows "\<exists>w' host sq i. endpoint_lookup_name_and_sequence (env_dns_name V) (env_home V) name = Some (host, sq) \<and>
    (h3_section V org srv)\<^sup>*\<^sup>* w w' \<and> cache w' = h3_cache r' \<and>
    returned w' = (host, Api.exact_override requested sq, cands, i) # returned w"
proof (cases "n = 0")
  case True
  from h3_not_fetched [OF assms(1)] True obtain host sq where g:
    "endpoint_lookup_name_and_sequence (env_dns_name V) (env_home V) name = Some (host, sq)"
    "cache_get (clock w) (LookupKey_new host (Api.exact_override requested sq)) (cache w) = (h3_cache r', Some cands)"
    using assms(3,4) by auto
  from g(1) hit_run [OF g(2)] show ?thesis by blast
next
  case False
  obtain host sq hs body ans where f:
    "endpoint_lookup_name_and_sequence (env_dns_name V) (env_home V) name = Some (host, sq)"
    "snd (cache_get now (LookupKey_new host (Api.exact_override requested sq)) (h3_cache r)) = None"
    "final_result (net (lookup_url (server_origin r) host (Api.exact_override requested sq)) n) = Inr (hs, body)"
    "decodes V (server_origin r) host (Api.exact_override requested sq) hs body ans" "candidates ans = cands"
    "h3_cache r' = cache_insert later (LookupKey_new host (Api.exact_override requested sq)) cands (answer_ttl ans * NANOS)
       (fst (cache_get now (LookupKey_new host (Api.exact_override requested sq)) (h3_cache r)))"
    by (rule h3_fetched [OF assms(1) False])
  let ?l = "Api.exact_override requested sq" and ?c = "fst (cache_get now (LookupKey_new host (Api.exact_override requested sq)) (h3_cache r))"
  have get: "cache_get (clock w) (LookupKey_new host ?l) (cache w) = (?c, None)" using f(2) assms(3,4) by (simp add: prod_eq_iff)
  have "srv (lookup_url org host ?l) hs body" using final_served [OF assms(2) f(3)] assms(6) by simp
  from answer_run [of srv org host ?l _ _ V _ "w\<lparr>cache := ?c\<rparr>" later, OF this f(4) [unfolded assms(6)]] obtain w' where
    "(h3_section V org srv)\<^sup>*\<^sup>* (w\<lparr>cache := ?c, calls := Asking host ?l # calls w\<rparr>) w'" "cache w' = h3_cache r'"
    "returned w' = (host, ?l, cands, length (given w)) # returned w" using assms(4,5) f(5,6) by auto
  then show ?thesis using f(1) miss_run [OF get, of V org srv] by (meson rtranclp_trans)
qed

lemma publication_is_run:
  assumes "publish_endpoints V valid_name header_value in_clock created post r name ds = Some (r', Inr lease)" and "cache w = h3_cache r"
  shows "\<exists>w'. (h3_section V org srv)\<^sup>*\<^sup>* w w' \<and> cache w' = h3_cache r' \<and> (name, length (given w)) \<in> set (publications w')"
proof -
  let ?acc = "w\<lparr>publications := (name, length (given w)) # publications w\<rparr>"
  let ?w' = "?acc\<lparr>cache := invalidate_name name (cache ?acc)\<rparr>"
  have "h3_section V org srv w ?acc" by (rule section_accept)
  moreover have "h3_section V org srv ?acc ?w'" by (rule section_invalidate [where n = "length (given w)"]) simp
  ultimately have "(h3_section V org srv)\<^sup>*\<^sup>* w ?w'" by (rule rtranclp.rtrancl_into_rtrancl [OF r_into_rtranclp])
  moreover have "r' = r\<lparr>h3_cache := invalidate_name name (h3_cache r)\<rparr>" by (rule publish_endpoints_Inr [OF assms(1)])
  ultimately show ?thesis using assms(2) by (intro exI [of _ ?w']) simp
qed

section \<open>Publications as barriers\<close>

text \<open>Nothing that the resolver has or waits for is an answer for the name that the server gave before its answer number \<open>n\<close>.\<close>

definition beyond :: "rstr \<Rightarrow> nat \<Rightarrow> H3World \<Rightarrow> bool" where
  "beyond name n w \<longleftrightarrow> n \<le> length (given w) \<and>
     (\<forall>host lookup a. same_host host name \<and> positive (cache w) (LookupKey_new host lookup) = Some a \<longrightarrow>
        (\<exists>i. origin_of w (LookupKey_new host lookup) = Some i \<and> n \<le> i)) \<and>
     (\<forall>host lookup ans i. same_host host name \<and> Answered host lookup ans i \<in> set (calls w) \<longrightarrow> n \<le> i)"

definition no_older :: "rstr \<Rightarrow> nat \<Rightarrow> (rstr \<times> EndpointLookup \<times> EndpointCandidates \<times> nat) list \<Rightarrow> bool" where
  "no_older name n rs \<longleftrightarrow> list_all (\<lambda>(host, lookup, cands, i). same_host host name \<longrightarrow> n \<le> i) rs"

lemma same_host_trans: "same_host a b \<Longrightarrow> same_host c b \<Longrightarrow> same_host a c" and same_host_sym: "same_host a b \<Longrightarrow> same_host b a"
  by (simp_all add: same_host_def)

lemma beyond_step:
  assumes "h3_section V org srv w w'" and "beyond name n w"
  shows "beyond name n w' \<and> (\<exists>new. returned w' = new @ returned w \<and> no_older name n new)"
  using assms
proof (induction rule: h3_section.induct)
  case (section_hit w host lookup cands)
  have "n \<le> the (origin_of w (LookupKey_new host lookup))" if "same_host host name"
    using section_hit that by (fastforce simp: beyond_def read_entry_def split: option.splits if_splits)
  then show ?case using section_hit.prems by (auto simp: beyond_def no_older_def)
next
  case (section_answer host lookup w hs body ans)
  then show ?case by (auto simp: beyond_def no_older_def dest: set_remove1_subset [THEN subsetD])
next
  case (section_store host lookup ans i w)
  have i: "n \<le> i" if "same_host host name" using section_store that by (auto simp: beyond_def)
  have "same_host h name \<Longrightarrow> LookupKey_new h l = LookupKey_new host lookup \<Longrightarrow> n \<le> i" for h l
    using i same_host_trans same_host_sym by (metis LookupKey_new_eq)
  then show ?case using section_store.prems i
    by (auto simp: beyond_def no_older_def finish_def store_answer_def cache_insert_def Let_def NANOS_def
        split: if_splits dest: set_remove1_subset [THEN subsetD])
qed (auto simp: beyond_def no_older_def drop_entry_def invalidate_name_def cache_clear_def Let_def
    split: if_splits dest: set_remove1_subset [THEN subsetD])

lemma beyond_run:
  assumes "(h3_section V org srv)\<^sup>*\<^sup>* w w'" and "beyond name n w"
  shows "beyond name n w' \<and> (\<exists>new. returned w' = new @ returned w \<and> no_older name n new)"
  using assms
proof (induction rule: rtranclp_induct)
  case base
  then show ?case by (simp add: no_older_def)
next
  case (step u v)
  then obtain new where "beyond name n u" "returned u = new @ returned w" "no_older name n new" by blast
  moreover obtain more where "beyond name n v" "returned v = more @ returned u" "no_older name n more"
    using beyond_step [OF step(2) calculation(1)] by blast
  ultimately show ?case by (intro conjI exI [of _ "more @ new"]) (auto simp: no_older_def)
qed

lemma accepted_bound:
  assumes "(h3_section V org srv)\<^sup>*\<^sup>* H3World_new w"
  shows "(name, n) \<in> set (publications w) \<Longrightarrow> n \<le> length (given w)"
  using assms
proof (induction arbitrary: name n rule: rtranclp_induct)
  case (step u v)
  show ?case using step(2,3,4)
    by (induction rule: h3_section.induct) (auto simp: finish_def store_answer_def Let_def intro: le_SucI)
qed (simp add: H3World_new_def)

lemma invalidated_beyond:
  assumes "n \<le> length (given w)" and "\<And>host lookup ans i. Answered host lookup ans i \<in> set (calls w) \<Longrightarrow> same_host host name \<Longrightarrow> n \<le> i"
  shows "beyond name n (w\<lparr>cache := invalidate_name name (cache w)\<rparr>)"
  using assms by (auto simp: beyond_def invalidate_name_def LookupKey_new_def eq_ignore_ascii_case_def same_host_def Let_def)

lemma publications_grow: "h3_section V org srv w w' \<Longrightarrow> set (publications w) \<subseteq> set (publications w')"
  by (induction rule: h3_section.induct) (auto simp: finish_def store_answer_def Let_def)

section \<open>Properties\<close>

text \<open>C8: Answers stay authentic under concurrent use. In every interleaving of lookups, publications, cache clearings
  and the passing of time, whatever a lookup returns, fetched or cached, is the decoded content of an answer that the
  server gave to a request for the same query and the same name, up to case and trailing dots.\<close>

theorem concurrent_answers_authentic:
  assumes "(h3_section V org srv)\<^sup>*\<^sup>* H3World_new w" and "(host, lookup, cands, i) \<in> set (returned w)"
  shows "\<exists>host' hs body ans. same_host host' host \<and> i < length (given w) \<and> given w ! i = (lookup_url org host' lookup, hs, body) \<and>
    srv (lookup_url org host' lookup) hs body \<and>
    decode_lookup_response (env_codec V) (env_home V) (env_crypto V) (env_addr_of V) host' lookup
      (Source.H3 (env_origin_ascii V org)) hs body = Inr ans \<and> candidates ans = cands"
proof -
  have "gave V org srv w (LookupKey_new host lookup) cands i"
    using world_okD(3) [OF reachable_ok [OF assms(1) world_new_ok] assms(2)] .
  then show ?thesis unfolding gave_def LookupKey_new_eq using same_host_sym by blast
qed

text \<open>C9: A publication is a barrier for older answers, as long as none is under way. Once the server has accepted
  a publication and the name has been invalidated, no lookup returns an answer for that name, in any spelling,
  that the server gave before it accepted the publication, provided no lookup had such an answer in
  its hands, not yet stored, at the moment of the invalidation.\<close>

theorem publication_barrier:
  assumes "(h3_section V org srv)\<^sup>*\<^sup>* H3World_new w" and "(name, n) \<in> set (publications w)"
    and "\<forall>host lookup ans i. Answered host lookup ans i \<in> set (calls w) \<and> same_host host name \<longrightarrow> n \<le> i"
    and "(h3_section V org srv)\<^sup>*\<^sup>* (w\<lparr>cache := invalidate_name name (cache w)\<rparr>) w'"
  shows "\<exists>new. returned w' = new @ returned w \<and> list_all (\<lambda>(host, lookup, cands, i). same_host host name \<longrightarrow> n \<le> i) new"
proof -
  have "beyond name n (w\<lparr>cache := invalidate_name name (cache w)\<rparr>)"
    using assms(3) by (intro invalidated_beyond accepted_bound [OF assms(1,2)]) blast
  from beyond_run [OF assms(4) this] show ?thesis by (simp add: no_older_def)
qed

text \<open>C36: The barrier has a hole. When a lookup has been answered but has not stored the answer yet, and a publication of the
  name is accepted and clears the name from the cache in between, the lookup stores the old answer afterwards, and a lookup that
  starts after the publication has completed is served this answer from the cache, although the server
  gave it before it accepted the publication.\<close>

theorem stale_answer_after_publication:
  assumes "(h3_section V org srv)\<^sup>*\<^sup>* H3World_new w" and "Answered host lookup ans i \<in> set (calls w)" and "0 < answer_ttl ans"
    and "(name, n) \<in> set (publications w)" and "same_host host name" and "i < n"
  shows "\<exists>w1 w2. h3_section V org srv w (w\<lparr>cache := invalidate_name name (cache w)\<rparr>) \<and>
    read_entry (clock w) (LookupKey_new host lookup) (invalidate_name name (cache w)) = Miss \<and>
    h3_section V org srv (w\<lparr>cache := invalidate_name name (cache w)\<rparr>) w1 \<and> h3_section V org srv w1 w2 \<and>
    returned w2 = (host, lookup, candidates ans, i) # returned w1 \<and> calls w2 = remove1 (Answered host lookup ans i) (calls w)"
proof -
  let ?w0 = "w\<lparr>cache := invalidate_name name (cache w)\<rparr>" and ?k = "LookupKey_new host lookup"
  let ?w1 = "finish (Answered host lookup ans i) host lookup (candidates ans) i (store_answer host lookup ans i ?w0)"
  have "read_entry (clock ?w1) ?k (cache ?w1) = Hit (candidates ans)" "origin_of ?w1 ?k = Some i"
    using assms(3) by (simp_all add: read_entry_def finish_def store_answer_def cache_insert_def Let_def NANOS_def)
  from section_hit [OF this(1), of V org srv] this(2)
  have "h3_section V org srv ?w1 (?w1\<lparr>returned := (host, lookup, candidates ans, i) # returned ?w1\<rparr>)" by simp
  moreover have "h3_section V org srv ?w0 ?w1" using assms(2) by (intro section_store) simp
  moreover have "h3_section V org srv w ?w0" by (rule section_invalidate [OF assms(4)])
  moreover have "read_entry (clock w) ?k (invalidate_name name (cache w)) = Miss"
    using assms(5) by (simp add: read_entry_def invalidate_name_def LookupKey_new_def eq_ignore_ascii_case_def same_host_def Let_def)
  ultimately show ?thesis
    by (intro exI [of _ ?w1] exI [of _ "?w1\<lparr>returned := (host, lookup, candidates ans, i) # returned ?w1\<rparr>"])
      (simp add: finish_def store_answer_def Let_def)
qed

text \<open>A run: a lookup misses the cache, is answered, and then a publication is accepted.\<close>

definition demo_answer :: LookupAnswer where
  "demo_answer = \<lparr>candidates = demo_candidates, answer_ttl = freshness 300 (\<lambda>_. [])\<rparr>"

definition demo_world :: H3World where
  "demo_world = H3World_new\<lparr>given := [(lookup_url demo_origin (str ''com'') (lookup_exact 1), (\<lambda>_. []), encode ref_codec \<lparr>mr_records = [demo_response]\<rparr>)],
     calls := [Answered (str ''com'') (lookup_exact 1) demo_answer 0], publications := [(str ''com'', 1)]\<rparr>"

definition demo_fetched :: "H3World \<Rightarrow> H3World" where
  "demo_fetched w = w\<lparr>given := given w @ [(lookup_url demo_origin (str ''com'') (lookup_exact 1), (\<lambda>_. []), encode ref_codec \<lparr>mr_records = [demo_response]\<rparr>)],
     calls := Answered (str ''com'') (lookup_exact 1) demo_answer (length (given w)) # calls w\<rparr>"

lemma demo_fetch:
  assumes "read_entry (clock w) (LookupKey_new (str ''com'') (lookup_exact 1)) (cache w) = Miss"
  shows "(h3_section demo_env demo_origin demo_server)\<^sup>*\<^sup>* w (demo_fetched w)"
proof -
  let ?S = "h3_section demo_env demo_origin demo_server" and ?l = "lookup_exact 1"
  let ?ask = "w\<lparr>calls := Asking (str ''com'') ?l # calls w\<rparr>"
  have "env_origin_ascii demo_env demo_origin = str ''https://dns.example''" by (simp add: demo_env_def)
  then have "decodes demo_env demo_origin (str ''com'') ?l (\<lambda>_. []) (encode ref_codec \<lparr>mr_records = [demo_response]\<rparr>) demo_answer"
    by (simp add: demo_decoded demo_answer_def demo_candidates_def del: chain_key_simps)
  then have "?S ?ask (demo_fetched w)"
    using section_answer [of "str ''com''" ?l ?ask demo_server demo_origin "\<lambda>_. []" "encode ref_codec \<lparr>mr_records = [demo_response]\<rparr>" demo_env demo_answer]
    by (simp add: demo_server_def demo_fetched_def)
  then show ?thesis using section_miss [OF assms, of demo_env demo_origin demo_server] by (meson rtranclp.rtrancl_into_rtrancl r_into_rtranclp)
qed

lemma demo_world_reachable: "(h3_section demo_env demo_origin demo_server)\<^sup>*\<^sup>* H3World_new demo_world"
proof -
  have "(h3_section demo_env demo_origin demo_server)\<^sup>*\<^sup>* H3World_new (demo_fetched H3World_new)"
    by (rule demo_fetch) (simp add: read_entry_def H3World_new_def LookupCache_default_def)
  moreover have "h3_section demo_env demo_origin demo_server (demo_fetched H3World_new) demo_world"
    using section_accept [of demo_env demo_origin demo_server "demo_fetched H3World_new" "str ''com''"]
    by (simp add: demo_world_def demo_fetched_def H3World_new_def)
  ultimately show ?thesis by (rule rtranclp.rtrancl_into_rtrancl)
qed

lemma demo_answer_ttl: "0 < answer_ttl demo_answer"
proof -
  have "freshness 300 (\<lambda>_. []) = 300" by code_simp
  then show ?thesis by (simp add: demo_answer_def)
qed

theorem stale_answer_after_publication_witness:
  "\<exists>w1 w2. (h3_section demo_env demo_origin demo_server)\<^sup>*\<^sup>* H3World_new w1 \<and> (str ''com'', 1) \<in> set (publications w1) \<and>
     h3_section demo_env demo_origin demo_server w1 w2 \<and>
     returned w2 = (str ''com'', lookup_exact 1, demo_candidates, 0) # returned w1 \<and> calls w2 = []"
proof -
  let ?S = "h3_section demo_env demo_origin demo_server"
  have "Answered (str ''com'') (lookup_exact 1) demo_answer 0 \<in> set (calls demo_world)" "(str ''com'', 1) \<in> set (publications demo_world)"
    "same_host (str ''com'') (str ''com'')" "0 < (1::nat)"
    by (simp_all add: demo_world_def same_host_def)
  from stale_answer_after_publication [OF demo_world_reachable this(1) demo_answer_ttl this(2-4)] obtain w1 w2 where w:
    "?S demo_world (demo_world\<lparr>cache := invalidate_name (str ''com'') (cache demo_world)\<rparr>)"
    "?S (demo_world\<lparr>cache := invalidate_name (str ''com'') (cache demo_world)\<rparr>) w1" "?S w1 w2"
    "returned w2 = (str ''com'', lookup_exact 1, candidates demo_answer, 0) # returned w1"
    "calls w2 = remove1 (Answered (str ''com'') (lookup_exact 1) demo_answer 0) (calls demo_world)" by blast
  have "?S\<^sup>*\<^sup>* H3World_new w1" using demo_world_reachable w(1,2) by (meson rtranclp.rtrancl_into_rtrancl)
  moreover have "(str ''com'', 1) \<in> set (publications w1)" using publications_grow [OF w(2)] by (simp add: demo_world_def)
  ultimately show ?thesis using w(3-5) by (auto simp: demo_answer_def demo_world_def)
qed

text \<open>The lookup stores its answer before the name is invalidated: the next lookup asks again and returns a new answer.\<close>

definition demo_settled :: H3World where
  "demo_settled = finish (Answered (str ''com'') (lookup_exact 1) demo_answer 0) (str ''com'') (lookup_exact 1) demo_candidates 0
     (store_answer (str ''com'') (lookup_exact 1) demo_answer 0 demo_world)"

lemma demo_settled_reachable: "(h3_section demo_env demo_origin demo_server)\<^sup>*\<^sup>* H3World_new demo_settled"
proof -
  have "h3_section demo_env demo_origin demo_server demo_world demo_settled"
    using section_store [of "str ''com''" "lookup_exact 1" demo_answer 0 demo_world] by (simp add: demo_settled_def demo_world_def demo_answer_def)
  then show ?thesis using demo_world_reachable by (rule rtranclp.rtrancl_into_rtrancl [rotated])
qed

theorem publication_barrier_witness:
  "\<exists>w' new. (h3_section demo_env demo_origin demo_server)\<^sup>*\<^sup>* (demo_settled\<lparr>cache := invalidate_name (str ''com'') (cache demo_settled)\<rparr>) w' \<and>
     returned w' = new @ returned demo_settled \<and> new \<noteq> [] \<and> list_all (\<lambda>(host, lookup, cands, i). host = str ''com'' \<and> 1 \<le> i) new"
proof -
  let ?S = "h3_section demo_env demo_origin demo_server" and ?w0 = "demo_settled\<lparr>cache := invalidate_name (str ''com'') (cache demo_settled)\<rparr>"
  let ?w' = "finish (Answered (str ''com'') (lookup_exact 1) demo_answer 1) (str ''com'') (lookup_exact 1) (candidates demo_answer) 1
    (store_answer (str ''com'') (lookup_exact 1) demo_answer 1 (demo_fetched ?w0))"
  have settled: "(str ''com'', 1) \<in> set (publications demo_settled)" "calls demo_settled = []" "length (given demo_settled) = 1"
    by (simp_all add: demo_settled_def demo_world_def H3World_new_def finish_def store_answer_def Let_def)
  have "?S\<^sup>*\<^sup>* ?w0 (demo_fetched ?w0)"
    by (rule demo_fetch) (simp add: read_entry_def invalidate_name_def LookupKey_new_def eq_ignore_ascii_case_def Let_def)
  moreover have "?S (demo_fetched ?w0) ?w'" by (rule section_store) (simp add: demo_fetched_def settled)
  ultimately have run: "?S\<^sup>*\<^sup>* ?w0 ?w'" by (rule rtranclp.rtrancl_into_rtrancl)
  have ret: "returned ?w' = [(str ''com'', lookup_exact 1, candidates demo_answer, 1)] @ returned demo_settled"
    by (simp add: finish_def store_answer_def demo_fetched_def Let_def)
  obtain new where new: "returned ?w' = new @ returned demo_settled"
      "list_all (\<lambda>(host, lookup, cands, i). same_host host (str ''com'') \<longrightarrow> 1 \<le> i) new"
    using publication_barrier [OF demo_settled_reachable settled(1) _ run] settled(2) by auto
  then have "new = [(str ''com'', lookup_exact 1, candidates demo_answer, 1)]" using ret by simp
  with new(2) have "new \<noteq> [] \<and> list_all (\<lambda>(host, lookup, cands, i). host = str ''com'' \<and> 1 \<le> i) new" by (simp add: same_host_def)
  with run new(1) show ?thesis by blast
qed

theorem concurrent_answers_authentic_witness:
  "\<exists>host' hs body ans. same_host host' (str ''com'') \<and> demo_server (lookup_url demo_origin host' (lookup_exact 1)) hs body \<and>
     decode_lookup_response ref_codec ref_home ref_crypto demo_addr_of host' (lookup_exact 1)
       (Source.H3 (str ''https://dns.example'')) hs body = Inr ans \<and> candidates ans = demo_candidates"
proof -
  have "(str ''com'', lookup_exact 1, demo_candidates, 0) \<in> set (returned demo_settled)"
    by (simp add: demo_settled_def finish_def)
  from concurrent_answers_authentic [OF demo_settled_reachable this] show ?thesis by (auto simp: demo_env_def)
qed

end
