(* ===== verification/ResolverConfig.thy ===== *)
theory ResolverConfig
  imports Resolvers
begin

text \<open>
  The process-wide installation of resolvers (\<^verbatim>\<open>src/resolver_config.rs\<close>): the scheme names and
  \<open>install_resolvers\<close>, which adds each scheme's resolver to the global \<^verbatim>\<open>qresolve::Resolver\<close> once. The
  state is the \<open>INSTALLED\<close> static together with the sequence of \<^verbatim>\<open>Resolver::add\<close> calls made so far. The
  resolver constructors are a parameter: what building the H3 or HTTP resolver returned, and the
  handle of the multicast resolver set.
\<close>

section \<open>Schemes\<close>

datatype DnsScheme = System | Mdns | H3 | Http

fun scheme_display :: "DnsScheme \<Rightarrow> rstr" where
  "scheme_display DnsScheme.System = str ''system''"
| "scheme_display DnsScheme.Mdns = str ''mdns''"
| "scheme_display DnsScheme.H3 = str ''h3''"
| "scheme_display DnsScheme.Http = str ''http''"

definition scheme_from_str :: "rstr \<Rightarrow> rstr + DnsScheme" where
  "scheme_from_str s =
     (let l = to_ascii_lowercase s in
      if l = str ''system'' then Inr DnsScheme.System
      else if l = str ''mdns'' then Inr DnsScheme.Mdns
      else if l = str ''h3'' then Inr DnsScheme.H3
      else if l = str ''http'' then Inr DnsScheme.Http
      else Inl (str ''unsupported DNS scheme: '' @ s))"

section \<open>Installation\<close>

record 'm Installed =
  inst_schemes :: "DnsScheme list"
  inst_mdns :: "'m option"

record 'm registry =
  installed :: "'m Installed"
  added :: "DnsScheme list" \<comment> \<open>the calls of \<^verbatim>\<open>Resolver::add\<close>, in order\<close>

record 'm builders =
  h3_anonymous :: "io_error + unit"
  http_new :: "io_error + unit"
  mdns_new :: 'm

definition registry_new :: "'m registry" where
  "registry_new = \<lparr>installed = \<lparr>inst_schemes = [], inst_mdns = None\<rparr>, added = []\<rparr>"

text \<open>One pass of the loop for a scheme that is not installed: build, add, and record it.\<close>

definition add_scheme :: "'m builders \<Rightarrow> DnsScheme \<Rightarrow> 'm registry \<Rightarrow> 'm registry \<times> (io_error + unit)" where
  "add_scheme B scheme st =
     (let record_scheme = (\<lambda>st. st\<lparr>installed := (installed st)\<lparr>inst_schemes := inst_schemes (installed st) @ [scheme]\<rparr>\<rparr>);
          add = (\<lambda>st. st\<lparr>added := added st @ [scheme]\<rparr>)
      in case scheme of
           DnsScheme.System \<Rightarrow> (record_scheme (add st), Inr ())
         | DnsScheme.H3 \<Rightarrow> (case h3_anonymous B of Inl e \<Rightarrow> (st, Inl e) | Inr _ \<Rightarrow> (record_scheme (add st), Inr ()))
         | DnsScheme.Http \<Rightarrow> (case http_new B of Inl e \<Rightarrow> (st, Inl e) | Inr _ \<Rightarrow> (record_scheme (add st), Inr ()))
         | DnsScheme.Mdns \<Rightarrow>
             (let st = add st in
              (record_scheme (st\<lparr>installed := (installed st)\<lparr>inst_mdns := Some (mdns_new B)\<rparr>\<rparr>), Inr ())))"

fun install_loop :: "'m builders \<Rightarrow> DnsScheme list \<Rightarrow> 'm registry \<Rightarrow> 'm registry \<times> (io_error + unit)" where
  "install_loop B [] st = (st, Inr ())"
| "install_loop B (scheme # rest) st =
     (if scheme \<in> set (inst_schemes (installed st)) then install_loop B rest st
      else case add_scheme B scheme st of
             (st, Inl e) \<Rightarrow> (st, Inl e)
           | (st, Inr _) \<Rightarrow> install_loop B rest st)"

definition requested_schemes :: "DnsScheme list \<Rightarrow> DnsScheme list" where
  "requested_schemes schemes =
     (if list_ex (\<lambda>s. s = DnsScheme.H3 \<or> s = DnsScheme.Http) schemes then schemes @ [DnsScheme.System] else schemes)"

text \<open>\<open>lock\<close> is what locking the mutex gave.\<close>

definition install_resolvers ::
  "'m builders \<Rightarrow> io_error + unit \<Rightarrow> DnsScheme list \<Rightarrow> 'm registry \<Rightarrow> 'm registry \<times> (io_error + 'm option)" where
  "install_resolvers B lock schemes st =
     (case lock of
        Inl e \<Rightarrow> (st, Inl e)
      | Inr _ \<Rightarrow>
          (case install_loop B (requested_schemes schemes) st of
             (st, Inl e) \<Rightarrow> (st, Inl e)
           | (st, Inr _) \<Rightarrow>
               (st, Inr (if DnsScheme.Mdns \<in> set schemes then inst_mdns (installed st) else None))))"

section \<open>Lemmas\<close>

definition registry_ok :: "'m registry \<Rightarrow> bool" where
  "registry_ok st \<longleftrightarrow> distinct (added st) \<and> inst_schemes (installed st) = added st \<and>
     (inst_mdns (installed st) \<noteq> None \<longleftrightarrow> DnsScheme.Mdns \<in> set (added st))"

lemma add_scheme_cases:
  assumes "add_scheme B scheme st = (st', res)" and "registry_ok st" and "scheme \<notin> set (added st)"
  shows "registry_ok st' \<and>
    (added st' = added st @ [scheme] \<and> res = Inr () \<and>
       (inst_mdns (installed st) \<noteq> None \<longrightarrow> inst_mdns (installed st') = inst_mdns (installed st)) \<or>
     st' = st \<and> (\<exists>e. Inl e = res))"
  using assms by (cases scheme) (auto simp: add_scheme_def registry_ok_def Let_def split: sum.splits)

lemma install_loop_spec:
  assumes "install_loop B ss st = (st', res)" and "registry_ok st"
  shows "registry_ok st' \<and> (\<exists>new. added st' = added st @ new \<and> set new \<subseteq> set ss) \<and>
    (\<not> isl res \<longrightarrow> set ss \<subseteq> set (added st')) \<and>
    (inst_mdns (installed st) \<noteq> None \<longrightarrow> inst_mdns (installed st') = inst_mdns (installed st))"
  using assms
proof (induction ss arbitrary: st)
  case (Cons s ss)
  have inst: "inst_schemes (installed st) = added st" using Cons.prems(2) by (simp add: registry_ok_def)
  show ?case
  proof (cases "s \<in> set (added st)")
    case True
    then show ?thesis using Cons.IH [of st] Cons.prems by (auto simp: inst)
  next
    case False
    obtain st1 r1 where a: "add_scheme B s st = (st1, r1)" by (cases "add_scheme B s st")
    note c = add_scheme_cases [OF a Cons.prems(2) False]
    show ?thesis
    proof (cases r1)
      case (Inl e)
      then show ?thesis using Cons.prems False a c by (auto simp: inst)
    next
      case (Inr u)
      then have "install_loop B ss st1 = (st', res)" using Cons.prems(1) False a by (simp add: inst)
      then show ?thesis using Cons.IH [of st1] c Inr by auto
    qed
  qed
qed auto

lemma install_loop_nothing: "set ss \<subseteq> set (inst_schemes (installed st)) \<Longrightarrow> install_loop B ss st = (st, Inr ())"
  by (induction ss) auto

section \<open>Properties\<close>

text \<open>A scheme name is accepted exactly when, in lower case, it is the name the scheme is displayed
  with; so display and parsing are inverse.\<close>

theorem scheme_from_str_iff:
  "(scheme_from_str s = Inr d \<longleftrightarrow> to_ascii_lowercase s = scheme_display d) \<and>
   scheme_from_str (scheme_display d) = Inr d"
proof
  show "scheme_from_str s = Inr d \<longleftrightarrow> to_ascii_lowercase s = scheme_display d"
    by (cases d) (auto simp: scheme_from_str_def Let_def str_def)
  show "scheme_from_str (scheme_display d) = Inr d"
    by (cases d) (simp_all add: scheme_from_str_def Let_def str_def to_ascii_lowercase_def ascii_lower_def)
qed

text \<open>C39: Resolvers are installed exactly once. From a consistent registry, whatever the constructors
  return, a call only appends resolvers that were asked for and were not there, never a scheme
  twice, and keeps the multicast handle of an earlier call. A successful call leaves every
  requested scheme installed, with the system resolver whenever H3 or HTTP is asked for, returns
  the multicast handle exactly when multicast is asked for, and repeating it changes nothing.\<close>

theorem install_exactly_once:
  assumes "registry_ok st" and "install_resolvers B lock schemes st = (st', res)"
  shows "registry_ok st' \<and> (\<exists>new. added st' = added st @ new \<and> set new \<subseteq> set (requested_schemes schemes)) \<and>
    (inst_mdns (installed st) \<noteq> None \<longrightarrow> inst_mdns (installed st') = inst_mdns (installed st)) \<and>
    (\<forall>h. res = Inr h \<longrightarrow> set (requested_schemes schemes) \<subseteq> set (added st') \<and>
      (h \<noteq> None \<longleftrightarrow> DnsScheme.Mdns \<in> set schemes) \<and>
      install_resolvers B (Inr ()) schemes st' = (st', Inr h))"
proof (cases lock)
  case (Inl e)
  then show ?thesis using assms by (auto simp: install_resolvers_def)
next
  case (Inr u)
  obtain st1 r1 where l: "install_loop B (requested_schemes schemes) st = (st1, r1)"
    by (cases "install_loop B (requested_schemes schemes) st")
  have st': "st' = st1"
    using assms(2) l Inr by (auto simp: install_resolvers_def split: sum.splits)
  note spec = install_loop_spec [OF l assms(1)]
  have "set (requested_schemes schemes) \<subseteq> set (added st1) \<and> (h \<noteq> None \<longleftrightarrow> DnsScheme.Mdns \<in> set schemes) \<and>
      install_resolvers B (Inr ()) schemes st1 = (st1, Inr h)" if res: "res = Inr h" for h
  proof -
    have ok: "\<not> isl r1" "h = (if DnsScheme.Mdns \<in> set schemes then inst_mdns (installed st1) else None)"
      using assms(2) l Inr res by (auto simp: install_resolvers_def split: sum.splits if_splits)
    have sub: "set (requested_schemes schemes) \<subseteq> set (added st1)" using spec ok(1) by blast
    have mdns: "DnsScheme.Mdns \<in> set schemes \<Longrightarrow> inst_mdns (installed st1) \<noteq> None"
      using sub spec by (auto simp: requested_schemes_def registry_ok_def split: if_splits)
    have "set (requested_schemes schemes) \<subseteq> set (inst_schemes (installed st1))"
      using sub spec by (simp add: registry_ok_def)
    then show ?thesis
      using sub mdns ok(2) install_loop_nothing [of "requested_schemes schemes" st1 B] by (auto simp: install_resolvers_def)
  qed
  then show ?thesis using spec by (simp add: st')
qed

definition demo_builders :: "nat builders" where
  "demo_builders = \<lparr>h3_anonymous = Inr (), http_new = Inl (IoError (str ''tls'')), mdns_new = 7\<rparr>"

theorem install_exactly_once_witness:
  "case install_resolvers demo_builders (Inr ()) [DnsScheme.H3, DnsScheme.Mdns] registry_new of
     (st, res) \<Rightarrow> added st = [DnsScheme.H3, DnsScheme.Mdns, DnsScheme.System] \<and> res = Inr (Some 7) \<and> registry_ok st \<and>
       install_resolvers demo_builders (Inr ()) [DnsScheme.H3, DnsScheme.Mdns] st = (st, Inr (Some 7))"
proof -
  obtain st res where r: "install_resolvers demo_builders (Inr ()) [DnsScheme.H3, DnsScheme.Mdns] registry_new = (st, res)"
    by fastforce
  have ok: "registry_ok (registry_new :: nat registry)" by (simp add: registry_ok_def registry_new_def)
  have "added st = [DnsScheme.H3, DnsScheme.Mdns, DnsScheme.System] \<and> res = Inr (Some 7)"
    using r by (auto simp: install_resolvers_def requested_schemes_def add_scheme_def registry_new_def demo_builders_def)
  then show ?thesis using install_exactly_once [OF ok r] r by simp
qed

end
