(* ===== verification/Bootstrap.thy ===== *)
theory Bootstrap
  imports ResolverConfig Adapters
begin

text \<open>
  The configuration that is fixed when the crate is built (\<^verbatim>\<open>build.rs\<close>) and the installation of resolvers with it
  (\<^verbatim>\<open>src/resolver_config.rs\<close>). The environment of the build is an argument, \<open>None\<close> for a variable that is not
  set or not Unicode; so are parsing a URL, the system's trust roots, and \<open>debug_str\<close>, the escaped literal of a
  string. The generated file defines each constant by such a literal, so the constant is the string itself.
\<close>

section \<open>The build script\<close>

definition NAME_SERVICE_ENV :: rstr where "NAME_SERVICE_ENV = str ''DHTTP_NAME_SERVICE''"
definition BOOTSTRAP_URL_ENV :: rstr where "BOOTSTRAP_URL_ENV = str ''DHTTP_BOOTSTRAP_URL''"
definition MDNS_SERVICE_DOMAIN_ENV :: rstr where "MDNS_SERVICE_DOMAIN_ENV = str ''DHTTP_MDNS_SERVICE_DOMAIN''"
definition DEFAULT_NAME_SERVICE :: rstr where "DEFAULT_NAME_SERVICE = str ''https://ddns.genmeta.net''"
definition DEFAULT_BOOTSTRAP_URL :: rstr where "DEFAULT_BOOTSTRAP_URL = str ''https://bootstrap.genmeta.net:20002''"
definition DEFAULT_MDNS_SERVICE_DOMAIN :: rstr where "DEFAULT_MDNS_SERVICE_DOMAIN = str ''_dhttp.local''"

definition env_or_default :: "(rstr \<Rightarrow> rstr option) \<Rightarrow> rstr \<Rightarrow> rstr \<Rightarrow> rstr" where
  "env_or_default getenv name dflt = (case getenv name of Some v \<Rightarrow> v | None \<Rightarrow> dflt)"

definition DHTTP_NAME_SERVICE :: "(rstr \<Rightarrow> rstr option) \<Rightarrow> rstr" where
  "DHTTP_NAME_SERVICE getenv = env_or_default getenv NAME_SERVICE_ENV DEFAULT_NAME_SERVICE"

definition DHTTP_BOOTSTRAP_URL :: "(rstr \<Rightarrow> rstr option) \<Rightarrow> rstr" where
  "DHTTP_BOOTSTRAP_URL getenv = env_or_default getenv BOOTSTRAP_URL_ENV DEFAULT_BOOTSTRAP_URL"

definition DHTTP_MDNS_SERVICE_DOMAIN :: "(rstr \<Rightarrow> rstr option) \<Rightarrow> rstr" where
  "DHTTP_MDNS_SERVICE_DOMAIN getenv = env_or_default getenv MDNS_SERVICE_DOMAIN_ENV DEFAULT_MDNS_SERVICE_DOMAIN"

text \<open>The file that is written and the lines for cargo.\<close>

definition const_line :: "(rstr \<Rightarrow> rstr) \<Rightarrow> rstr \<Rightarrow> rstr \<Rightarrow> rstr" where
  "const_line debug_str name v = str ''pub const '' @ name @ str '': &str = '' @ debug_str v @ str '';'' @ [newline]"

definition build_main :: "(rstr \<Rightarrow> rstr) \<Rightarrow> (rstr \<Rightarrow> rstr option) \<Rightarrow> rstr \<times> rstr list" where
  "build_main debug_str getenv =
     (let name_service = env_or_default getenv NAME_SERVICE_ENV DEFAULT_NAME_SERVICE;
          bootstrap_url = env_or_default getenv BOOTSTRAP_URL_ENV DEFAULT_BOOTSTRAP_URL;
          mdns_service_domain = env_or_default getenv MDNS_SERVICE_DOMAIN_ENV DEFAULT_MDNS_SERVICE_DOMAIN
      in (str ''// @generated by build.rs; do not edit.'' @ [newline] @
          const_line debug_str (str ''DHTTP_NAME_SERVICE'') name_service @
          const_line debug_str (str ''DHTTP_BOOTSTRAP_URL'') bootstrap_url @
          const_line debug_str (str ''DHTTP_MDNS_SERVICE_DOMAIN'') mdns_service_domain,
          map (\<lambda>v. str ''cargo::rerun-if-env-changed='' @ v) [NAME_SERVICE_ENV, BOOTSTRAP_URL_ENV, MDNS_SERVICE_DOMAIN_ENV]))"

section \<open>Building the resolvers\<close>

fun InvalidServerOrigin_io :: "InvalidServerOrigin \<Rightarrow> io_error" where
  "InvalidServerOrigin_io NotHttps = IoError (str ''DNS server origin must use https'')"
| "InvalidServerOrigin_io MissingHost = IoError (str ''DNS server origin must include a host'')"
| "InvalidServerOrigin_io HasCredentials = IoError (str ''DNS server origin must not include credentials'')"
| "InvalidServerOrigin_io HasPathQueryOrFragment =
     IoError (str ''DNS server origin must not include a path, query, or fragment'')"
| "InvalidServerOrigin_io DhttpOrigin = IoError (str ''H3 DNS server origin must be outside dhttp.net'')"

fun BuildHttpResolverError_io :: "foreign \<Rightarrow> BuildHttpResolverError \<Rightarrow> io_error" where
  "BuildHttpResolverError_io F (InvalidOrigin e) = IoErr (str ''invalid HTTP DNS server origin'') (Some (InvalidServerOrigin_io e))"
| "BuildHttpResolverError_io F NoUsableTrustRoots = IoError (str ''no usable system trust roots'')"
| "BuildHttpResolverError_io F BuildClient = IoErr (str ''failed to build HTTP DNS client'') (Some (request_error F))"

text \<open>The arms of the \<^verbatim>\<open>match\<close> in \<open>install_resolvers\<close>. \<open>url_parse\<close> is \<^verbatim>\<open>Url::parse\<close>; \<open>valid\<close> and \<open>built\<close> are the number of usable
  trust roots and whether the HTTP client can be built.\<close>

definition build_h3 :: "(rstr \<Rightarrow> io_error + Url) \<Rightarrow> (rstr \<Rightarrow> rstr option) \<Rightarrow> io_error + unit H3Resolver" where
  "build_h3 url_parse getenv =
     (case url_parse (DHTTP_NAME_SERVICE getenv) of
        Inl e \<Rightarrow> Inl e
      | Inr url \<Rightarrow> map_err InvalidServerOrigin_io (H3Resolver_anonymous url))"

definition build_http ::
  "foreign \<Rightarrow> (rstr \<Rightarrow> io_error + Url) \<Rightarrow> nat \<Rightarrow> bool \<Rightarrow> (rstr \<Rightarrow> rstr option) \<Rightarrow> io_error + HttpResolver" where
  "build_http F url_parse valid built getenv =
     (case url_parse (DHTTP_NAME_SERVICE getenv) of
        Inl e \<Rightarrow> Inl e
      | Inr url \<Rightarrow> map_err (BuildHttpResolverError_io F) (HttpResolver_new valid built url))"

definition crate_builders ::
  "foreign \<Rightarrow> (rstr \<Rightarrow> io_error + Url) \<Rightarrow> nat \<Rightarrow> bool \<Rightarrow> (rstr \<Rightarrow> rstr option) \<Rightarrow> MdnsResolverSet builders" where
  "crate_builders F url_parse valid built getenv =
     \<lparr>h3_anonymous = (case build_h3 url_parse getenv of Inl e \<Rightarrow> Inl e | Inr _ \<Rightarrow> Inr ()),
      http_new = (case build_http F url_parse valid built getenv of Inl e \<Rightarrow> Inl e | Inr _ \<Rightarrow> Inr ()),
      mdns_new = MdnsResolverSet_new (DHTTP_MDNS_SERVICE_DOMAIN getenv)\<rparr>"

section \<open>Lemmas\<close>

text \<open>The URL the default denotes.\<close>

definition default_url :: Url where
  "default_url = \<lparr>url_scheme = str ''https'', url_host = Some (str ''ddns.genmeta.net''), url_username = [], url_password = None,
     url_path = str ''/'', url_query = None, url_fragment = None\<rparr>"

lemma default_url_accepted: "validate_server_origin default_url rd = Inr ()"
proof -
  have "validate_server_origin default_url True = Inr ()" "validate_server_origin default_url False = Inr ()" by code_simp+
  then show ?thesis by (cases rd) simp_all
qed

lemma default_domain_valid: "valid_service_name DEFAULT_MDNS_SERVICE_DOMAIN"
  by code_simp

lemma add_scheme_ok:
  assumes "h3_anonymous B = Inr ()" and "http_new B = Inr ()"
  shows "\<exists>st'. add_scheme B scheme st = (st', Inr ()) \<and> inst_schemes (installed st') = inst_schemes (installed st) @ [scheme] \<and>
    added st' = added st @ [scheme] \<and> (scheme = DnsScheme.Mdns \<longrightarrow> inst_mdns (installed st') = Some (mdns_new B)) \<and>
    (scheme \<noteq> DnsScheme.Mdns \<longrightarrow> inst_mdns (installed st') = inst_mdns (installed st))"
  using assms by (cases scheme) (simp_all add: add_scheme_def Let_def)

lemma install_loop_ok:
  assumes "h3_anonymous B = Inr ()" and "http_new B = Inr ()" and "inst_schemes (installed st) = added st"
    and "DnsScheme.Mdns \<in> set (added st) \<Longrightarrow> inst_mdns (installed st) = Some (mdns_new B)"
  shows "\<exists>st'. install_loop B ss st = (st', Inr ()) \<and> set (added st') = set (added st) \<union> set ss \<and>
    (DnsScheme.Mdns \<in> set (added st') \<longrightarrow> inst_mdns (installed st') = Some (mdns_new B))"
  using assms(3,4)
proof (induction ss arbitrary: st)
  case (Cons s ss)
  show ?case
  proof (cases "s \<in> set (added st)")
    case True
    then show ?thesis using Cons.IH [OF Cons.prems] Cons.prems(1) by (auto simp: insert_absorb)
  next
    case False
    obtain st1 where st1: "add_scheme B s st = (st1, Inr ())" "inst_schemes (installed st1) = added st1" "added st1 = added st @ [s]"
        "s = DnsScheme.Mdns \<longrightarrow> inst_mdns (installed st1) = Some (mdns_new B)"
        "s \<noteq> DnsScheme.Mdns \<longrightarrow> inst_mdns (installed st1) = inst_mdns (installed st)"
      using add_scheme_ok [OF assms(1,2), of s st] Cons.prems(1) by auto
    have "\<exists>st'. install_loop B ss st1 = (st', Inr ()) \<and> set (added st') = set (added st1) \<union> set ss \<and>
        (DnsScheme.Mdns \<in> set (added st') \<longrightarrow> inst_mdns (installed st') = Some (mdns_new B))"
      by (rule Cons.IH) (use st1 Cons.prems(2) in auto)
    then show ?thesis using False Cons.prems(1) st1(1,3) by auto
  qed
qed auto

section \<open>Properties\<close>

text \<open>The defaults work. Built without any of the variables set, on a system with trust roots, and with the
  default service URL parsed as it is written, the installation of every list of schemes succeeds: all
  requested resolvers are installed, with the system resolver where H3 or HTTP is among them, and the
  multicast set is returned exactly when it was asked for; its service name passes the check that every later
  binding makes, so a binding fails only when its socket does. When the service URL lies inside
  \<^verbatim>\<open>dhttp.net\<close>, installing H3 is refused with that reason and nothing is installed.\<close>

theorem default_configuration_installs:
  assumes "\<forall>v. getenv v = None" and "url_parse DEFAULT_NAME_SERVICE = Inr default_url" and "valid \<noteq> 0"
  shows "(case install_resolvers (crate_builders F url_parse valid True getenv) (Inr ()) schemes registry_new of
      (st, res) \<Rightarrow> set (added st) = set (requested_schemes schemes) \<and>
        res = Inr (if DnsScheme.Mdns \<in> set schemes then Some (MdnsResolverSet_new DEFAULT_MDNS_SERVICE_DOMAIN) else None)) \<and>
    (case mdns_bind sock DEFAULT_MDNS_SERVICE_DOMAIN dev ip of Inl e \<Rightarrow> \<exists>err. sock dev ip = Some err \<and> e = Bind dev ip err | Inr _ \<Rightarrow> sock dev ip = None) \<and>
    (validate_server_origin url True = Inl DhttpOrigin \<longrightarrow>
      install_resolvers (crate_builders F (\<lambda>_. Inr url) valid True getenv) (Inr ()) [DnsScheme.H3] registry_new =
        (registry_new, Inl (InvalidServerOrigin_io DhttpOrigin)))"
proof (intro conjI impI)
  let ?B = "crate_builders F url_parse valid True getenv"
  have svc: "DHTTP_NAME_SERVICE getenv = DEFAULT_NAME_SERVICE" "DHTTP_MDNS_SERVICE_DOMAIN getenv = DEFAULT_MDNS_SERVICE_DOMAIN"
    using assms(1) by (simp_all add: DHTTP_NAME_SERVICE_def DHTTP_MDNS_SERVICE_DOMAIN_def env_or_default_def)
  have B: "h3_anonymous ?B = Inr ()" "http_new ?B = Inr ()" "mdns_new ?B = MdnsResolverSet_new DEFAULT_MDNS_SERVICE_DOMAIN"
    using assms(2,3) default_url_accepted
    by (simp_all add: crate_builders_def build_h3_def build_http_def svc H3Resolver_anonymous_def HttpResolver_new_def
        build_http_client_def map_err_def)
  obtain st where st: "install_loop ?B (requested_schemes schemes) registry_new = (st, Inr ())"
      "set (added st) = set (requested_schemes schemes)"
      "DnsScheme.Mdns \<in> set (added st) \<longrightarrow> inst_mdns (installed st) = Some (mdns_new ?B)"
    using install_loop_ok [OF B(1,2), of registry_new "requested_schemes schemes"] by (auto simp: registry_new_def)
  have "DnsScheme.Mdns \<in> set schemes \<longleftrightarrow> DnsScheme.Mdns \<in> set (requested_schemes schemes)" by (auto simp: requested_schemes_def)
  then show "case install_resolvers ?B (Inr ()) schemes registry_new of
      (st, res) \<Rightarrow> set (added st) = set (requested_schemes schemes) \<and>
        res = Inr (if DnsScheme.Mdns \<in> set schemes then Some (MdnsResolverSet_new DEFAULT_MDNS_SERVICE_DOMAIN) else None)"
    using st B(3) by (simp add: install_resolvers_def)
  show "case mdns_bind sock DEFAULT_MDNS_SERVICE_DOMAIN dev ip of Inl e \<Rightarrow> \<exists>err. sock dev ip = Some err \<and> e = Bind dev ip err | Inr _ \<Rightarrow> sock dev ip = None"
    using default_domain_valid by (simp add: mdns_bind_def MdnsResolver_new_def split: option.splits)
  show "install_resolvers (crate_builders F (\<lambda>_. Inr url) valid True getenv) (Inr ()) [DnsScheme.H3] registry_new =
        (registry_new, Inl (InvalidServerOrigin_io DhttpOrigin))" if "validate_server_origin url True = Inl DhttpOrigin"
    using that by (simp add: install_resolvers_def requested_schemes_def registry_new_def add_scheme_def crate_builders_def
        build_h3_def H3Resolver_anonymous_def map_err_def)
qed

theorem default_configuration_installs_witness:
  "case install_resolvers (crate_builders demo_foreign (\<lambda>_. Inr default_url) 1 True (\<lambda>_. None))
       (Inr ()) [DnsScheme.Mdns, DnsScheme.H3] registry_new of
     (st, res) \<Rightarrow> set (added st) = {DnsScheme.Mdns, DnsScheme.H3, DnsScheme.System} \<and>
       res = Inr (Some (MdnsResolverSet_new (str ''_dhttp.local'')))"
  using default_configuration_installs [where getenv = "\<lambda>_. None" and url_parse = "\<lambda>_. Inr default_url" and valid = 1 and F = demo_foreign
      and schemes = "[DnsScheme.Mdns, DnsScheme.H3]"]
  by (simp add: requested_schemes_def DEFAULT_MDNS_SERVICE_DOMAIN_def insert_commute)

end
