(* ===== verification/Display.thy ===== *)
theory Display
  imports ErrorText
begin

text \<open>
  How addresses, records and packets print: \<^verbatim>\<open>Display\<close> for \<^verbatim>\<open>EndpointAddr\<close> (\<^verbatim>\<open>src/core/parser/record/endpoint.rs\<close>),
  for \<^verbatim>\<open>RData\<close> (\<^verbatim>\<open>record.rs\<close>) and both formats of \<^verbatim>\<open>Packet\<close> (\<^verbatim>\<open>packet.rs\<close>), with the formats of the standard library's
  addresses that they use. \<open>debug_rdata\<close> is the derived \<^verbatim>\<open>Debug\<close> of the record data whose content is foreign
  text (TXT, SRV, PTR).
\<close>

section \<open>Addresses\<close>

definition octets :: "Ipv4Addr \<Rightarrow> u8 list" where
  "octets ip = map (\<lambda>i. ucast (drop_bit i ip)) [24, 16, 8, 0]"

definition segments :: "Ipv6Addr \<Rightarrow> u16 list" where
  "segments ip = map (\<lambda>i. ucast (drop_bit i ip)) [112, 96, 80, 64, 48, 32, 16, 0]"

definition ipv4_display :: "Ipv4Addr \<Rightarrow> rstr" where
  "ipv4_display ip = join_with [dot] (map (\<lambda>b. dec_digits (unat b)) (octets ip))"

text \<open>The first longest run of zero segments, as its start and length.\<close>

fun zero_run :: "u16 list \<Rightarrow> nat \<Rightarrow> nat \<times> nat \<Rightarrow> nat \<times> nat \<Rightarrow> nat \<times> nat" where
  "zero_run [] i current longest = longest"
| "zero_run (s # ss) i current longest =
     (if s = 0 then
        let current = (if snd current = 0 then i else fst current, snd current + 1)
        in zero_run ss (i + 1) current (if snd current > snd longest then current else longest)
      else zero_run ss (i + 1) (0, 0) longest)"

definition fmt_subslice :: "u16 list \<Rightarrow> rstr" where
  "fmt_subslice ss = join_with [colon] (map (\<lambda>s. hex_digits (unat s)) ss)"

definition ipv6_display :: "Ipv6Addr \<Rightarrow> rstr" where
  "ipv6_display ip =
     (if drop_bit 32 ip = 0xFFFF then str ''::ffff:'' @ ipv4_display (ucast ip)
      else
        let ss = segments ip;
            (start, len) = zero_run ss 0 (0, 0) (0, 0)
        in if len > 1 then fmt_subslice (take start ss) @ str ''::'' @ fmt_subslice (drop (start + len) ss)
           else fmt_subslice ss)"

fun socket_addr_display :: "SocketAddr \<Rightarrow> rstr" where
  "socket_addr_display (V4 a) = ipv4_display (v4_ip a) @ [colon] @ dec_digits (unat (v4_port a))"
| "socket_addr_display (V6 a) =
     str ''['' @ ipv6_display (v6_ip a) @
     (if v6_scope_id a = 0 then [] else str ''%'' @ dec_digits (unat (v6_scope_id a))) @
     str '']:'' @ dec_digits (unat (v6_port a))"

definition EndpointAddr_display :: "EndpointAddr \<Rightarrow> rstr" where
  "EndpointAddr_display ep =
     (case agent ep of
        Some agent_addr \<Rightarrow> socket_addr_display (primary ep) @ str ''-'' @ socket_addr_display agent_addr
      | None \<Rightarrow> socket_addr_display (primary ep))"

section \<open>Records and packets\<close>

fun RData_display :: "(RData \<Rightarrow> rstr) \<Rightarrow> RData \<Rightarrow> rstr" where
  "RData_display debug_rdata (RData.A ip) = ipv4_display ip"
| "RData_display debug_rdata (RData.AAAA ip) = ipv6_display ip"
| "RData_display debug_rdata (RData.CName name) = str ''CName('' @ name @ str '')''"
| "RData_display debug_rdata (RData.Txt txt) = debug_rdata (RData.Txt txt) @ str '')''"
| "RData_display debug_rdata (RData.Srv srv) = debug_rdata (RData.Srv srv)"
| "RData_display debug_rdata (RData.Ptr ptr) = debug_rdata (RData.Ptr ptr)"
| "RData_display debug_rdata (RData.E ep) = EndpointAddr_display ep"

fun opcode_debug :: "Opcode \<Rightarrow> rstr" where
  "opcode_debug StandardQuery = str ''StandardQuery''"
| "opcode_debug InverseQuery = str ''InverseQuery''"
| "opcode_debug ServerStatusRequest = str ''ServerStatusRequest''"
| "opcode_debug (Opcode.Reserved v) = str ''Reserved('' @ dec_digits (unat v) @ str '')''"

fun rcode_debug :: "ResponseCode \<Rightarrow> rstr" where
  "rcode_debug NoError = str ''NoError''"
| "rcode_debug FormatError = str ''FormatError''"
| "rcode_debug ServerFailure = str ''ServerFailure''"
| "rcode_debug NameError = str ''NameError''"
| "rcode_debug NotImplemented = str ''NotImplemented''"
| "rcode_debug Refused = str ''Refused''"
| "rcode_debug (ResponseCode.Reserved v) = str ''Reserved('' @ dec_digits (unat v) @ str '')''"

fun query_type_debug :: "QueryType \<Rightarrow> rstr" where
  "query_type_debug QueryType.A = str ''A''"
| "query_type_debug QueryType.AAAA = str ''AAAA''"
| "query_type_debug QueryType.Cname = str ''Cname''"
| "query_type_debug QueryType.Txt = str ''Txt''"
| "query_type_debug QueryType.Srv = str ''Srv''"
| "query_type_debug QueryType.Ptr = str ''Ptr''"
| "query_type_debug QueryType.E = str ''E''"
| "query_type_debug E6 = str ''E6''"
| "query_type_debug EE = str ''EE''"
| "query_type_debug EE6 = str ''EE6''"

fun query_class_debug :: "QueryClass \<Rightarrow> rstr" where
  "query_class_debug QueryClass.IN = str ''IN''"
| "query_class_debug QueryClass.CS = str ''CS''"
| "query_class_debug QueryClass.CH = str ''CH''"
| "query_class_debug QueryClass.HS = str ''HS''"
| "query_class_debug Any = str ''Any''"

fun class_debug :: "Class \<Rightarrow> rstr" where
  "class_debug Class.IN = str ''IN''"
| "class_debug Class.CS = str ''CS''"
| "class_debug Class.CH = str ''CH''"
| "class_debug Class.HS = str ''HS''"

fun type_debug :: "Type \<Rightarrow> rstr" where
  "type_debug Type.A = str ''A''"
| "type_debug Ns = str ''Ns''"
| "type_debug Type.AAAA = str ''AAAA''"
| "type_debug Type.Cname = str ''Cname''"
| "type_debug Type.Txt = str ''Txt''"
| "type_debug Type.Srv = str ''Srv''"
| "type_debug Type.Ptr = str ''Ptr''"
| "type_debug Type.E = str ''E''"

definition bool_display :: "bool \<Rightarrow> rstr" where
  "bool_display b = (if b then str ''true'' else str ''false'')"

definition writeln :: "rstr \<Rightarrow> rstr" where
  "writeln s = s @ [newline]"

definition question_line :: "Question \<Rightarrow> rstr" where
  "question_line q = str ''    '' @ q_name q @ str '' '' @ query_class_debug (qclass q) @ str '' '' @ query_type_debug (qtype q)"

definition record_line :: "ResourceRecord \<Rightarrow> rstr" where
  "record_line rr = str ''    '' @ rr_name rr @ str '' '' @ dec_digits (unat (ttl rr)) @ str '' '' @ class_debug (cls rr) @
     str '' '' @ type_debug (rr_typ rr)"

definition answer_line :: "(RData \<Rightarrow> rstr) \<Rightarrow> ResourceRecord \<Rightarrow> rstr" where
  "answer_line debug_rdata rr = record_line rr @
     (case rdata rr of
        RData.A ip \<Rightarrow> str '' A '' @ ipv4_display ip
      | RData.AAAA ip \<Rightarrow> str '' AAAA '' @ ipv6_display ip
      | RData.CName name \<Rightarrow> str '' CNAME '' @ name
      | RData.E ep \<Rightarrow> str '' E '' @ EndpointAddr_display ep
      | other \<Rightarrow> str '' '' @ debug_rdata other)"

definition write_section :: "rstr \<Rightarrow> ('a \<Rightarrow> rstr) \<Rightarrow> 'a list \<Rightarrow> rstr" where
  "write_section heading line xs = (if xs = [] then [] else writeln heading @ concat (map (\<lambda>x. writeln (line x)) xs))"

definition header_line :: "Packet \<Rightarrow> rstr" where
  "header_line p = str ''  Header: ID='' @ dec_digits (unat (header_id (header p))) @
     str '', QR='' @ bool_display (flag_query (flags (header p))) @
     str '', AA='' @ bool_display (flag_authoritative (flags (header p))) @
     str '', RCODE='' @ rcode_debug (flag_response_code (flags (header p)))"

definition Packet_display :: "(RData \<Rightarrow> rstr) \<Rightarrow> Packet \<Rightarrow> rstr" where
  "Packet_display debug_rdata p =
     writeln (str ''DNS Packet:'') @ writeln (header_line p) @
     write_section (str ''  Questions:'') question_line (questions p) @
     write_section (str ''  Answers:'') (answer_line debug_rdata) (answers p) @
     write_section (str ''  Nameservers:'') record_line (nameservers p) @
     write_section (str ''  Additional:'') record_line (additional p)"

definition Packet_debug :: "Packet \<Rightarrow> rstr" where
  "Packet_debug p =
     str ''Packet { id: '' @ dec_digits (unat (header_id (header p))) @
     str '', qr: '' @ bool_display (flag_query (flags (header p))) @
     str '', opcode: '' @ opcode_debug (flag_opcode (flags (header p))) @
     str '', rcode: '' @ rcode_debug (flag_response_code (flags (header p))) @
     str '', questions: '' @ dec_digits (length (questions p)) @
     str '', answers: '' @ dec_digits (length (answers p)) @
     str '', authorities: '' @ dec_digits (length (nameservers p)) @
     str '', additional: '' @ dec_digits (length (additional p)) @ str '' }''"

lemma address_texts:
  "ipv6_display 1 = str ''::1''" "ipv6_display 0xFFFF7F000001 = str ''::ffff:127.0.0.1''"
  "ipv6_display 0x00010000000200030004000500060007 = str ''1:0:2:3:4:5:6:7''"
  "socket_addr_display (V6 (SocketAddrV6 1 443 0 3)) = str ''[::1%3]:443''"
  "socket_addr_display (V4 (SocketAddrV4 0xC0000201 443)) = str ''192.0.2.1:443''"
  by code_simp+

section \<open>Lines\<close>

definition section_lines :: "rstr \<Rightarrow> ('a \<Rightarrow> rstr) \<Rightarrow> 'a list \<Rightarrow> rstr list" where
  "section_lines heading line xs = (if xs = [] then [] else heading # map line xs)"

definition packet_lines :: "(RData \<Rightarrow> rstr) \<Rightarrow> Packet \<Rightarrow> rstr list" where
  "packet_lines debug_rdata p =
     [str ''DNS Packet:'', header_line p] @
     section_lines (str ''  Questions:'') question_line (questions p) @
     section_lines (str ''  Answers:'') (answer_line debug_rdata) (answers p) @
     section_lines (str ''  Nameservers:'') record_line (nameservers p) @
     section_lines (str ''  Additional:'') record_line (additional p)"

definition plain :: "rstr \<Rightarrow> bool" where
  "plain s \<longleftrightarrow> newline \<notin> set s"

lemma plain_simps [simp]:
  "plain []" "plain (b # s) \<longleftrightarrow> b \<noteq> newline \<and> plain s" "plain (s @ t) \<longleftrightarrow> plain s \<and> plain t"
  "plain (str cs) \<longleftrightarrow> list_all (\<lambda>c. of_char c \<noteq> newline) cs"
  by (simp_all add: plain_def str_def list_all_iff image_iff) (metis+)

lemma plain_digits [simp]: "plain (dec_digits n)"
  by (simp add: plain_def newline_free)

lemma plain_hex [simp]: "plain (hex_digits n)"
proof (induction n rule: hex_digits.induct)
  case (1 n)
  have "hex_char m \<noteq> newline" if "m < 16" for m
  proof -
    have "list_all (\<lambda>m. hex_char m \<noteq> newline) [0..<16]" by code_simp
    with that show ?thesis by (simp add: list_all_iff)
  qed
  then show ?case using 1 by (simp add: hex_digits.simps [of n])
qed

lemma plain_join: "plain sep \<Longrightarrow> list_all plain xs \<Longrightarrow> plain (join_with sep xs)"
  by (induction sep xs rule: join_with.induct) auto

lemma plain_addresses [simp]:
  "plain (ipv4_display ip4)" "plain (fmt_subslice ss)" "plain (ipv6_display ip6)"
proof -
  show v4: "plain (ipv4_display ip)" for ip
    unfolding ipv4_display_def by (rule plain_join) (simp_all add: newline_def list_all_iff)
  show sub: "plain (fmt_subslice ss)" for ss
    unfolding fmt_subslice_def by (rule plain_join) (simp_all add: newline_def list_all_iff)
  show "plain (ipv6_display ip6)"
    using v4 sub by (auto simp: ipv6_display_def Let_def newline_def split: prod.splits)
qed

lemma plain_socket [simp]: "plain (socket_addr_display a)"
  by (cases a) (simp_all add: newline_def)

lemma plain_endpoint [simp]: "plain (EndpointAddr_display ep)"
  by (auto simp: EndpointAddr_display_def newline_def split: option.splits)

lemma plain_codes [simp]: "plain (query_type_debug qt)" "plain (query_class_debug qc)" "plain (class_debug c)" "plain (type_debug t)"
  "plain (bool_display b)" "plain (rcode_debug rc)"
proof -
  show "plain (query_type_debug qt)" by (cases qt) (simp_all add: newline_def)
  show "plain (query_class_debug qc)" by (cases qc) (simp_all add: newline_def)
  show "plain (class_debug c)" by (cases c) (simp_all add: newline_def)
  show "plain (type_debug t)" by (cases t) (simp_all add: newline_def)
  show "plain (bool_display b)" by (simp add: bool_display_def newline_def)
  show "plain (rcode_debug rc)" by (cases rc) (simp_all add: newline_def)
qed

definition plain_record :: "(RData \<Rightarrow> rstr) \<Rightarrow> ResourceRecord \<Rightarrow> bool" where
  "plain_record debug_rdata rr \<longleftrightarrow> plain (rr_name rr) \<and> plain (debug_rdata (rdata rr)) \<and>
     (case rdata rr of RData.CName name \<Rightarrow> plain name | _ \<Rightarrow> True)"

definition plain_packet :: "(RData \<Rightarrow> rstr) \<Rightarrow> Packet \<Rightarrow> bool" where
  "plain_packet debug_rdata p \<longleftrightarrow> list_all (\<lambda>q. plain (q_name q)) (questions p) \<and>
     list_all (plain_record debug_rdata) (answers p) \<and> list_all (\<lambda>rr. plain (rr_name rr)) (nameservers p @ additional p)"

lemma plain_lines:
  "plain (q_name q) \<Longrightarrow> plain (question_line q)" "plain (rr_name rr) \<Longrightarrow> plain (record_line rr)"
  "plain_record debug_rdata rr \<Longrightarrow> plain (answer_line debug_rdata rr)" "plain (header_line p)"
  by (auto simp: question_line_def record_line_def answer_line_def header_line_def plain_record_def newline_def split: RData.splits)

lemma split_writeln: "list_all plain ls \<Longrightarrow> split_on newline (concat (map writeln ls)) = ls @ [[]]"
  by (induction ls) (auto simp: writeln_def plain_def split_on_append)

lemma write_section_lines: "write_section heading line xs = concat (map writeln (section_lines heading line xs))"
  by (simp add: write_section_def section_lines_def comp_def)

lemma plain_packet_lines: "plain_packet debug_rdata p \<Longrightarrow> list_all plain (packet_lines debug_rdata p)"
  by (auto simp: plain_packet_def packet_lines_def section_lines_def list_all_iff plain_lines newline_def)

section \<open>Properties\<close>

text \<open>A packet prints as one line for its header and, for each section that is not empty, a heading followed by
  exactly one line for each of its entries, in order; nothing else. Names and the data of TXT, SRV and PTR
  records are assumed to contain no line break: addresses and endpoints never do.\<close>

theorem packet_display_lines:
  assumes "plain_packet debug_rdata p"
  shows "split_on newline (Packet_display debug_rdata p) = packet_lines debug_rdata p @ [[]]"
proof -
  have "Packet_display debug_rdata p = concat (map writeln (packet_lines debug_rdata p))"
    by (simp add: Packet_display_def packet_lines_def write_section_lines)
  then show ?thesis using split_writeln [OF plain_packet_lines [OF assms]] by simp
qed

theorem packet_display_lines_witness:
  "split_on newline (Packet_display (\<lambda>_. []) Packet_default) =
     [str ''DNS Packet:'', str ''  Header: ID=0, QR=false, AA=false, RCODE=NoError'', []]"
proof -
  have "plain_packet (\<lambda>_. []) Packet_default" by (simp add: plain_packet_def Packet_default_def)
  moreover have "header_line Packet_default = str ''  Header: ID=0, QR=false, AA=false, RCODE=NoError''" by code_simp
  ultimately show ?thesis
    using packet_display_lines [of "\<lambda>_. []" Packet_default]
    by (simp add: packet_lines_def section_lines_def) (simp add: Packet_default_def)
qed

end
