(* ===== verification/MdnsTransport.thy ===== *)
theory MdnsTransport
  imports MdnsService "HOL-Library.Sublist"
begin

text \<open>
  The multicast socket and the lifetime of the protocol object (\<^verbatim>\<open>MdnsSocket::new\<close> and \<^verbatim>\<open>MdnsProtocol\<close> in
  \<^verbatim>\<open>src/mdns/protocol.rs\<close>, \<^verbatim>\<open>src/mdns/if_nametoindex.rs\<close>, and the tasks of \<^verbatim>\<open>src/mdns/service.rs\<close>).

  The operating system is a parameter: it accepts or refuses every call, knowing the calls that were made on
  the socket before, and it maps interface names to indices. A socket is the list of the calls that
  configured it. The router is owned by the routing task and by the calls in progress; the protocol
  object itself only holds a weak reference, so the model counts the strong ones.
\<close>

section \<open>Interface indices\<close>

datatype target_os = LinuxLike | AppleLike | Windows | OtherTarget

datatype sock_call =
  CreateSocket Family | SetNonblocking bool | SetReuseAddress bool | SetReusePort bool
| BindAddr SocketAddr | BindDevice rstr | BindDeviceByIndexV4 u32 | BindDeviceByIndexV6 u32
| SetMulticastLoopV4 bool | SetMulticastLoopV6 bool
| JoinMulticastV4 Ipv4Addr Ipv4Addr | JoinMulticastV6 Ipv6Addr u32
| SetMulticastIfV4 Ipv4Addr | SetMulticastIfV6 u32 | FromStd

record system =
  sys_target :: target_os
  sys_call :: "sock_call list \<Rightarrow> sock_call \<Rightarrow> io_error option"
  sys_nametoindex :: "rstr \<Rightarrow> u32"
  sys_last_error :: io_error

definition if_nametoindex :: "system \<Rightarrow> rstr \<Rightarrow> io_error + u32" where
  "if_nametoindex S name =
     (if 0 \<in> set name then Inl (IoError (str ''interface name contains NUL''))
      else
        let idx = sys_nametoindex S name
        in if idx = 0 then Inl (sys_last_error S) else Inr idx)"

text \<open>\<open>NonZeroU32::new(if_nametoindex(device)?).ok_or_else(...)?\<close>, as both arms of \<^verbatim>\<open>MdnsSocket::new\<close> have it.\<close>

definition nonzero_ifindex :: "system \<Rightarrow> rstr \<Rightarrow> io_error + u32" where
  "nonzero_ifindex S dev =
     (case if_nametoindex S dev of
        Inl e \<Rightarrow> Inl e
      | Inr idx \<Rightarrow> if idx = 0 then Inl (IoError (str ''interface index must be non-zero'')) else Inr idx)"

section \<open>Opening the socket\<close>

text \<open>\<open>prior\<close> is what the socket has been through.\<close>

fun perform :: "system \<Rightarrow> sock_call list \<Rightarrow> sock_call list \<Rightarrow> io_error + sock_call list" where
  "perform S [] prior = Inr prior"
| "perform S (c # cs) prior =
     (case sys_call S prior c of Some e \<Rightarrow> Inl e | None \<Rightarrow> perform S cs (prior @ [c]))"

definition and_then :: "'e + 'a \<Rightarrow> ('a \<Rightarrow> 'e + 'b) \<Rightarrow> 'e + 'b" where
  "and_then r f = (case r of Inl e \<Rightarrow> Inl e | Inr x \<Rightarrow> f x)"

definition on_target :: "bool \<Rightarrow> sock_call \<Rightarrow> sock_call list" where
  "on_target b c = (if b then [c] else [])"

record MdnsSocket =
  udp :: "sock_call list"
  sock_ip :: IpAddr
  sock_nic :: rstr

definition open_v4 :: "system \<Rightarrow> rstr \<Rightarrow> Ipv4Addr \<Rightarrow> io_error + sock_call list" where
  "open_v4 S dev ip =
     and_then (perform S
       ([CreateSocket FamV4, SetNonblocking True, SetReuseAddress True] @
        on_target (sys_target S \<noteq> Windows) (SetReusePort True) @
        [BindAddr (V4 (SocketAddrV4 0 MULTICAST_PORT))] @
        on_target (sys_target S = LinuxLike) (BindDevice dev)) []) (\<lambda>s.
     and_then
       (if sys_target S = AppleLike
        then and_then (nonzero_ifindex S dev) (\<lambda>ifindex. perform S [BindDeviceByIndexV4 ifindex] s)
        else Inr s) (\<lambda>s.
     perform S [SetMulticastLoopV4 True, JoinMulticastV4 MULTICAST_ADDR_V4 ip, SetMulticastIfV4 ip] s))"

definition open_v6 :: "system \<Rightarrow> rstr \<Rightarrow> io_error + sock_call list" where
  "open_v6 S dev =
     and_then (perform S
       ([CreateSocket FamV6, SetNonblocking True, SetReuseAddress True] @
        on_target (sys_target S \<noteq> Windows) (SetReusePort True) @
        [BindAddr (V6 (SocketAddrV6 0 MULTICAST_PORT 0 0))] @
        on_target (sys_target S = LinuxLike) (BindDevice dev) @
        [SetMulticastLoopV6 True]) []) (\<lambda>s.
     and_then (nonzero_ifindex S dev) (\<lambda>ifindex.
     perform S
       (on_target (sys_target S = AppleLike) (BindDeviceByIndexV6 ifindex) @
        [JoinMulticastV6 MULTICAST_ADDR_V6 ifindex, SetMulticastIfV6 ifindex]) s))"

definition MdnsSocket_new :: "system \<Rightarrow> rstr \<Rightarrow> IpAddr \<Rightarrow> io_error + MdnsSocket" where
  "MdnsSocket_new S dev ip =
     and_then (case ip of IpV4 a \<Rightarrow> open_v4 S dev a | IpV6 _ \<Rightarrow> open_v6 S dev) (\<lambda>s.
     and_then (perform S [FromStd] s) (\<lambda>s. Inr \<lparr>udp = s, sock_ip = ip, sock_nic = dev\<rparr>))"

section \<open>What the calls amount to\<close>

definition accepted_calls :: "system \<Rightarrow> sock_call list \<Rightarrow> bool" where
  "accepted_calls S cs \<longleftrightarrow> (\<forall>i < length cs. sys_call S (take i cs) (cs ! i) = None)"

datatype interface = OnAddress Ipv4Addr | OnIndex u32

fun call_join :: "sock_call \<Rightarrow> (IpAddr \<times> interface) option" where
  "call_join (JoinMulticastV4 grp a) = Some (IpV4 grp, OnAddress a)"
| "call_join (JoinMulticastV6 grp i) = Some (IpV6 grp, OnIndex i)"
| "call_join _ = None"

fun call_multicast_if :: "sock_call \<Rightarrow> interface option" where
  "call_multicast_if (SetMulticastIfV4 a) = Some (OnAddress a)"
| "call_multicast_if (SetMulticastIfV6 i) = Some (OnIndex i)"
| "call_multicast_if _ = None"

fun call_bind :: "sock_call \<Rightarrow> SocketAddr option" where
  "call_bind (BindAddr a) = Some a"
| "call_bind _ = None"

definition joins :: "MdnsSocket \<Rightarrow> (IpAddr \<times> interface) list" where
  "joins s = List.map_filter call_join (udp s)"

definition outgoing :: "MdnsSocket \<Rightarrow> interface list" where
  "outgoing s = List.map_filter call_multicast_if (udp s)"

definition binds :: "MdnsSocket \<Rightarrow> SocketAddr list" where
  "binds s = List.map_filter call_bind (udp s)"

fun on_port :: "IpAddr \<Rightarrow> u16 \<Rightarrow> SocketAddr" where
  "on_port (IpV4 a) p = V4 (SocketAddrV4 a p)"
| "on_port (IpV6 a) p = V6 (SocketAddrV6 a p 0 0)"

lemmas socket_defs = MdnsSocket_new_def open_v4_def open_v6_def and_then_def on_target_def

lemma if_nametoindex_nonzero: "if_nametoindex S name = Inr i \<Longrightarrow> i \<noteq> 0 \<and> i = sys_nametoindex S name \<and> 0 \<notin> set name"
  by (auto simp: if_nametoindex_def Let_def split: if_splits)

text \<open>The message \<^verbatim>\<open>interface index must be non-zero\<close> is never produced: the wrapper has already turned a zero
  index into the system's error.\<close>

lemma nonzero_ifindex_eq: "nonzero_ifindex S dev = if_nametoindex S dev"
  by (auto simp: nonzero_ifindex_def dest: if_nametoindex_nonzero split: sum.splits)

lemma accepted_calls_Nil [simp]: "accepted_calls S []"
  by (simp add: accepted_calls_def)

lemma accepted_calls_snoc [simp]: "accepted_calls S (cs @ [c]) \<longleftrightarrow> accepted_calls S cs \<and> sys_call S cs c = None"
  by (auto simp: accepted_calls_def nth_append less_Suc_eq)

lemma accepted_calls_append: "accepted_calls S (cs @ ds) \<Longrightarrow> accepted_calls S cs"
  by (induction ds rule: rev_induct) (auto simp flip: append_assoc)

lemma perform_Inr:
  "accepted_calls S prior \<Longrightarrow> perform S cs prior = Inr after \<longleftrightarrow> after = prior @ cs \<and> accepted_calls S (prior @ cs)"
proof (induction cs arbitrary: prior)
  case (Cons c cs)
  have "sys_call S prior c = None" if "accepted_calls S (prior @ c # cs)"
    using accepted_calls_append [of S "prior @ [c]" cs] that by simp
  with Cons show ?case by (auto split: option.splits)
qed auto

lemma perform_Inl:
  "accepted_calls S prior \<Longrightarrow> perform S cs prior = Inl e \<Longrightarrow>
   \<exists>before c. accepted_calls S before \<and> sys_call S before c = Some e \<and> prefix (before @ [c]) (prior @ cs)"
proof (induction cs arbitrary: prior)
  case (Cons c cs)
  show ?case
  proof (cases "sys_call S prior c")
    case None
    then show ?thesis using Cons.IH [of "prior @ [c]"] Cons.prems by simp
  next
    case (Some e')
    with Cons.prems show ?thesis by (intro exI [of _ prior] exI [of _ c]) simp
  qed
qed simp

declare perform.simps [simp del]

text \<open>All the calls for a socket, when the index of the interface is known.\<close>

definition socket_plan :: "target_os \<Rightarrow> rstr \<Rightarrow> u32 \<Rightarrow> IpAddr \<Rightarrow> sock_call list" where
  "socket_plan tgt dev i ip =
     (case ip of IpV4 _ \<Rightarrow> [CreateSocket FamV4] | IpV6 _ \<Rightarrow> [CreateSocket FamV6]) @
     [SetNonblocking True, SetReuseAddress True] @ on_target (tgt \<noteq> Windows) (SetReusePort True) @
     (case ip of IpV4 _ \<Rightarrow> [BindAddr (on_port (IpV4 0) MULTICAST_PORT)] | IpV6 _ \<Rightarrow> [BindAddr (on_port (IpV6 0) MULTICAST_PORT)]) @
     on_target (tgt = LinuxLike) (BindDevice dev) @
     (case ip of
        IpV4 a \<Rightarrow> on_target (tgt = AppleLike) (BindDeviceByIndexV4 i) @
          [SetMulticastLoopV4 True, JoinMulticastV4 MULTICAST_ADDR_V4 a, SetMulticastIfV4 a]
      | IpV6 _ \<Rightarrow> [SetMulticastLoopV6 True] @ on_target (tgt = AppleLike) (BindDeviceByIndexV6 i) @
          [JoinMulticastV6 MULTICAST_ADDR_V6 i, SetMulticastIfV6 i]) @ [FromStd]"

definition needs_index :: "target_os \<Rightarrow> IpAddr \<Rightarrow> bool" where
  "needs_index tgt ip \<longleftrightarrow> tgt = AppleLike \<or> (case ip of IpV4 _ \<Rightarrow> False | IpV6 _ \<Rightarrow> True)"

lemma and_then_Inr: "and_then r f = Inr y \<longleftrightarrow> (\<exists>x. r = Inr x \<and> f x = Inr y)"
  by (auto simp: and_then_def split: sum.splits)

lemma and_then_Inl: "and_then r f = Inl e \<longleftrightarrow> r = Inl e \<or> (\<exists>x. r = Inr x \<and> f x = Inl e)"
  by (auto simp: and_then_def split: sum.splits)

lemma perform_fresh: "perform S cs [] = Inr after \<longleftrightarrow> after = cs \<and> accepted_calls S cs"
  by (simp add: perform_Inr)

lemma open_v4_Inr:
  assumes "open_v4 S dev a = Inr cs"
  shows "accepted_calls S cs" and "cs @ [FromStd] = socket_plan (sys_target S) dev (sys_nametoindex S dev) (IpV4 a)"
    and "needs_index (sys_target S) (IpV4 a) \<Longrightarrow> if_nametoindex S dev = Inr (sys_nametoindex S dev)"
proof -
  obtain s1 s2 where s: "perform S
       ([CreateSocket FamV4, SetNonblocking True, SetReuseAddress True] @
        on_target (sys_target S \<noteq> Windows) (SetReusePort True) @
        [BindAddr (V4 (SocketAddrV4 0 MULTICAST_PORT))] @
        on_target (sys_target S = LinuxLike) (BindDevice dev)) [] = Inr s1"
      "(if sys_target S = AppleLike
        then and_then (nonzero_ifindex S dev) (\<lambda>ifindex. perform S [BindDeviceByIndexV4 ifindex] s1)
        else Inr s1) = Inr s2"
      "perform S [SetMulticastLoopV4 True, JoinMulticastV4 MULTICAST_ADDR_V4 a, SetMulticastIfV4 a] s2 = Inr cs"
    using assms unfolding open_v4_def and_then_Inr by blast
  have s1: "accepted_calls S s1" using s(1) unfolding perform_fresh by simp
  have s2: "s2 = s1 @ on_target (sys_target S = AppleLike) (BindDeviceByIndexV4 (sys_nametoindex S dev)) \<and> accepted_calls S s2 \<and>
      (sys_target S = AppleLike \<longrightarrow> if_nametoindex S dev = Inr (sys_nametoindex S dev))"
    using s(2) s1 if_nametoindex_nonzero [of S dev]
    by (auto simp: and_then_Inr nonzero_ifindex_eq perform_Inr on_target_def split: if_splits)
  then have acc: "accepted_calls S s2" by (elim conjE)
  have cs: "cs = s2 @ [SetMulticastLoopV4 True, JoinMulticastV4 MULTICAST_ADDR_V4 a, SetMulticastIfV4 a]" "accepted_calls S cs"
    using s(3) unfolding perform_Inr [OF acc] by simp_all
  then show "accepted_calls S cs" by simp
  show "cs @ [FromStd] = socket_plan (sys_target S) dev (sys_nametoindex S dev) (IpV4 a)"
    using s(1) s2 cs(1) by (simp add: perform_fresh socket_plan_def)
  show "if_nametoindex S dev = Inr (sys_nametoindex S dev)" if "needs_index (sys_target S) (IpV4 a)"
    using that s2 by (simp add: needs_index_def)
qed

lemma open_v6_Inr:
  assumes "open_v6 S dev = Inr cs"
  shows "accepted_calls S cs" and "cs @ [FromStd] = socket_plan (sys_target S) dev (sys_nametoindex S dev) (IpV6 a)"
    and "if_nametoindex S dev = Inr (sys_nametoindex S dev)"
proof -
  obtain s1 i where s: "perform S
       ([CreateSocket FamV6, SetNonblocking True, SetReuseAddress True] @
        on_target (sys_target S \<noteq> Windows) (SetReusePort True) @
        [BindAddr (V6 (SocketAddrV6 0 MULTICAST_PORT 0 0))] @
        on_target (sys_target S = LinuxLike) (BindDevice dev) @
        [SetMulticastLoopV6 True]) [] = Inr s1"
      "if_nametoindex S dev = Inr i"
      "perform S (on_target (sys_target S = AppleLike) (BindDeviceByIndexV6 i) @
        [JoinMulticastV6 MULTICAST_ADDR_V6 i, SetMulticastIfV6 i]) s1 = Inr cs"
    using assms unfolding open_v6_def and_then_Inr nonzero_ifindex_eq by blast
  have s1: "accepted_calls S s1" using s(1) unfolding perform_fresh by simp
  have i: "i = sys_nametoindex S dev" using if_nametoindex_nonzero [OF s(2)] by simp
  show "accepted_calls S cs" using s(3) s1 by (simp add: perform_Inr)
  show "cs @ [FromStd] = socket_plan (sys_target S) dev (sys_nametoindex S dev) (IpV6 a)"
    using s(1,3) s1 i by (simp add: perform_Inr perform_fresh socket_plan_def)
  show "if_nametoindex S dev = Inr (sys_nametoindex S dev)" using s(2) i by simp
qed

lemma MdnsSocket_new_Inr:
  assumes "MdnsSocket_new S dev ip = Inr s"
  shows "accepted_calls S (udp s) \<and> udp s = socket_plan (sys_target S) dev (sys_nametoindex S dev) ip \<and>
    (needs_index (sys_target S) ip \<longrightarrow> if_nametoindex S dev = Inr (sys_nametoindex S dev)) \<and> sock_ip s = ip \<and> sock_nic s = dev"
proof (cases ip)
  case (IpV4 a)
  then obtain cs where cs: "open_v4 S dev a = Inr cs" "perform S [FromStd] cs = Inr (udp s)" "sock_ip s = ip" "sock_nic s = dev"
    using assms by (auto simp: MdnsSocket_new_def and_then_Inr)
  with open_v4_Inr [OF cs(1)] IpV4 show ?thesis by (simp add: perform_Inr)
next
  case (IpV6 a)
  then obtain cs where cs: "open_v6 S dev = Inr cs" "perform S [FromStd] cs = Inr (udp s)" "sock_ip s = ip" "sock_nic s = dev"
    using assms by (auto simp: MdnsSocket_new_def and_then_Inr)
  with open_v6_Inr(1,3) [OF cs(1)] open_v6_Inr(2) [OF cs(1), of a] IpV6 show ?thesis by (simp add: perform_Inr)
qed

definition own_interface :: "system \<Rightarrow> rstr \<Rightarrow> IpAddr \<Rightarrow> interface" where
  "own_interface S dev ip = (case ip of IpV4 a \<Rightarrow> OnAddress a | IpV6 _ \<Rightarrow> OnIndex (sys_nametoindex S dev))"

definition mdns_group :: "IpAddr \<Rightarrow> IpAddr" where
  "mdns_group ip = (case ip of IpV4 _ \<Rightarrow> IpV4 MULTICAST_ADDR_V4 | IpV6 _ \<Rightarrow> IpV6 MULTICAST_ADDR_V6)"

lemma socket_plan_configures:
  assumes "udp s = socket_plan tgt dev (sys_nametoindex S dev) ip"
  shows "joins s = [(mdns_group ip, own_interface S dev ip)] \<and> outgoing s = [own_interface S dev ip] \<and>
    binds s = [on_port (case ip of IpV4 _ \<Rightarrow> IpV4 0 | IpV6 _ \<Rightarrow> IpV6 0) MULTICAST_PORT]"
  using assms
  by (simp add: joins_def outgoing_def binds_def socket_plan_def on_target_def own_interface_def mdns_group_def
      List.map_filter_simps split: IpAddr.splits)

definition some_refused :: "system \<Rightarrow> io_error \<Rightarrow> bool" where
  "some_refused S e \<longleftrightarrow> (\<exists>before c. accepted_calls S before \<and> sys_call S before c = Some e)"

lemma perform_refused: "accepted_calls S prior \<Longrightarrow> perform S cs prior = Inl e \<Longrightarrow> some_refused S e"
  using perform_Inl unfolding some_refused_def by blast

lemma MdnsSocket_new_Inl:
  assumes "MdnsSocket_new S dev ip = Inl e"
  shows "some_refused S e \<or> needs_index (sys_target S) ip \<and> if_nametoindex S dev = Inl e"
proof -
  have v4: "some_refused S e \<or> needs_index (sys_target S) (IpV4 a) \<and> if_nametoindex S dev = Inl e" if "open_v4 S dev a = Inl e" for a
    using that by (auto simp: open_v4_def and_then_Inl and_then_Inr nonzero_ifindex_eq needs_index_def perform_Inr
        intro: perform_refused perform_refused [OF accepted_calls_Nil] split: if_splits)
  have v6: "some_refused S e \<or> if_nametoindex S dev = Inl e" if "open_v6 S dev = Inl e"
    using that by (auto simp: open_v6_def and_then_Inl and_then_Inr nonzero_ifindex_eq perform_Inr intro: perform_refused perform_refused [OF accepted_calls_Nil])
  show ?thesis
    using assms v4 v6 perform_refused [of S _ "[FromStd]" e] open_v4_Inr(1) [of S dev] open_v6_Inr(1) [of S dev]
    by (cases ip) (fastforce simp: MdnsSocket_new_def and_then_Inl needs_index_def)+
qed


section \<open>The protocol object\<close>

text \<open>\<open>route_task\<close> tells whether the routing task still runs, and \<open>router_refs\<close> counts the strong references
  that calls in progress hold.\<close>

record Protocol =
  proto_socket :: MdnsSocket
  router :: PacketRouter
  route_task :: bool
  router_refs :: nat

definition MdnsProtocol_new :: "system \<Rightarrow> rstr \<Rightarrow> IpAddr \<Rightarrow> io_error + Protocol" where
  "MdnsProtocol_new S dev ip =
     (case MdnsSocket_new S dev ip of
        Inl e \<Rightarrow> Inl e
      | Inr s \<Rightarrow> Inr \<lparr>proto_socket = s, router = PacketRouter_new, route_task = True, router_refs = 0\<rparr>)"

definition protocol_bound_ip :: "Protocol \<Rightarrow> IpAddr" where
  "protocol_bound_ip p = sock_ip (proto_socket p)"

definition protocol_bound_nic :: "Protocol \<Rightarrow> rstr" where
  "protocol_bound_nic p = sock_nic (proto_socket p)"

definition router_alive :: "Protocol \<Rightarrow> bool" where
  "router_alive p \<longleftrightarrow> route_task p \<or> router_refs p > 0"

text \<open>\<open>Weak::upgrade\<close>, and dropping the reference at the end of the call.\<close>

definition upgrade :: "Protocol \<Rightarrow> Protocol option" where
  "upgrade p = (if router_alive p then Some (p\<lparr>router_refs := Suc (router_refs p)\<rparr>) else None)"

definition release :: "Protocol \<Rightarrow> Protocol" where
  "release p = p\<lparr>router_refs := router_refs p - 1\<rparr>"

text \<open>\<^verbatim>\<open>MdnsProtocol::receive_query\<close>: the call up to its \<^verbatim>\<open>await\<close>, and polling it. The variable \<^verbatim>\<open>router\<close> lives to the
  end of the call, so the sending half of the channel cannot go away while the call waits; with an empty
  queue it goes on waiting (\<open>None\<close>).\<close>

definition receive_query_call :: "Protocol \<Rightarrow> query_error + Protocol" where
  "receive_query_call p = (case upgrade p of None \<Rightarrow> Inl Disconnected | Some p \<Rightarrow> Inr p)"

definition receive_query_poll :: "Protocol \<Rightarrow> (message \<times> Protocol) option" where
  "receive_query_poll p =
     (case receive_query (router p) of
        None \<Rightarrow> None
      | Some (m, r) \<Rightarrow> Some (m, release (p\<lparr>router := r\<rparr>)))"

text \<open>\<^verbatim>\<open>MdnsProtocol::query\<close>: from its start to the registration of the query, and its end, where the stream of
  responses is dropped before the router is. What happens in between is \<open>mdns_query\<close>.\<close>

definition query_call :: "u16 \<Rightarrow> rstr \<Rightarrow> Protocol \<Rightarrow> query_error + nat \<times> Protocol" where
  "query_call rnd lname p =
     (case upgrade p of
        None \<Rightarrow> Inl Disconnected
      | Some p \<Rightarrow>
          let packet = query_with_id rnd lname in
          if packet_id packet = 0 then Inl QueryIdZero
          else
            let (ch, r) = register_query (packet_id packet) (router p)
            in Inr (ch, p\<lparr>router := r\<rparr>))"

definition query_return :: "u16 \<Rightarrow> Protocol \<Rightarrow> Protocol" where
  "query_return query_id p = release (p\<lparr>router := drop_responses query_id (router p)\<rparr>)"

section \<open>The tasks around it\<close>

text \<open>The responder of \<^verbatim>\<open>spawn_responder\<close> is about to call \<^verbatim>\<open>receive_query\<close>, waits in it, or has ended.\<close>

datatype responder = Calling | Waiting | Ended

record Life =
  protocol :: Protocol
  responder :: responder
  asking :: "u16 list" \<comment> \<open>the identifiers of the queries in progress\<close>

definition Life_new :: "Protocol \<Rightarrow> Life" where
  "Life_new p = \<lparr>protocol = p, responder = Calling, asking = []\<rparr>"

inductive life_step :: "Life \<Rightarrow> Life \<Rightarrow> bool" where
  life_route: "route_task (protocol l) \<Longrightarrow>
    life_step l (l\<lparr>protocol := (protocol l)\<lparr>router := deliver m (router (protocol l))\<rparr>\<rparr>)"
| life_route_ends: "life_step l (l\<lparr>protocol := (protocol l)\<lparr>route_task := False\<rparr>\<rparr>)"
| life_call: "responder l = Calling \<Longrightarrow> receive_query_call (protocol l) = Inr p \<Longrightarrow>
    life_step l (l\<lparr>protocol := p, responder := Waiting\<rparr>)"
| life_disconnected: "responder l = Calling \<Longrightarrow> receive_query_call (protocol l) = Inl e \<Longrightarrow>
    life_step l (l\<lparr>responder := Ended\<rparr>)"
| life_received: "responder l = Waiting \<Longrightarrow> receive_query_poll (protocol l) = Some (m, p) \<Longrightarrow>
    life_step l (l\<lparr>protocol := p, responder := Calling\<rparr>)"
| life_query: "query_call rnd n (protocol l) = Inr (ch, p) \<Longrightarrow>
    life_step l (l\<lparr>protocol := p, asking := packet_id (query_with_id rnd n) # asking l\<rparr>)"
| life_query_ends: "q \<in> set (asking l) \<Longrightarrow>
    life_step l (l\<lparr>protocol := query_return q (protocol l), asking := remove1 q (asking l)\<rparr>)"

text \<open>Aborting the tasks, as shutting down and dropping the resolver do: both end, and a responder that was
  waiting drops its reference.\<close>

definition abort_tasks :: "Life \<Rightarrow> Life" where
  "abort_tasks l =
     (let p = (protocol l)\<lparr>route_task := False\<rparr>
      in l\<lparr>protocol := (if responder l = Waiting then release p else p), responder := Ended\<rparr>)"

definition life_ok :: "Life \<Rightarrow> bool" where
  "life_ok l \<longleftrightarrow> router_refs (protocol l) = (if responder l = Waiting then 1 else 0) + length (asking l)"

lemmas life_defs = receive_query_call_def receive_query_poll_def query_call_def query_return_def upgrade_def release_def

lemma life_step_ok: "life_step l l' \<Longrightarrow> life_ok l \<Longrightarrow> life_ok l'"
proof (induction rule: life_step.induct)
  case (life_query_ends q l)
  then have "length (asking l) > 0" by auto
  with life_query_ends show ?case by (auto simp: life_ok_def life_defs length_remove1)
qed (auto simp: life_ok_def life_defs Let_def split: option.splits if_splits prod.splits)

lemma abort_tasks_ok: "life_ok l \<Longrightarrow> life_ok (abort_tasks l)"
  by (auto simp: life_ok_def abort_tasks_def release_def Let_def)

lemma life_new_ok: "MdnsProtocol_new S dev ip = Inr p \<Longrightarrow> life_ok (Life_new p)"
  by (auto simp: MdnsProtocol_new_def life_ok_def Life_new_def split: sum.splits)

lemma life_reachable_ok: "life_step\<^sup>*\<^sup>* l l' \<Longrightarrow> life_ok l \<Longrightarrow> life_ok l'"
  by (induction rule: rtranclp_induct) (auto intro: life_step_ok)

lemma router_alive_iff: "life_ok l \<Longrightarrow> router_alive (protocol l) \<longleftrightarrow> route_task (protocol l) \<or> responder l = Waiting \<or> asking l \<noteq> []"
  by (auto simp: life_ok_def router_alive_def split: if_splits)

text \<open>The routing task is gone, no query is left in the queue and the responder waits for one.\<close>

definition orphaned :: "Life \<Rightarrow> bool" where
  "orphaned l \<longleftrightarrow> \<not> route_task (protocol l) \<and> requests (router (protocol l)) = [] \<and> responder l = Waiting"

lemma orphaned_step: "life_step l l' \<Longrightarrow> orphaned l \<Longrightarrow> orphaned l'"
  by (induction rule: life_step.induct)
    (auto simp: orphaned_def life_defs receive_query_def register_query_def drop_responses_def Let_def
      split: option.splits if_splits prod.splits)

lemma orphaned_reachable: "life_step\<^sup>*\<^sup>* l l' \<Longrightarrow> orphaned l \<Longrightarrow> orphaned l'"
  by (induction rule: rtranclp_induct) (auto intro: orphaned_step)

text \<open>Without the routing task no stream gains a message.\<close>

lemma silent_step:
  "life_step l l' \<Longrightarrow> \<not> route_task (protocol l) \<Longrightarrow>
   \<not> route_task (protocol l') \<and> (\<exists>cs. channels (router (protocol l')) = channels (router (protocol l)) @ cs)"
  by (induction rule: life_step.induct)
    (auto simp: life_defs receive_query_def register_query_def drop_responses_def Let_def split: option.splits if_splits prod.splits list.splits)

lemma silent_reachable:
  "life_step\<^sup>*\<^sup>* l l' \<Longrightarrow> \<not> route_task (protocol l) \<Longrightarrow>
   \<not> route_task (protocol l') \<and> (\<exists>cs. channels (router (protocol l')) = channels (router (protocol l)) @ cs)"
proof (induction rule: rtranclp_induct)
  case (step k l')
  then show ?case using silent_step by fastforce
qed simp

lemma new_stream_silent:
  assumes "query_call rnd n (protocol l) = Inr (ch, p)" and "\<not> route_task (protocol l)" and "life_step\<^sup>*\<^sup>* (l\<lparr>protocol := p, asking := qs\<rparr>) l'"
  shows "next_response ch (router (protocol l')) = None"
proof -
  have p: "\<not> route_task p" "ch < length (channels (router p))" "channels (router p) ! ch = []"
    using assms(1,2) by (auto simp: life_defs register_query_def Let_def split: option.splits if_splits)
  then obtain cs where "channels (router (protocol l')) = channels (router p) @ cs"
    using silent_reachable [OF assms(3)] by auto
  then show ?thesis using p(2,3) by (simp add: next_response_def nth_append)
qed

lemma stopped_step:
  "life_step l l' \<Longrightarrow> responder l = Ended \<and> \<not> route_task (protocol l) \<Longrightarrow> responder l' = Ended \<and> \<not> route_task (protocol l')"
  by (induction rule: life_step.induct) (auto simp: life_defs Let_def split: option.splits if_splits prod.splits)

lemma stopped_reachable:
  "life_step\<^sup>*\<^sup>* l l' \<Longrightarrow> responder l = Ended \<and> \<not> route_task (protocol l) \<Longrightarrow> responder l' = Ended \<and> \<not> route_task (protocol l')"
proof (induction rule: rtranclp_induct)
  case (step k l')
  then show ?case by (intro stopped_step [OF step(2)]) simp
qed simp

section \<open>Properties\<close>

text \<open>C18: A socket that was opened is ready for multicast on its own interface. Every call was accepted by the
  system; the socket is bound once, to the multicast port, it has joined exactly one group, the mDNS
  group of its family, on its own interface (the address, or the index of the device, which is not
  zero), and sends multicast there. What it broadcasts goes to the very group and port that it has
  joined and bound.\<close>

theorem mdns_socket_joined:
  assumes "MdnsSocket_new S dev ip = Inr s" and "to_bytes C packet = Some buf"
  shows "\<exists>grp bound. accepted_calls S (udp s) \<and> sock_ip s = ip \<and> sock_nic s = dev \<and>
    binds s = [bound] \<and> joins s = [(grp, own_interface S dev ip)] \<and> outgoing s = [own_interface S dev ip] \<and>
    own_interface S dev ip \<noteq> OnIndex 0 \<and> ip_family grp = ip_family ip \<and> ip_family (addr_ip bound) = ip_family ip \<and>
    broadcast_packet C (addr_ip bound) packet = Some (on_port grp MULTICAST_PORT, buf) \<and>
    bound = on_port (addr_ip bound) MULTICAST_PORT"
proof -
  note r = MdnsSocket_new_Inr [OF assms(1)]
  have "own_interface S dev ip \<noteq> OnIndex 0"
    using r if_nametoindex_nonzero [of S dev "sys_nametoindex S dev"] by (auto simp: own_interface_def needs_index_def split: IpAddr.splits)
  moreover have "udp s = socket_plan (sys_target S) dev (sys_nametoindex S dev) ip" using r by blast
  note socket_plan_configures [OF this]
  moreover have "accepted_calls S (udp s) \<and> sock_ip s = ip \<and> sock_nic s = dev" using r by blast
  ultimately show ?thesis
    using assms(2)
    by (intro exI [of _ "mdns_group ip"] exI [of _ "on_port (case ip of IpV4 _ \<Rightarrow> IpV4 0 | IpV6 _ \<Rightarrow> IpV6 0) MULTICAST_PORT"])
      (cases ip; simp add: mdns_group_def broadcast_packet_def)
qed

definition demo_system :: "target_os \<Rightarrow> system" where
  "demo_system tgt = \<lparr>sys_target = tgt, sys_call = (\<lambda>before c. if c = FromStd \<and> before = [] then Some (IoError []) else None),
     sys_nametoindex = (\<lambda>_. 3), sys_last_error = IoError (str ''no such device'')\<rparr>"

lemma demo_socket:
  "MdnsSocket_new (demo_system LinuxLike) (str ''eth0'') (IpV6 1) =
     Inr \<lparr>udp = socket_plan LinuxLike (str ''eth0'') 3 (IpV6 1), sock_ip = IpV6 1, sock_nic = str ''eth0''\<rparr>"
  by (simp add: MdnsSocket_new_def open_v6_def and_then_def on_target_def perform.simps demo_system_def nonzero_ifindex_def
      if_nametoindex_def str_def socket_plan_def)

theorem mdns_socket_joined_witness:
  "\<exists>s. MdnsSocket_new (demo_system LinuxLike) (str ''eth0'') (IpV6 1) = Inr s \<and>
     joins s = [(IpV6 MULTICAST_ADDR_V6, OnIndex 3)] \<and>
     broadcast_packet ref_codec (IpV6 0) Packet_default = Some (V6 (SocketAddrV6 MULTICAST_ADDR_V6 5353 0 0), replicate 12 0)"
proof -
  have bytes: "to_bytes ref_codec Packet_default = Some (replicate 12 0)" by code_simp
  let ?s = "\<lparr>udp = socket_plan LinuxLike (str ''eth0'') 3 (IpV6 1), sock_ip = IpV6 1, sock_nic = str ''eth0''\<rparr>"
  have "joins ?s = [(IpV6 MULTICAST_ADDR_V6, OnIndex 3)]" "binds ?s = [on_port (IpV6 0) MULTICAST_PORT]"
    using socket_plan_configures [of ?s LinuxLike "str ''eth0''" "demo_system LinuxLike" "IpV6 1"]
    by (simp_all add: demo_system_def mdns_group_def own_interface_def)
  then show ?thesis
    using mdns_socket_joined [OF demo_socket bytes] demo_socket
    by (auto simp: MULTICAST_PORT_def)
qed

text \<open>When opening the socket fails, the error is the answer of the system: to one of the calls, all calls
  before it having succeeded, or to the request for the interface index, where the address or
  the platform needs one. A name with a NUL never reaches the system. The resolver that asked for the
  socket does not come into being, and the caller learns the device, the address and that error.\<close>

theorem mdns_socket_failure:
  assumes "MdnsSocket_new S dev ip = Inl e" and "valid_service_name sname"
  shows "(some_refused S e \<or> needs_index (sys_target S) ip \<and>
      (if 0 \<in> set dev then e = IoError (str ''interface name contains NUL'') else sys_nametoindex S dev = 0 \<and> e = sys_last_error S)) \<and>
    MdnsProtocol_new S dev ip = Inl e \<and>
    mdns_bind (\<lambda>dev ip. case MdnsSocket_new S dev ip of Inl e \<Rightarrow> Some e | Inr _ \<Rightarrow> None) sname dev ip = Inl (Bind dev ip e)"
  using MdnsSocket_new_Inl [OF assms(1)] assms
  by (auto simp: MdnsProtocol_new_def mdns_bind_def MdnsResolver_new_def if_nametoindex_def Let_def split: if_splits)

theorem mdns_socket_failure_witness:
  "mdns_bind (\<lambda>dev ip. case MdnsSocket_new (demo_system Windows) dev ip of Inl e \<Rightarrow> Some e | Inr _ \<Rightarrow> None)
     (str ''_dhttp.local'') [0] (IpV6 1) = Inl (Bind [0] (IpV6 1) (IoError (str ''interface name contains NUL'')))"
proof -
  have "MdnsSocket_new (demo_system Windows) [0] (IpV6 1) = Inl (IoError (str ''interface name contains NUL''))"
    by (simp add: MdnsSocket_new_def open_v6_def and_then_def on_target_def perform.simps demo_system_def nonzero_ifindex_def if_nametoindex_def)
  moreover have "valid_service_name (str ''_dhttp.local'')" by code_simp
  ultimately show ?thesis using mdns_socket_failure by blast
qed

text \<open>C17: The lifetime of the router. In every state that the tasks and the queries can reach, the router is
  there exactly as long as the routing task runs, the responder waits or a query is in progress.
  Once the tasks are aborted and the queries in progress have returned, it is gone for good: every further
  query is answered at once that the socket is not listening.\<close>

theorem router_lifetime:
  assumes "MdnsProtocol_new S dev ip = Inr p" and "life_step\<^sup>*\<^sup>* (Life_new p) l"
    and "life_step\<^sup>*\<^sup>* (abort_tasks l) l'"
  shows "(router_alive (protocol l) \<longleftrightarrow> route_task (protocol l) \<or> responder l = Waiting \<or> asking l \<noteq> []) \<and>
    responder l' = Ended \<and> (asking l' = [] \<longrightarrow> query_call rnd n (protocol l') = Inl Disconnected)"
proof -
  have ok: "life_ok l" by (rule life_reachable_ok [OF assms(2) life_new_ok [OF assms(1)]])
  have ok': "life_ok l'" by (rule life_reachable_ok [OF assms(3) abort_tasks_ok [OF ok]])
  have "responder l' = Ended \<and> \<not> route_task (protocol l')"
    by (rule stopped_reachable [OF assms(3)]) (auto simp: abort_tasks_def release_def Let_def)
  with router_alive_iff [OF ok] router_alive_iff [OF ok'] show ?thesis by (auto simp: query_call_def upgrade_def)
qed

definition demo_protocol :: Protocol where
  "demo_protocol = \<lparr>proto_socket = \<lparr>udp = socket_plan LinuxLike (str ''eth0'') 3 (IpV6 1), sock_ip = IpV6 1, sock_nic = str ''eth0''\<rparr>,
     router = PacketRouter_new, route_task = True, router_refs = 0\<rparr>"

lemma demo_protocol_new: "MdnsProtocol_new (demo_system LinuxLike) (str ''eth0'') (IpV6 1) = Inr demo_protocol"
  by (simp add: MdnsProtocol_new_def demo_socket demo_protocol_def)

lemma demo_waiting: "life_step (Life_new demo_protocol)
    \<lparr>protocol = demo_protocol\<lparr>router_refs := 1\<rparr>, responder = Waiting, asking = []\<rparr>"
  using life_call [of "Life_new demo_protocol" "demo_protocol\<lparr>router_refs := 1\<rparr>"]
  by (simp add: Life_new_def life_defs router_alive_def demo_protocol_def)

theorem router_lifetime_witness:
  "query_call 7 (str ''a'') (protocol (abort_tasks \<lparr>protocol = demo_protocol\<lparr>router_refs := 1\<rparr>, responder = Waiting, asking = []\<rparr>)) =
     Inl Disconnected"
proof -
  let ?l = "\<lparr>protocol = demo_protocol\<lparr>router_refs := 1\<rparr>, responder = Waiting, asking = []\<rparr>"
  have "asking (abort_tasks ?l) = []" by (simp add: abort_tasks_def Let_def)
  then show ?thesis
    using router_lifetime [OF demo_protocol_new r_into_rtranclp [of life_step, OF demo_waiting] rtranclp.rtrancl_refl, of 7 "str ''a''"] by blast
qed

text \<open>C37: A socket failure is never reported while the responder waits. When the routing task has ended on a
  socket error and the queue is empty, the waiting responder keeps the router alive through its own
  reference. Whatever else happens, it goes on waiting and has nothing to receive, and no query is answered that the
  socket is not listening; a query that is accepted gets a stream on which nothing ever arrives,
  so it runs into its timeout.\<close>

theorem responder_hides_socket_failure:
  assumes "MdnsProtocol_new S dev ip = Inr p" and "life_step\<^sup>*\<^sup>* (Life_new p) l" and "orphaned l" and "life_step\<^sup>*\<^sup>* l l'"
  shows "responder l' = Waiting \<and> receive_query_poll (protocol l') = None \<and>
    (case query_call rnd n (protocol l') of
       Inl e \<Rightarrow> rnd = 0 \<and> e = QueryIdZero
     | Inr (ch, p') \<Rightarrow> (\<forall>l''. life_step\<^sup>*\<^sup>* (l'\<lparr>protocol := p', asking := rnd # asking l'\<rparr>) l'' \<longrightarrow>
         next_response ch (router (protocol l'')) = None)) \<and>
    (rnd \<noteq> 0 \<longrightarrow> mdns_query True rnd (\<lambda>_. None) n = Inl TimedOut)"
proof -
  have o': "orphaned l'" by (rule orphaned_reachable [OF assms(4,3)])
  have "life_ok l'" using life_reachable_ok assms(2,4) life_new_ok [OF assms(1)] by blast
  then have alive: "router_alive (protocol l')" using o' by (simp add: router_alive_iff orphaned_def)
  have wait: "responder l' = Waiting" "\<not> route_task (protocol l')" "receive_query_poll (protocol l') = None"
    using o' by (auto simp: orphaned_def receive_query_poll_def receive_query_def)
  have late: "mdns_query True rnd (\<lambda>_. None) n = Inl TimedOut" if "rnd \<noteq> 0"
    using that by (simp add: mdns_query_def upt_rec)
  show ?thesis
  proof (cases "query_call rnd n (protocol l')")
    case (Inl e)
    then show ?thesis using wait alive late by (auto simp: query_call_def upgrade_def Let_def split: if_splits prod.splits)
  next
    case (Inr cp)
    then obtain ch p' where call: "query_call rnd n (protocol l') = Inr (ch, p')" by (cases cp) auto
    then show ?thesis using wait late new_stream_silent [OF call wait(2)] by auto
  qed
qed

theorem responder_hides_socket_failure_witness:
  "\<exists>l. life_step\<^sup>*\<^sup>* (Life_new demo_protocol) l \<and> \<not> route_task (protocol l) \<and>
     (case query_call 7 (str ''a'') (protocol l) of Inl e \<Rightarrow> False | Inr (ch, p') \<Rightarrow> next_response ch (router p') = None)"
proof -
  let ?l = "\<lparr>protocol = demo_protocol\<lparr>router_refs := 1\<rparr>, responder = Waiting, asking = []\<rparr>"
  let ?m = "?l\<lparr>protocol := (protocol ?l)\<lparr>route_task := False\<rparr>\<rparr>"
  have run: "life_step\<^sup>*\<^sup>* (Life_new demo_protocol) ?m"
    by (rule rtranclp.rtrancl_into_rtrancl [OF r_into_rtranclp [of life_step, OF demo_waiting] life_route_ends])
  have "orphaned ?m" by (simp add: orphaned_def demo_protocol_def PacketRouter_new_def)
  note responder_hides_socket_failure [OF demo_protocol_new run this rtranclp.rtrancl_refl, of 7 "str ''a''"]
  then have "case query_call 7 (str ''a'') (protocol ?m) of Inl e \<Rightarrow> False | Inr (ch, p') \<Rightarrow> next_response ch (router p') = None"
    by (fastforce split: sum.splits prod.splits)
  with run show ?thesis by (intro exI [of _ ?m]) simp
qed

end
