(* ===== verification/Spec2Isabelle.thy ===== *)
theory Spec2Isabelle
  imports H3Concurrent Bootstrap Display MdnsTransport
begin

text \<open>
  A verification of \<^verbatim>\<open>ddns\<close>: endpoint (E) records, published by the endpoints themselves and looked up
  over DHTTP/3, HTTPS and multicast DNS.

  \<^bold>\<open>The program.\<close> A publisher turns its endpoint addresses into E records of a DNS packet, signs the packet
  and posts it to a server, or answers questions for it on the local network. A resolver asks a server
  or the local network, verifies and parses what comes back, groups the endpoints by the
  certificate chain of their publisher and caches the result. Aggregates combine several publishers or
  several resolvers.

  \<^bold>\<open>Theories and sources\<close> (paths below \<^verbatim>\<open>src/src\<close>).
  \<^item> \<^verbatim>\<open>Prelude\<close>: machine words, big-endian bytes, nom's result type, the parameter record \<open>codec\<close> for the
    primitives of \<^verbatim>\<open>bytes\<close> and \<^verbatim>\<open>nom\<close> with the locale \<open>codec_laws\<close>, and the locale \<open>wire_format\<close>: an
    encoding that its decoder inverts, which every wire component instantiates.
  \<^item> \<^verbatim>\<open>RustStr\<close>: the operations on strings that the sources use, on UTF-8 bytes.
  \<^item> \<^verbatim>\<open>Varint\<close>, \<^verbatim>\<open>Names\<close>, \<^verbatim>\<open>Header\<close>, \<^verbatim>\<open>Records\<close>, \<^verbatim>\<open>Endpoint\<close>, \<^verbatim>\<open>Packet\<close>: the DNS message and the E record,
    \<^verbatim>\<open>core/parser/{varint,name,header,question,record,record/*,packet}.rs\<close>.
  \<^item> \<^verbatim>\<open>Sigin\<close>, \<^verbatim>\<open>Certificate\<close>, \<^verbatim>\<open>Signature\<close>, \<^verbatim>\<open>Wire\<close>: signature schemes, certificate chain keys, the
    publisher's signature and the lookup body, \<^verbatim>\<open>core/parser/sigin.rs\<close>, \<^verbatim>\<open>core/{certificate,signature,wire}.rs\<close>.
  \<^item> \<^verbatim>\<open>Candidates\<close>, \<^verbatim>\<open>Resolvers\<close>, \<^verbatim>\<open>ResolverConfig\<close>: grouping and selection, the aggregate resolver and its
    installation, \<^verbatim>\<open>resolvers/*.rs\<close>, \<^verbatim>\<open>resolvers.rs\<close>, \<^verbatim>\<open>resolver_config.rs\<close>.
  \<^item> \<^verbatim>\<open>Publishers\<close>: an authority's packet and the aggregate publisher, \<^verbatim>\<open>publishers/*.rs\<close>.
  \<^item> \<^verbatim>\<open>Api\<close>, \<^verbatim>\<open>LookupCache\<close>, \<^verbatim>\<open>H3Lookup\<close>, \<^verbatim>\<open>H3Publish\<close>, \<^verbatim>\<open>HttpLookup\<close>: requests, responses, caches and the two
    server resolvers, \<^verbatim>\<open>api.rs\<close>, \<^verbatim>\<open>h3.rs\<close>, \<^verbatim>\<open>h3/*.rs\<close>, \<^verbatim>\<open>http.rs\<close>. The locale \<open>expiring_cache\<close> is what both
    resolvers rely on; it is interpreted on both caches.
  \<^item> \<^verbatim>\<open>MdnsProtocol\<close>, \<^verbatim>\<open>MdnsService\<close>, \<^verbatim>\<open>MdnsSet\<close>: the multicast router, one multicast resolver, and the set of
    resolvers of a host's interfaces, \<^verbatim>\<open>mdns/protocol.rs\<close>, \<^verbatim>\<open>mdns/service.rs\<close>, \<^verbatim>\<open>mdns.rs\<close>.
  \<^item> \<^verbatim>\<open>MdnsTransport\<close>: opening the multicast socket as a sequence of system calls that may each fail, the
    interface index, and the life of the protocol object with its weak reference to the router,
    \<^verbatim>\<open>mdns/protocol.rs\<close>, \<^verbatim>\<open>mdns/if_nametoindex.rs\<close>, \<^verbatim>\<open>mdns/service.rs\<close>.
  \<^item> \<^verbatim>\<open>ErrorText\<close>, \<^verbatim>\<open>Adapters\<close>, \<^verbatim>\<open>Display\<close>: the texts of the aggregates and of their failure reports with the
    chain of causes, the trait implementations through which the resolvers enter an aggregate, and the display
    of addresses, records and packets.
  \<^item> \<^verbatim>\<open>AnswerSafety\<close>: whole histories of the server resolvers and of their aggregate.
  \<^item> \<^verbatim>\<open>H3Concurrent\<close>: the H3 resolver as interleavings of the atomic sections of its operations, of which the
    sequential definitions are runs.
  \<^item> \<^verbatim>\<open>Bootstrap\<close>: the build script and the default configuration, \<^verbatim>\<open>../build.rs\<close>, \<^verbatim>\<open>bootstrap.rs\<close>,
    \<^verbatim>\<open>resolver_config.rs\<close>.

  \<^bold>\<open>Modelling.\<close> Structs are records and enums datatypes under the source's names; functions are total and
  executable. A panic or \<^verbatim>\<open>unreachable!\<close> is the value \<open>None\<close> and an error is \<open>Inl\<close>. Integers that can
  overflow are words. State is passed explicitly; objects shared by reference (the multicast resolvers) are
  numbers into a list. Where the code runs concurrently, the model either takes the completion order
  as an argument and the properties hold for every order, or it is a step relation with one rule
  per atomic section (\<open>record_step\<close>, \<open>router_step\<close>, \<open>life_step\<close>, \<open>set_step\<close>, \<open>h3_section\<close>), or per call of a resolver
  (\<open>h3_step\<close>, \<open>http_step\<close>), and the properties hold in every reachable state. Time is a number passed in. Code outside the repository is a parameter with
  named laws: \<open>codec\<close> (\<^verbatim>\<open>nom\<close>, \<^verbatim>\<open>bytes\<close>), \<open>crypto\<close> (\<^verbatim>\<open>ring\<close>, \<^verbatim>\<open>x509-parser\<close>, base64), \<open>home\<close> (\<^verbatim>\<open>dhttp_home\<close>),
  \<open>authority\<close> (\<^verbatim>\<open>qtls\<close>), \<open>system\<close> (socket calls), \<open>foreign\<close> (texts of foreign values), and functions for transports, sockets, name validation and clocks. Each law is
  satisfied by the reference instance that the witnesses evaluate.

  \<^bold>\<open>Fuel.\<close> Only the reader of names follows pointers that could form a cycle; its fuel is computed
  from the lengths of the input and the message, and \<open>be_name_labels_enough\<close> shows that it is never used up. The other
  loops are structural or have a termination proof.

  \<^bold>\<open>What is shown.\<close> Round trips of every encoding, with name compression across the whole message;
  robustness of the readers on arbitrary input; that signatures made are accepted and that what is
  accepted was signed; that every endpoint of an answer stands in an accepted record; that the aggregates
  neither lose nor invent nor of themselves repeat anything under any interleaving; that caches serve an answer exactly for
  its lifetime, and that after any history an answer, cached or fetched, is what the resolver's own server
  said for this query, also when calls overlap, and when a publication is a barrier for older answers; the router as a refinement of two bounded buffers, and how long it lives; that an open
  socket has joined its group on its own interface; that the default configuration can be installed;
  that reconciliation reaches the desired bindings and that concurrent use of the resolver set leaks no resolver, and that the calls under way when it is closed always end
  and leave it empty. That a signature verifies is derived from what the crates promise of the scheme and the key, through the
  repository's own choice of scheme and algorithm. The properties below
  and in \<^verbatim>\<open>MdnsService\<close> compose publication and lookup end to end.

  \<^bold>\<open>Not modelled.\<close> Module declarations and re-exports, log messages, the derived \<^verbatim>\<open>Debug\<close>
  texts and those of the resolver objects, getters that return a field, which are the fields of the records,
  unit tests and examples.
\<close>

section \<open>Publication and lookup through a server\<close>

text \<open>The record a server hands out for a publication: what the publisher sent, with its certificate.\<close>

definition served_record :: "SignatureFields \<Rightarrow> bytes \<Rightarrow> bytes \<Rightarrow> ResponseRecord" where
  "served_record sf packet cert = \<lparr>signature_fields = sf, rec_dns = packet, rec_cert = cert\<rparr>"

lemma served_record_decoded:
  assumes "codec_laws C" and "home_laws H" and "publisher_laws K identity"
    and "extract_chain_key H (certificates identity) = Some key" and "certificates identity = cert # cs"
    and "name_fits name" and "length ds \<le> 65535" and "list_all dquic_ok ds" and "distinct ds" and "ds \<noteq> []"
    and "dns_packet_for_authority C H identity name ds = Some (Inr packet)" and "fields_sign K created packet identity = Inr sf"
    and "response_ok (served_record sf packet cert)"
  shows "decode_lookup_response C H K addr_of name (lookup_exact (key_sequence key)) source hs
      (encode C \<lparr>mr_records = [served_record sf packet cert]\<rparr>) =
    Inr \<lparr>candidates = \<lparr>groups = [\<lparr>chain = primary_chain_key (key_sequence key), endpoints = ds, sources = [source]\<rparr>]\<rparr>,
         answer_ttl = freshness 300 hs\<rparr>"
proof -
  obtain p where p: "be_packet C H packet = Inr ([], p)"
    "answers p = answer_records [(name, map (\<lambda>d. stamp key (the (try_from_dquic d))) ds)]"
    using authority_packet_read [OF assms(1,2,11,4,6,7,8)] by blast
  have "accepted K (served_record sf packet cert)"
    using publisher_laws.sign_verify [OF assms(3,12,5), of packet] by (simp add: accepted_def served_record_def)
  moreover have "seq_ok H (key_sequence key)" using home_laws.extract_valid [OF assms(2,4)] by (simp add: seq_ok_def)
  ultimately show ?thesis
    using decode_published [OF assms(1,2) _ assms(13) _ p(2) _ assms(8,9,10)] p(1) by (simp add: served_record_def)
qed

text \<open>C4: What one party publishes another one looks up. When a publisher's request for its name has succeeded
  and the server answers the lookup of another resolver for that name and the publisher's
  sequence with the record it was sent, then that resolver, with nothing cached, sends one request and
  returns a single group: the publisher's chain with exactly the published endpoints, in order,
  attributed to the server. The whole way is covered: encoding, signing, the request, the response
  body, signature verification, parsing and selection. The endpoints are distinct and such as a record can hold: an
  IPv6 address has no flow information and no scope.\<close>

theorem publish_then_lookup:
  assumes "codec_laws (env_codec V)" and "home_laws (env_home V)" and "publisher_laws (env_crypto V) identity"
    and "extract_chain_key (env_home V) (certificates identity) = Some key" and "certificates identity = cert # cs"
    and "name_fits name" and "length ds \<le> 65535" and "list_all dquic_ok ds" and "distinct ds" and "ds \<noteq> []"
    and "endpoint r = Some ep" and "local_authority ep = Inr identity"
    and "publish_endpoints V valid_name header_value in_clock created post r name ds = Some (r1, Inr lease)"
    and "dns_packet_for_authority (env_codec V) (env_home V) identity name ds = Some (Inr packet)"
    and "fields_sign (env_crypto V) created packet identity = Inr sf" and "response_ok (served_record sf packet cert)"
    and "length (encode (env_codec V) \<lparr>mr_records = [served_record sf packet cert]\<rparr>) \<le> MAX_LOOKUP_RESPONSE_BYTES"
    and "net (lookup_url (server_origin q) name (lookup_exact (key_sequence key))) 1 = Completed (Some \<lparr>resp_status = 200,
      resp_headers = hs, resp_body = [Data (encode (env_codec V) \<lparr>mr_records = [served_record sf packet cert]\<rparr>)]\<rparr>)"
    and "endpoint_lookup_name_and_sequence (env_dns_name V) (env_home V) hostname = Some (name, Some (key_sequence key))"
    and "\<not> own_origin q name" and "snd (cache_get now (LookupKey_new name (lookup_exact (key_sequence key))) (h3_cache q)) = None"
  shows "lease \<noteq> 0 \<and>
    (\<exists>response. post (publish_request_of (server_origin r) name sf packet) = Responded response \<and> resp_status response = 200) \<and>
    (\<exists>q1. h3_lookup_candidates V net now later q hostname EndpointLookup_default = Some (q1, 1, Inr \<lparr>groups =
      [\<lparr>chain = primary_chain_key (key_sequence key), endpoints = ds,
        sources = [Source.H3 (env_origin_ascii V (server_origin q))]\<rparr>]\<rparr>))"
proof -
  obtain response where pub: "post (publish_request_of (server_origin r) name sf packet) = Responded response" "resp_status response = 200"
    "publish_lease in_clock (resp_headers response) (ds = []) = Inr lease"
    using publish_endpoints_Inr [OF assms(13)] assms(11,12,14,15) by (metis option.inject sum.inject(2))
  have lk: "Api.exact_override EndpointLookup_default (Some s) = lookup_exact s" for s
    by (simp add: Api.exact_override_def EndpointLookup_default_def lookup_exact_def with_family_def)
  let ?net = "net (lookup_url (server_origin q) name (lookup_exact (key_sequence key)))"
  let ?b = "encode (env_codec V) \<lparr>mr_records = [served_record sf packet cert]\<rparr>"
  have resp: "\<not> transient (?net (Suc 0))" "final_result (?net (Suc 0)) = Inr (hs, ?b)"
    using assms(17) by (simp_all add: transient_def final_result_def assms(18) [unfolded One_nat_def] lookup_response_def)
  obtain c where miss: "cache_get now (LookupKey_new name (lookup_exact (key_sequence key))) (h3_cache q) = (c, None)"
    using assms(21) by (metis prod.collapse)
  have "\<exists>q1. h3_lookup_candidates V net now later q hostname EndpointLookup_default = Some (q1, 1, Inr \<lparr>groups =
      [\<lparr>chain = primary_chain_key (key_sequence key), endpoints = ds,
        sources = [Source.H3 (env_origin_ascii V (server_origin q))]\<rparr>]\<rparr>)"
    using served_record_decoded [OF assms(1-10,14-16)]
    by (simp add: h3_lookup_candidates_cases [OF assms(19,20)] lk miss retry_spec resp del: chain_key_simps)
  then show ?thesis using pub publish_lease_Inr [OF pub(3)] assms(10) by blast
qed


theorem publish_then_lookup_witness:
  "\<exists>sf r1 net. \<exists>q1 :: nat H3Resolver. fields_sign ref_crypto 1 demo_packet ref_authority = Inr sf \<and>
     publish_endpoints demo_env (\<lambda>_. True) (\<lambda>_. True) (\<lambda>_. True) 1 demo_post demo_publisher (str ''com'') demo_published = Some (r1, Inr 30000) \<and>
     h3_lookup_candidates demo_env net 0 5 demo_resolver (str ''com:1'') EndpointLookup_default = Some (q1, 1, Inr demo_candidates)"
proof -
  obtain sf where sf: "fields_sign ref_crypto 1 demo_packet ref_authority = Inr sf" "length (content_digest sf) < 65536"
      "length (signature_input sf) < 65536" "length (fields_signature sf) < 65536"
    using ref_fields_sign [OF demo_packet_length] by blast
  obtain r1 where r1: "publish_endpoints demo_env (\<lambda>_. True) (\<lambda>_. True) (\<lambda>_. True) 1 demo_post demo_publisher (str ''com'') demo_published =
      Some (r1, Inr 30000)" using demo_publish by blast
  have ep: "endpoint demo_publisher = Some \<lparr>dep_name = str ''com'', local_authority = Inr ref_authority\<rparr>"
    "certificates ref_authority = [1] # []" "local_authority \<lparr>dep_name = str ''com'', local_authority = Inr ref_authority\<rparr> = Inr ref_authority"
    by (simp_all add: demo_publisher_def ref_authority_def)
  have V: "codec_laws (env_codec demo_env)" "home_laws (env_home demo_env)" "publisher_laws (env_crypto demo_env) ref_authority"
    "extract_chain_key (env_home demo_env) (certificates ref_authority) = Some demo_key"
    "dns_packet_for_authority (env_codec demo_env) (env_home demo_env) ref_authority (str ''com'') demo_published = Some (Inr demo_packet)"
    "fields_sign (env_crypto demo_env) 1 demo_packet ref_authority = Inr sf"
    using refc.codec_laws_axioms refh.home_laws_axioms refp.publisher_laws_axioms demo_authority_key demo_dns_packet sf(1) by simp_all
  let ?rec = "served_record sf demo_packet [1]"
  have ok: "response_ok ?rec" using sf(2-4) demo_packet_length by (simp add: response_ok_def field_ok_def served_record_def)
  have len: "length (encode (env_codec demo_env) \<lparr>mr_records = [?rec]\<rparr>) \<le> MAX_LOOKUP_RESPONSE_BYTES"
    using sf(2-4) demo_packet_length
    by (simp add: refc.encode_bytes response_bytes_def field_bytes_def served_record_def MAX_LOOKUP_RESPONSE_BYTES_def)
  have name: "endpoint_lookup_name_and_sequence (env_dns_name demo_env) (env_home demo_env) (str ''com:1'') = Some (str ''com'', Some (key_sequence demo_key))"
    by (simp add: demo_name demo_key_def)
  have own: "\<not> own_origin (demo_resolver :: nat H3Resolver) (str ''com'')"
    by (simp add: own_origin_def demo_resolver_def demo_origin_def eq_ignore_ascii_case_def trim_end_matches_def str_def to_ascii_lowercase_def ascii_lower_def)
  have miss: "snd (cache_get 0 k (h3_cache (demo_resolver :: nat H3Resolver))) = None" for k
    by (simp add: cache_get_def demo_resolver_def LookupCache_default_def)
  let ?net = "\<lambda>_ _. Completed (Some \<lparr>resp_status = 200, resp_headers = (\<lambda>_. []),
      resp_body = [Data (encode (env_codec demo_env) \<lparr>mr_records = [?rec]\<rparr>)]\<rparr>)"
  have "\<exists>q1 :: nat H3Resolver. h3_lookup_candidates demo_env ?net 0 5 demo_resolver (str ''com:1'') EndpointLookup_default = Some (q1, 1, Inr demo_candidates)"
    using publish_then_lookup [where net = ?net and now = 0 and later = 5 and q = demo_resolver,
        OF V(1-4) ep(2) com_fits demo_published_ok(5,1,2,3) ep(1,3) r1 V(5,6) ok len refl name own miss]
    by (simp add: demo_candidates_def demo_key_def)
  then show ?thesis using sf(1) r1 by blast
qed

end
